(* ===== verification/Prelude.thy ===== *)
theory Prelude
  imports Complex_Main
begin

text \<open>
  Shared vocabulary of the development: JavaScript numbers, the values that JavaScript treats as
  false, the array operations the source uses, and the generic list lemmas the component theories
  rest on.

  Numbers. A JavaScript number is an IEEE double. The model keeps what the source's control flow
  can observe of one: it is a finite value, one of the two infinities, or NaN, and every comparison
  with NaN is false. Finite arithmetic is exact rational arithmetic: rounding, overflow to infinity
  and the sign of zero are not modelled (so \<open>x / 0\<close> is the infinity of the sign of \<open>x\<close>).
\<close>

named_theorems js_num \<open>evaluation of arithmetic and comparison on JavaScript numbers\<close>
named_theorems js_truth \<open>which values JavaScript's tests treat as true\<close>

section \<open>JavaScript numbers\<close>

datatype jsnum = Fin rat | PInf | NInf | NaN

fun is_fin :: "jsnum \<Rightarrow> bool" where
  "is_fin (Fin r) = True"
| "is_fin _ = False"

fun fin_val :: "jsnum \<Rightarrow> rat" where
  "fin_val (Fin r) = r"
| "fin_val _ = 0"

lemma is_fin_iff: "is_fin a \<longleftrightarrow> (\<exists>r. a = Fin r)"
  by (cases a) auto

lemma Fin_fin_val [simp]: "is_fin a \<Longrightarrow> Fin (fin_val a) = a"
  by (cases a) auto

instantiation jsnum :: "{zero, one, plus, minus, uminus, times, inverse, ord}"
begin

definition zero_jsnum :: jsnum where "zero_jsnum = Fin 0"

definition one_jsnum :: jsnum where "one_jsnum = Fin 1"

fun plus_jsnum :: "jsnum \<Rightarrow> jsnum \<Rightarrow> jsnum" where
  "plus_jsnum NaN b = NaN"
| "plus_jsnum a NaN = NaN"
| "plus_jsnum (Fin a) (Fin b) = Fin (a + b)"
| "plus_jsnum (Fin a) b = b"
| "plus_jsnum a (Fin b) = a"
| "plus_jsnum PInf PInf = PInf"
| "plus_jsnum NInf NInf = NInf"
| "plus_jsnum PInf NInf = NaN"
| "plus_jsnum NInf PInf = NaN"

fun uminus_jsnum :: "jsnum \<Rightarrow> jsnum" where
  "uminus_jsnum (Fin a) = Fin (- a)"
| "uminus_jsnum PInf = NInf"
| "uminus_jsnum NInf = PInf"
| "uminus_jsnum NaN = NaN"

definition minus_jsnum :: "jsnum \<Rightarrow> jsnum \<Rightarrow> jsnum" where
  "minus_jsnum a b = a + (- b)"

fun times_jsnum :: "jsnum \<Rightarrow> jsnum \<Rightarrow> jsnum" where
  "times_jsnum NaN b = NaN"
| "times_jsnum a NaN = NaN"
| "times_jsnum (Fin a) (Fin b) = Fin (a * b)"
| "times_jsnum (Fin a) PInf = (if a = 0 then NaN else if 0 < a then PInf else NInf)"
| "times_jsnum (Fin a) NInf = (if a = 0 then NaN else if 0 < a then NInf else PInf)"
| "times_jsnum PInf (Fin b) = (if b = 0 then NaN else if 0 < b then PInf else NInf)"
| "times_jsnum NInf (Fin b) = (if b = 0 then NaN else if 0 < b then NInf else PInf)"
| "times_jsnum PInf PInf = PInf"
| "times_jsnum NInf NInf = PInf"
| "times_jsnum PInf NInf = NInf"
| "times_jsnum NInf PInf = NInf"

fun divide_jsnum :: "jsnum \<Rightarrow> jsnum \<Rightarrow> jsnum" where
  "divide_jsnum NaN b = NaN"
| "divide_jsnum a NaN = NaN"
| "divide_jsnum (Fin a) (Fin b) =
     (if b \<noteq> 0 then Fin (a / b) else if a = 0 then NaN else if 0 < a then PInf else NInf)"
| "divide_jsnum (Fin a) b = Fin 0"
| "divide_jsnum PInf (Fin b) = (if 0 \<le> b then PInf else NInf)"
| "divide_jsnum NInf (Fin b) = (if 0 \<le> b then NInf else PInf)"
| "divide_jsnum PInf b = NaN"
| "divide_jsnum NInf b = NaN"

definition inverse_jsnum :: "jsnum \<Rightarrow> jsnum" where
  "inverse_jsnum a = Fin 1 div a"

fun less_jsnum :: "jsnum \<Rightarrow> jsnum \<Rightarrow> bool" where
  "less_jsnum (Fin a) (Fin b) = (a < b)"
| "less_jsnum (Fin a) PInf = True"
| "less_jsnum NInf (Fin b) = True"
| "less_jsnum NInf PInf = True"
| "less_jsnum _ _ = False"

fun less_eq_jsnum :: "jsnum \<Rightarrow> jsnum \<Rightarrow> bool" where
  "less_eq_jsnum (Fin a) (Fin b) = (a \<le> b)"
| "less_eq_jsnum (Fin a) PInf = True"
| "less_eq_jsnum NInf (Fin b) = True"
| "less_eq_jsnum NInf PInf = True"
| "less_eq_jsnum PInf PInf = True"
| "less_eq_jsnum NInf NInf = True"
| "less_eq_jsnum _ _ = False"

instance ..

end

lemma jsnum_arith [simp, js_num]:
  "Fin a + Fin b = Fin (a + b)" "Fin a - Fin b = Fin (a - b)" "- Fin a = Fin (- a)"
  "Fin a * Fin b = Fin (a * b)" "Fin a < Fin b \<longleftrightarrow> a < b" "Fin a \<le> Fin b \<longleftrightarrow> a \<le> b"
  by (simp_all add: minus_jsnum_def)

lemma jsnum_divide [simp, js_num]: "b \<noteq> 0 \<Longrightarrow> Fin a / Fin b = Fin (a / b)"
  by simp

lemma jsnum_NaN [simp, js_num]:
  "NaN + a = NaN" "a + NaN = NaN" "NaN - a = NaN" "a - NaN = NaN" "NaN * a = NaN" "a * NaN = NaN"
  "\<not> NaN < a" "\<not> a < NaN" "\<not> NaN \<le> a" "\<not> a \<le> NaN"
  by (cases a; simp add: minus_jsnum_def)+

instance jsnum :: comm_monoid_add
proof
  fix a b c :: jsnum
  show "a + b + c = a + (b + c)" by (cases a; cases b; cases c; simp)
  show "a + b = b + a" by (cases a; cases b; simp)
  show "0 + a = a" by (cases a) (simp_all add: zero_jsnum_def)
qed

instance jsnum :: numeral ..

lemma numeral_jsnum [js_num]: "(numeral n :: jsnum) = Fin (numeral n)"
proof (induction n)
  case One
  then show ?case by (simp add: one_jsnum_def)
next
  case (Bit0 n)
  then show ?case by (simp only: numeral.simps jsnum_arith)
next
  case (Bit1 n)
  then show ?case by (simp only: numeral.simps jsnum_arith one_jsnum_def)
qed

lemmas jsnum_consts [js_num] = zero_jsnum_def one_jsnum_def

text \<open>On finite numbers the comparison is a linear order.\<close>

lemma fin_le_less [simp]: "is_fin a \<Longrightarrow> is_fin b \<Longrightarrow> \<not> a \<le> b \<longleftrightarrow> b < (a::jsnum)"
  by (cases a; cases b) auto

lemma fin_not_less: "is_fin a \<Longrightarrow> is_fin b \<Longrightarrow> \<not> a < b \<longleftrightarrow> b \<le> (a::jsnum)"
  by (cases a; cases b) auto

text \<open>\<open>==\<close> on numbers: NaN equals nothing.\<close>

definition js_eq :: "jsnum \<Rightarrow> jsnum \<Rightarrow> bool" where
  "js_eq a b \<longleftrightarrow> a \<noteq> NaN \<and> a = b"

lemma js_eq_Fin [simp]: "js_eq (Fin a) b \<longleftrightarrow> b = Fin a" "js_eq NaN b \<longleftrightarrow> False" "js_eq b NaN \<longleftrightarrow> False"
  by (auto simp: js_eq_def)

section \<open>Truth of a value\<close>

text \<open>
  A number is false in a test when it is zero or NaN, a string when it is empty; \<open>a || b\<close> is
  \<open>b\<close> exactly when \<open>a\<close> is false. An absent (undefined or null) value is \<open>None\<close>.
\<close>

fun truthy_num :: "jsnum \<Rightarrow> bool" where
  "truthy_num (Fin r) = (r \<noteq> 0)"
| "truthy_num NaN = False"
| "truthy_num _ = True"

definition or_num :: "jsnum \<Rightarrow> jsnum \<Rightarrow> jsnum" where
  "or_num a b = (if truthy_num a then a else b)"

fun or_opt :: "jsnum option \<Rightarrow> jsnum \<Rightarrow> jsnum" where
  "or_opt None b = b"
| "or_opt (Some a) b = or_num a b"

fun or_str :: "string option \<Rightarrow> string \<Rightarrow> string" where
  "or_str None b = b"
| "or_str (Some a) b = (if a = [] then b else a)"

fun truthy_opt :: "jsnum option \<Rightarrow> bool" where
  "truthy_opt None = False"
| "truthy_opt (Some a) = truthy_num a"

lemma or_num_simps [simp, js_truth]:
  "r \<noteq> 0 \<Longrightarrow> or_num (Fin r) b = Fin r" "or_num (Fin 0) b = b" "or_num NaN b = b"
  "or_num PInf b = PInf" "or_num NInf b = NInf"
  by (simp_all add: or_num_def)

section \<open>Math\<close>

definition js_floor :: "jsnum \<Rightarrow> jsnum" where
  "js_floor a = (case a of Fin r \<Rightarrow> Fin (of_int \<lfloor>r\<rfloor>) | _ \<Rightarrow> a)"

definition js_ceil :: "jsnum \<Rightarrow> jsnum" where
  "js_ceil a = (case a of Fin r \<Rightarrow> Fin (of_int \<lceil>r\<rceil>) | _ \<Rightarrow> a)"

text \<open>\<open>Math.round\<close> rounds halves up.\<close>

definition js_round :: "jsnum \<Rightarrow> jsnum" where
  "js_round a = (case a of Fin r \<Rightarrow> Fin (of_int \<lfloor>r + 1 / 2\<rfloor>) | _ \<Rightarrow> a)"

fun js_abs :: "jsnum \<Rightarrow> jsnum" where
  "js_abs (Fin r) = Fin \<bar>r\<bar>"
| "js_abs NaN = NaN"
| "js_abs _ = PInf"

text \<open>\<open>Math.min\<close> and \<open>Math.max\<close>: NaN if an argument is NaN; of no arguments, an infinity.\<close>

definition js_min2 :: "jsnum \<Rightarrow> jsnum \<Rightarrow> jsnum" where
  "js_min2 a b = (if a = NaN \<or> b = NaN then NaN else if b < a then b else a)"

definition js_max2 :: "jsnum \<Rightarrow> jsnum \<Rightarrow> jsnum" where
  "js_max2 a b = (if a = NaN \<or> b = NaN then NaN else if a < b then b else a)"

definition js_min :: "jsnum list \<Rightarrow> jsnum" where
  "js_min xs = foldr js_min2 xs PInf"

definition js_max :: "jsnum list \<Rightarrow> jsnum" where
  "js_max xs = foldr js_max2 xs NInf"

lemma js_min2_Fin [simp]: "js_min2 (Fin a) (Fin b) = Fin (min a b)"
  by (auto simp: js_min2_def)

lemma js_max2_Fin [simp]: "js_max2 (Fin a) (Fin b) = Fin (max a b)"
  by (auto simp: js_max2_def)

lemma js_min_Cons [simp]: "js_min (a # xs) = js_min2 a (js_min xs)"
  and js_max_Cons [simp]: "js_max (a # xs) = js_max2 a (js_max xs)"
  and js_min_Nil [simp]: "js_min [] = PInf" and js_max_Nil [simp]: "js_max [] = NInf"
  by (simp_all add: js_min_def js_max_def)

lemma js_min_Fin: "xs \<noteq> [] \<Longrightarrow> js_min (map Fin xs) = Fin (Min (set xs))"
proof (induction xs)
  case Nil
  then show ?case by simp
next
  case (Cons a xs)
  then show ?case by (cases "xs = []") (simp_all add: js_min2_def [of _ PInf])
qed

lemma js_max_Fin: "xs \<noteq> [] \<Longrightarrow> js_max (map Fin xs) = Fin (Max (set xs))"
proof (induction xs)
  case Nil
  then show ?case by simp
next
  case (Cons a xs)
  then show ?case by (cases "xs = []") (simp_all add: js_max2_def [of _ NInf])
qed

lemma js_min_NaN: "NaN \<in> set xs \<Longrightarrow> js_min xs = NaN"
  by (induction xs) (auto simp: js_min2_def)

lemma js_min_in: "xs \<noteq> [] \<Longrightarrow> NaN \<notin> set xs \<Longrightarrow> js_min xs \<in> set xs"
proof (induction xs)
  case Nil
  then show ?case by simp
next
  case (Cons a xs)
  then show ?case
  proof (cases "xs = []")
    case True
    with Cons.prems show ?thesis by (cases a) (simp_all add: js_min2_def)
  next
    case False
    with Cons show ?thesis by (auto simp: js_min2_def)
  qed
qed

section \<open>Arrays\<close>

text \<open>
  \<open>a[i]\<close> outside the array is \<open>undefined\<close>: the model's \<open>None\<close>. \<open>a.splice(i, 0, v)\<close> inserts
  (at the end when \<open>i\<close> is past it), \<open>a.splice(i, n)\<close> removes and returns the removed part.
\<close>

definition js_nth :: "'a list \<Rightarrow> int \<Rightarrow> 'a option" where
  "js_nth xs i = (if 0 \<le> i \<and> i < int (length xs) then Some (xs ! nat i) else None)"

definition splice_insert :: "nat \<Rightarrow> 'a \<Rightarrow> 'a list \<Rightarrow> 'a list" where
  "splice_insert i v xs = take i xs @ v # drop i xs"

definition splice_remove :: "nat \<Rightarrow> nat \<Rightarrow> 'a list \<Rightarrow> 'a list \<times> 'a list" where
  "splice_remove i n xs = (take n (drop i xs), take i xs @ drop (i + n) xs)"

lemma splice_insert_prefix [simp]:
  "length ps = i \<Longrightarrow> splice_insert i v (ps @ rs) = ps @ v # rs"
  by (simp add: splice_insert_def)

lemma js_nth_Some_iff:
  "js_nth xs i = Some v \<longleftrightarrow> 0 \<le> i \<and> i < int (length xs) \<and> v = xs ! nat i"
  by (auto simp: js_nth_def)

lemma js_nth_of_nat [simp]: "i < length xs \<Longrightarrow> js_nth xs (int i) = Some (xs ! i)"
  by (simp add: js_nth_def)

lemma sum_list_less:
  assumes "\<forall>x \<in> set xs. f x \<le> (g x :: nat)" and "\<exists>x \<in> set xs. f x < g x"
  shows "sum_list (map f xs) < sum_list (map g xs)"
  using assms
proof (induction xs)
  case Nil
  then show ?case by simp
next
  case (Cons a xs)
  have "sum_list (map f xs) \<le> sum_list (map g xs)"
    using Cons.prems(1) by (intro sum_list_mono) auto
  with Cons show ?case by (cases "f a < g a") auto
qed

section \<open>Errors\<close>

text \<open>
  A call either throws, carrying the thrown text, or returns. Type errors raised by the engine
  itself (a property of \<open>undefined\<close>) are \<open>TypeError\<close>.
\<close>

datatype js_error = Thrown string | TypeError | ReferenceError | InvalidStateError | URIError

type_synonym 'a js = "js_error + 'a"

definition js_bind :: "'a js \<Rightarrow> ('a \<Rightarrow> 'b js) \<Rightarrow> 'b js" where
  "js_bind m f = (case m of Inl e \<Rightarrow> Inl e | Inr a \<Rightarrow> f a)"

lemma js_bind_simps [simp]: "js_bind (Inl e) f = Inl e" "js_bind (Inr a) f = f a"
  by (simp_all add: js_bind_def)

lemma js_bind_Inr_iff: "js_bind m f = Inr b \<longleftrightarrow> (\<exists>a. m = Inr a \<and> f a = Inr b)"
  by (cases m) auto

lemma js_bind_Inl_iff: "js_bind m f = Inl e \<longleftrightarrow> m = Inl e \<or> (\<exists>a. m = Inr a \<and> f a = Inl e)"
  by (cases m) auto

text \<open>\<open>xs.forEach(f)\<close> over a state: the first throw ends the loop.\<close>

fun for_each :: "('a \<Rightarrow> 's \<Rightarrow> 's js) \<Rightarrow> 'a list \<Rightarrow> 's \<Rightarrow> 's js" where
  "for_each f [] s = Inr s"
| "for_each f (x # xs) s = js_bind (f x s) (for_each f xs)"

lemma for_each_done [simp]: "js_bind m (for_each f []) = m"
  by (cases m) (simp_all add: js_bind_def)

lemma for_each_append:
  "for_each f (xs @ ys) s = js_bind (for_each f xs s) (for_each f ys)"
  by (induction xs arbitrary: s) (auto simp: js_bind_def split: sum.splits)

text \<open>An invariant that every call of the body keeps holds after the loop.\<close>

lemma for_each_inv:
  assumes "for_each f xs s = Inr t" and "P s"
    and "\<And>x s t. x \<in> set xs \<Longrightarrow> P s \<Longrightarrow> f x s = Inr t \<Longrightarrow> P t"
  shows "P t"
  using assms
proof (induction xs arbitrary: s)
  case Nil
  then show ?case by simp
next
  case (Cons x xs)
  then obtain u where u: "f x s = Inr u" "for_each f xs u = Inr t"
    by (auto simp: js_bind_Inr_iff)
  with Cons.prems have "P u" by auto
  with u(2) show ?case
    by (rule Cons.IH) (use Cons.prems(3) in auto)
qed

end
