(* ===== verification/JsText.thy ===== *)
theory JsText
  imports Prelude "HOL-Library.Sublist"
begin

text \<open>
  The string operations the source takes from the language: numbers to digits in a radix
  (\<open>'' + n\<close>, \<open>n.toString(16)\<close>), array-index keys, \<open>split\<close>, \<open>join\<close>, \<open>indexOf\<close>,
  \<open>substring\<close>. Strings are lists of 8-bit characters.
\<close>

named_theorems js_text \<open>evaluation of the string operations\<close>

section \<open>Digits\<close>

definition digit :: "nat \<Rightarrow> char" where
  "digit d = (if d < 10 then char_of (48 + d) else char_of (87 + d))"

fun radix_str :: "nat \<Rightarrow> nat \<Rightarrow> string" where
  "radix_str b n = (if b \<le> 1 \<or> n < b then [digit n] else radix_str b (n div b) @ [digit (n mod b)])"

declare radix_str.simps [simp del]

definition nat_str :: "nat \<Rightarrow> string" where
  "nat_str n = radix_str 10 n"

definition hex_str :: "nat \<Rightarrow> string" where
  "hex_str n = radix_str 16 n"

definition int_str :: "int \<Rightarrow> string" where
  "int_str i = (if i < 0 then ''-'' @ nat_str (nat (- i)) else nat_str (nat i))"

text \<open>
  Number to string. An integer prints its decimal digits. Another rational prints its decimal
  expansion, cut after 17 fractional digits: exact for every decimal the engine would print with at
  most that many.
\<close>

fun frac_digits :: "nat \<Rightarrow> rat \<Rightarrow> string" where
  "frac_digits 0 r = []"
| "frac_digits (Suc k) r =
     (if r = 0 then [] else digit (nat \<lfloor>10 * r\<rfloor>) # frac_digits k (10 * r - of_int \<lfloor>10 * r\<rfloor>))"

definition rat_str :: "rat \<Rightarrow> string" where
  "rat_str r = (let a = \<bar>r\<bar>; f = a - of_int \<lfloor>a\<rfloor> in
     (if r < 0 then ''-'' else '''') @ nat_str (nat \<lfloor>a\<rfloor>) @ (if f = 0 then '''' else ''.'' @ frac_digits 17 f))"

fun num_str :: "jsnum \<Rightarrow> string" where
  "num_str (Fin r) = rat_str r"
| "num_str PInf = ''Infinity''"
| "num_str NInf = ''-Infinity''"
| "num_str NaN = ''NaN''"

section \<open>Reading digits back\<close>

definition digit_val :: "char \<Rightarrow> nat" where
  "digit_val c = (let n = of_char c in if n < 58 then n - 48 else n - 87)"

definition radix_val :: "nat \<Rightarrow> string \<Rightarrow> nat" where
  "radix_val b s = foldl (\<lambda>acc c. acc * b + digit_val c) 0 s"

lemma digit_val_digit [simp]: "d < 16 \<Longrightarrow> digit_val (digit d) = d"
  by (auto simp: digit_def digit_val_def)

lemma of_char_digit: "d < 16 \<Longrightarrow> of_char (digit d) = (if d < 10 then 48 + d else 87 + d)"
  by (simp add: digit_def)

lemma radix_val_snoc: "radix_val b (s @ [c]) = radix_val b s * b + digit_val c"
  by (simp add: radix_val_def)

lemma radix_val_radix_str [simp]:
  "2 \<le> b \<Longrightarrow> b \<le> 16 \<Longrightarrow> radix_val b (radix_str b n) = n"
proof (induction b n rule: radix_str.induct)
  case (1 b n)
  show ?case
  proof (cases "n < b")
    case True
    with 1 show ?thesis
      by (simp add: radix_str.simps [of b n] radix_val_def)
  next
    case False
    with 1 have "radix_val b (radix_str b (n div b)) = n div b" by simp
    moreover from 1 have "n mod b < 16"
      by (metis Suc_1 Suc_le_lessD mod_less_divisor not_less_eq_eq order_less_le_trans zero_less_Suc le_zero_eq not_le)
    ultimately show ?thesis
      using False 1 by (simp add: radix_str.simps [of b n] radix_val_snoc)
  qed
qed

lemma radix_str_nonempty [simp]: "radix_str b n \<noteq> []"
  by (subst radix_str.simps) simp

lemma nat_str_inject [simp]: "nat_str m = nat_str n \<longleftrightarrow> m = n"
proof
  assume "nat_str m = nat_str n"
  then have "radix_val 10 (radix_str 10 m) = radix_val 10 (radix_str 10 n)"
    by (simp add: nat_str_def)
  then show "m = n" by simp
qed simp

lemma hex_str_inject: "hex_str m = hex_str n \<Longrightarrow> m = n"
proof -
  assume "hex_str m = hex_str n"
  then have "radix_val 16 (radix_str 16 m) = radix_val 16 (radix_str 16 n)"
    by (simp add: hex_str_def)
  then show "m = n" by simp
qed

lemma radix_str_length:
  assumes b: "2 \<le> b"
  shows "b ^ k \<le> n \<Longrightarrow> n < b ^ Suc k \<Longrightarrow> length (radix_str b n) = Suc k"
proof (induction k arbitrary: n)
  case 0
  then show ?case by (simp add: radix_str.simps [of b n])
next
  case (Suc k)
  have "b ^ k \<le> n div b"
    using Suc.prems(1) b by (metis div_le_mono nonzero_mult_div_cancel_left not_numeral_le_zero power_Suc)
  moreover have "n div b < b ^ Suc k"
    using Suc.prems(2) b by (simp add: less_mult_imp_div_less mult.commute)
  ultimately have "length (radix_str b (n div b)) = Suc k" by (rule Suc.IH)
  moreover have "\<not> n < b"
  proof -
    have "b \<le> b ^ Suc k" using b by (simp add: Suc_leI)
    with Suc.prems(1) show ?thesis by linarith
  qed
  ultimately show ?case using b by (simp add: radix_str.simps [of b n])
qed

definition is_digit :: "char \<Rightarrow> bool" where
  "is_digit c = (let n = of_char c :: nat in 48 \<le> n \<and> n < 58 \<or> 97 \<le> n \<and> n < 103)"

lemma is_digit_digit [simp]: "d < 16 \<Longrightarrow> is_digit (digit d)"
  by (simp add: is_digit_def of_char_digit)

lemma radix_str_digits:
  "2 \<le> b \<Longrightarrow> b \<le> 16 \<Longrightarrow> list_all is_digit (radix_str b n)"
proof (induction b n rule: radix_str.induct)
  case (1 b n)
  show ?case
  proof (cases "n < b")
    case True
    with 1 show ?thesis
      by (simp add: radix_str.simps [of b n])
  next
    case False
    have "n mod b < 16" using 1 by (meson less_le_trans mod_less_divisor order_less_le_trans pos2)
    with False 1 show ?thesis
      by (simp add: radix_str.simps [of b n])
  qed
qed

section \<open>Array-index keys\<close>

text \<open>
  A property key of an array is an element's index when it is the canonical decimal text of a
  number.
\<close>

definition array_index :: "string \<Rightarrow> nat option" where
  "array_index s = (if s \<noteq> [] \<and> nat_str (radix_val 10 s) = s then Some (radix_val 10 s) else None)"

lemma array_index_nat_str [simp]: "array_index (nat_str n) = Some n"
  by (simp add: array_index_def nat_str_def)

section \<open>Splitting, joining, searching\<close>

fun split_on :: "char \<Rightarrow> string \<Rightarrow> string list" where
  "split_on c [] = [[]]"
| "split_on c (x # xs) =
     (if x = c then [] # split_on c xs
      else case split_on c xs of [] \<Rightarrow> [[x]] | w # ws \<Rightarrow> (x # w) # ws)"

fun join :: "string \<Rightarrow> string list \<Rightarrow> string" where
  "join sep [] = []"
| "join sep [w] = w"
| "join sep (w # ws) = w @ sep @ join sep ws"

text \<open>\<open>s.indexOf(t)\<close>, \<open>None\<close> for -1.\<close>

fun index_of :: "string \<Rightarrow> string \<Rightarrow> nat option" where
  "index_of t [] = (if t = [] then Some 0 else None)"
| "index_of t (c # s) = (if prefix t (c # s) then Some 0 else map_option Suc (index_of t s))"

lemma split_on_nonempty [simp]: "split_on c s \<noteq> []"
  by (induction s) (auto split: list.splits)

lemma split_on_no_sep [simp]: "c \<notin> set s \<Longrightarrow> split_on c s = [s]"
  by (induction s) auto

lemma split_on_append_sep:
  "c \<notin> set w \<Longrightarrow> split_on c (w @ c # s) = w # split_on c s"
  by (induction w) auto

lemma split_on_join:
  "\<forall>w \<in> set ws. c \<notin> set w \<Longrightarrow> ws \<noteq> [] \<Longrightarrow> split_on c (join [c] ws) = ws"
proof (induction "[c]" ws rule: join.induct)
  case (3 w v ws)
  then show ?case by (simp add: split_on_append_sep)
qed auto

lemma join_Cons_head: "join sep ((x # w) # ws) = x # join sep (w # ws)"
  by (cases ws) simp_all

lemma join_Nil_head: "ws \<noteq> [] \<Longrightarrow> join [c] ([] # ws) = c # join [c] ws"
  by (cases ws) simp_all

lemma join_split_on: "join [c] (split_on c s) = s"
proof (induction s)
  case Nil
  then show ?case by simp
next
  case (Cons x s)
  then show ?case
    by (auto simp: join_Nil_head join_Cons_head split: list.splits)
qed

lemma index_of_eq_0: "index_of t s = Some 0 \<longleftrightarrow> prefix t s"
  by (cases s) auto

lemma index_of_None_iff: "index_of t s = None \<longleftrightarrow> \<not> sublist t s"
  by (induction s) (auto simp: sublist_Cons_right)

lemma index_of_Some:
  "index_of t s = Some i \<Longrightarrow> i \<le> length s \<and> prefix t (drop i s)"
proof (induction s arbitrary: i)
  case Nil
  then show ?case by (auto split: if_splits)
next
  case (Cons c s)
  then show ?case by (auto split: if_splits)
qed

end
