(* ===== verification/Palette.thy ===== *)
theory Palette
  imports JsText
begin

text \<open>
  \<open>Rickshaw.Fixtures.Color\<close> (the colour tables) and \<open>Rickshaw.Color.Palette\<close>, which hands out a
  colour per series name: an entry of its scheme first, colours interpolated between neighbours once
  the scheme is used up. \<open>d3.interpolateHsl\<close> is third-party code and is the argument
  \<open>interpolateHsl\<close> of the definitions.

  A scheme read by property key answers array-index keys; the inherited members of an array
  (\<open>length\<close>, \<open>push\<close>, ...) are not modelled, so a series named after one of them is outside the
  model.
\<close>

section \<open>Rickshaw.Fixtures.Color\<close>

definition spectrum14 :: "string list" where
  "spectrum14 = rev
    [''#ecb796'', ''#dc8f70'', ''#b2a470'', ''#92875a'', ''#716c49'', ''#d2ed82'',
     ''#bbe468'', ''#a1d05d'', ''#e7cbe6'', ''#d8aad6'', ''#a888c2'', ''#9dc2d3'',
     ''#649eb9'', ''#387aa3'']"

definition spectrum2000 :: "string list" where
  "spectrum2000 = 
    [''#57306f'', ''#514c76'', ''#646583'', ''#738394'', ''#6b9c7d'', ''#84b665'',
     ''#a7ca50'', ''#bfe746'', ''#e2f528'', ''#fff726'', ''#ecdd00'', ''#d4b11d'',
     ''#de8800'', ''#de4800'', ''#c91515'', ''#9a0000'', ''#7b0429'', ''#580839'',
     ''#31082b'']"

definition spectrum2001 :: "string list" where
  "spectrum2001 = 
    [''#2f243f'', ''#3c2c55'', ''#4a3768'', ''#565270'', ''#6b6b7c'', ''#72957f'',
     ''#86ad6e'', ''#a1bc5e'', ''#b8d954'', ''#d3e04e'', ''#ccad2a'', ''#cc8412'',
     ''#c1521d'', ''#ad3821'', ''#8a1010'', ''#681717'', ''#531e1e'', ''#3d1818'',
     ''#320a1b'']"

definition classic9 :: "string list" where
  "classic9 = rev
    [''#423d4f'', ''#4a6860'', ''#848f39'', ''#a2b73c'', ''#ddcb53'', ''#c5a32f'',
     ''#7d5836'', ''#963b20'', ''#7c2626'', ''#491d37'', ''#2f254a'']"

definition colorwheel :: "string list" where
  "colorwheel = rev
    [''#b5b6a9'', ''#858772'', ''#785f43'', ''#96557e'', ''#4682b4'', ''#65b9ac'',
     ''#73c03a'', ''#cb513a'']"

definition cool :: "string list" where
  "cool = 
    [''#5e9d2f'', ''#73c03a'', ''#4682b4'', ''#7bc3b8'', ''#a9884e'', ''#c1b266'',
     ''#a47493'', ''#c09fb5'']"

definition munin :: "string list" where
  "munin = 
    [''#00cc00'', ''#0066b3'', ''#ff8000'', ''#ffcc00'', ''#330099'', ''#990099'',
     ''#ccff00'', ''#ff0000'', ''#808080'', ''#008f00'', ''#00487d'', ''#b35a00'',
     ''#b38f00'', ''#6b006b'', ''#8fb300'', ''#b30000'', ''#bebebe'', ''#80ff80'',
     ''#80c9ff'', ''#ffc080'', ''#ffe680'', ''#aa80ff'', ''#ee00cc'', ''#ff8080'',
     ''#666600'', ''#ffbfff'', ''#00ffcc'', ''#cc6699'', ''#999900'']"

definition httpStatus :: "(string \<times> string) list" where
  "httpStatus =
    [(''503'', ''#ea5029''), (''502'', ''#d23f14''), (''500'', ''#bf3613''),
     (''410'', ''#efacea''), (''409'', ''#e291dc''), (''403'', ''#f457e8''),
     (''408'', ''#e121d2''), (''401'', ''#b92dae''), (''405'', ''#f47ceb''),
     (''404'', ''#a82a9f''), (''400'', ''#b263c6''), (''301'', ''#6fa024''),
     (''302'', ''#87c32b''), (''307'', ''#a0d84c''), (''304'', ''#28b55c''),
     (''200'', ''#1a4f74''), (''206'', ''#27839f''), (''201'', ''#52adc9''),
     (''202'', ''#7c979f''), (''203'', ''#a5b8bd''), (''204'', ''#c1cdd1'')]"

text \<open>
  A scheme is an array of colours (an entry may be \<open>undefined\<close>) or, for \<open>httpStatus\<close>, an object
  keyed by status code.
\<close>

datatype scheme = SArr "string option list" | SObj "(string \<times> string) list"

definition schemes :: "string \<Rightarrow> scheme option" where
  "schemes n =
     (if n = ''spectrum14'' then Some (SArr (map Some spectrum14))
      else if n = ''spectrum2000'' then Some (SArr (map Some spectrum2000))
      else if n = ''spectrum2001'' then Some (SArr (map Some spectrum2001))
      else if n = ''classic9'' then Some (SArr (map Some classic9))
      else if n = ''httpStatus'' then Some (SObj httpStatus)
      else if n = ''colorwheel'' then Some (SArr (map Some colorwheel))
      else if n = ''cool'' then Some (SArr (map Some cool))
      else if n = ''munin'' then Some (SArr (map Some munin))
      else None)"

section \<open>Rickshaw.Color.Palette\<close>

text \<open>The \<open>scheme\<close> argument: absent, the name of a table, or a scheme of the caller's.\<close>

datatype scheme_arg = NoScheme | Named string | Given scheme

record palette_args =
  pa_scheme :: scheme_arg
  pa_interpolatedStopCount :: nat

record palette =
  pl_scheme :: scheme
  runningIndex :: nat
  generatorIndex :: nat
  rotateCount :: nat

text \<open>\<open>color.schemes[args.scheme] || args.scheme || color.schemes.colorwheel\<close>\<close>

fun pick_scheme :: "scheme_arg \<Rightarrow> scheme option" where
  "pick_scheme NoScheme = Some (SArr (map Some colorwheel))"
| "pick_scheme (Given s) = Some s"
| "pick_scheme (Named n) =
     (case schemes n of Some s \<Rightarrow> Some s
      | None \<Rightarrow> if n = [] then Some (SArr (map Some colorwheel)) else None)"

text \<open>
  The stops between neighbouring colours. For every \<open>i\<close> below the last index the loop pushes
  \<open>scheme[i]\<close> and then the generator's colours at \<open>(1 / count) * j\<close>, \<open>1 \<le> j < count\<close>; the last
  colour is pushed after the loop. An object has no \<open>length\<close>, so its loop never runs and the one
  entry pushed is \<open>undefined\<close>.
\<close>

fun stops ::
  "(string option \<Rightarrow> string option \<Rightarrow> rat \<Rightarrow> string) \<Rightarrow> nat \<Rightarrow> string option list \<Rightarrow> string option list"
where
  "stops interpolateHsl n (a # b # cs) =
     a # map (\<lambda>j. Some (interpolateHsl a b (1 / of_nat n * of_nat j))) [1..<n]
       @ stops interpolateHsl n (b # cs)"
| "stops interpolateHsl n [a] = [a]"
| "stops interpolateHsl n [] = [None]"

definition interpolate_stops ::
  "(string option \<Rightarrow> string option \<Rightarrow> rat \<Rightarrow> string) \<Rightarrow> nat \<Rightarrow> scheme \<Rightarrow> scheme"
where
  "interpolate_stops interpolateHsl n s =
     (if n = 0 then s
      else SArr (case s of SArr cs \<Rightarrow> stops interpolateHsl n cs | SObj _ \<Rightarrow> [None]))"

fun scheme_length :: "scheme \<Rightarrow> nat" where
  "scheme_length (SArr cs) = length cs"
| "scheme_length (SObj _) = 0"

text \<open>
  The constructor; an unknown scheme name is kept as a string by the source and is outside the
  model (\<open>None\<close>). \<open>rotateCount\<close> is read for arrays only.
\<close>

definition new_palette ::
  "(string option \<Rightarrow> string option \<Rightarrow> rat \<Rightarrow> string) \<Rightarrow> palette_args \<Rightarrow> palette option"
where
  "new_palette interpolateHsl args =
     (case pick_scheme (pa_scheme args) of
        None \<Rightarrow> None
      | Some s \<Rightarrow>
          let s' = interpolate_stops interpolateHsl (pa_interpolatedStopCount args) s in
          Some \<lparr>pl_scheme = s', runningIndex = 0, generatorIndex = 0, rotateCount = scheme_length s'\<rparr>)"

fun scheme_key :: "scheme \<Rightarrow> string \<Rightarrow> string option" where
  "scheme_key (SArr cs) k =
     (case array_index k of None \<Rightarrow> None | Some i \<Rightarrow> if i < length cs then cs ! i else None)"
| "scheme_key (SObj ps) k = map_of ps k"

fun scheme_index :: "scheme \<Rightarrow> nat \<Rightarrow> string option" where
  "scheme_index (SArr cs) i = (if i < length cs then cs ! i else None)"
| "scheme_index (SObj ps) i = map_of ps (nat_str i)"

definition interpolateColor ::
  "(string option \<Rightarrow> string option \<Rightarrow> rat \<Rightarrow> string) \<Rightarrow> palette \<Rightarrow> string option \<times> palette"
where
  "interpolateColor interpolateHsl p =
     (case pl_scheme p of
        SObj _ \<Rightarrow> (None, p)
      | SArr cs \<Rightarrow>
          let g = generatorIndex p; rd = scheme_index (SArr cs) in
          if int g = int (rotateCount p) * 2 - 1 then
            let c = interpolateHsl (rd g) (rd 0) (1 / 2) in
            (Some c, p\<lparr>pl_scheme := SArr (cs @ [Some c]), generatorIndex := 0,
                       rotateCount := rotateCount p * 2\<rparr>)
          else
            let c = interpolateHsl (rd g) (rd (g + 1)) (1 / 2) in
            (Some c, p\<lparr>pl_scheme := SArr (cs @ [Some c]), generatorIndex := g + 1\<rparr>))"

text \<open>An absent or empty colour is false in a test.\<close>

fun truthy_str :: "string option \<Rightarrow> bool" where
  "truthy_str None = False"
| "truthy_str (Some s) = (s \<noteq> [])"

definition palette_color ::
  "(string option \<Rightarrow> string option \<Rightarrow> rat \<Rightarrow> string) \<Rightarrow> string \<Rightarrow> palette \<Rightarrow> string \<times> palette"
where
  "palette_color interpolateHsl key p =
     (let k = scheme_key (pl_scheme p) key in
      if truthy_str k then (the k, p)
      else
        let r = scheme_index (pl_scheme p) (runningIndex p);
            p1 = p\<lparr>runningIndex := runningIndex p + 1\<rparr> in
        if truthy_str r then (the r, p1)
        else
          let (c, p2) = interpolateColor interpolateHsl p1 in
          (or_str c ''#808080'', p2))"

section \<open>The scheme indices stay inside the scheme\<close>

text \<open>
  The generator walks the scheme in passes: a pass over a scheme of \<open>R\<close> colours appends \<open>2 R\<close> more.
\<close>

definition palette_inv :: "palette \<Rightarrow> bool" where
  "palette_inv p = (case pl_scheme p of
      SObj _ \<Rightarrow> True
    | SArr cs \<Rightarrow> 2 \<le> rotateCount p \<and> generatorIndex p < 2 * rotateCount p
               \<and> rotateCount p + generatorIndex p \<le> length cs)"

text \<open>The pair of scheme indices that \<open>interpolateColor\<close> reads.\<close>

definition generator_reads :: "palette \<Rightarrow> nat \<times> nat" where
  "generator_reads p =
     (generatorIndex p, if int (generatorIndex p) = int (rotateCount p) * 2 - 1 then 0 else generatorIndex p + 1)"

lemma generator_reads_in_scheme:
  "palette_inv p \<Longrightarrow> pl_scheme p = SArr cs \<Longrightarrow>
    fst (generator_reads p) < length cs \<and> snd (generator_reads p) < length cs"
  by (auto simp: palette_inv_def generator_reads_def)

lemma interpolateColor_inv: "palette_inv p \<Longrightarrow> palette_inv (snd (interpolateColor f p))"
  by (auto simp: palette_inv_def interpolateColor_def Let_def split: scheme.splits if_splits)

lemma palette_color_inv: "palette_inv p \<Longrightarrow> palette_inv (snd (palette_color f k p))"
proof -
  assume inv: "palette_inv p"
  let ?p1 = "p\<lparr>runningIndex := runningIndex p + 1\<rparr>"
  from inv have "palette_inv ?p1" by (simp add: palette_inv_def split: scheme.splits)
  with interpolateColor_inv [of ?p1 f] inv show ?thesis
    by (auto simp: palette_color_def Let_def split: prod.splits)
qed

section \<open>Colours handed out\<close>

fun colors_for ::
  "(string option \<Rightarrow> string option \<Rightarrow> rat \<Rightarrow> string) \<Rightarrow> string list \<Rightarrow> palette \<Rightarrow> string list \<times> palette"
where
  "colors_for f [] p = ([], p)"
| "colors_for f (k # ks) p =
     (let (c, p1) = palette_color f k p; (cs, p2) = colors_for f ks p1 in (c # cs, p2))"

lemma palette_color_running:
  assumes "pl_scheme p = SArr (map Some cs)" and "array_index k = None"
    and "runningIndex p < length cs" and "cs ! runningIndex p \<noteq> []"
  shows "palette_color f k p = (cs ! runningIndex p, p\<lparr>runningIndex := runningIndex p + 1\<rparr>)"
  using assms by (simp add: palette_color_def)

lemma colors_for_running:
  assumes "pl_scheme p = SArr (map Some cs)" and "\<forall>k \<in> set ks. array_index k = None"
    and "runningIndex p + length ks \<le> length cs" and "\<forall>c \<in> set cs. c \<noteq> []"
  shows "fst (colors_for f ks p) = take (length ks) (drop (runningIndex p) cs)"
  using assms
proof (induction ks arbitrary: p)
  case Nil
  then show ?case by simp
next
  case (Cons k ks)
  let ?p1 = "p\<lparr>runningIndex := runningIndex p + 1\<rparr>"
  have step: "palette_color f k p = (cs ! runningIndex p, ?p1)"
    using Cons.prems by (intro palette_color_running) auto
  have "fst (colors_for f ks ?p1) = take (length ks) (drop (runningIndex ?p1) cs)"
    by (rule Cons.IH) (use Cons.prems in auto)
  moreover have "drop (runningIndex p) cs = cs ! runningIndex p # drop (runningIndex p + 1) cs"
    using Cons.prems(3) by (simp add: Cons_nth_drop_Suc)
  ultimately show ?case
    by (simp add: step case_prod_beta)
qed

lemma length_stops: "cs \<noteq> [] \<Longrightarrow> 0 < n \<Longrightarrow> length (stops f n cs) = (length cs - 1) * n + 1"
  by (induction f n cs rule: stops.induct) auto

lemma stops_at_multiple:
  "0 < n \<Longrightarrow> i < length cs \<Longrightarrow> stops f n cs ! (i * n) = cs ! i"
proof (induction f n cs arbitrary: i rule: stops.induct)
  case (1 f n a b cs)
  show ?case
  proof (cases i)
    case 0
    then show ?thesis by simp
  next
    case (Suc k)
    have "stops f n (b # cs) ! (k * n) = (b # cs) ! k"
      using 1 Suc by simp
    moreover have "\<not> n + k * n - Suc 0 < n - Suc 0" by arith
    then have "stops f n (a # b # cs) ! (i * n) = stops f n (b # cs) ! (k * n)"
      using Suc 1(2) by (simp add: nth_Cons' nth_append)
    ultimately show ?thesis using Suc by simp
  qed
qed auto

lemma colors_for_inv: "palette_inv p \<Longrightarrow> palette_inv (snd (colors_for f ks p))"
proof (induction ks arbitrary: p)
  case Nil
  then show ?case by simp
next
  case (Cons k ks)
  then show ?case
    using Cons.IH [OF palette_color_inv [OF Cons.prems, of f k]] by (simp add: case_prod_beta)
qed

lemma palette_color_array:
  "pl_scheme p = SArr cs \<Longrightarrow> \<exists>ds. pl_scheme (snd (palette_color f k p)) = SArr (cs @ ds)"
  by (auto simp: palette_color_def interpolateColor_def Let_def)

lemma colors_for_array:
  "pl_scheme p = SArr cs \<Longrightarrow> \<exists>ds. pl_scheme (snd (colors_for f ks p)) = SArr (cs @ ds)"
proof (induction ks arbitrary: p cs)
  case Nil
  then show ?case by simp
next
  case (Cons k ks)
  obtain ds where ds: "pl_scheme (snd (palette_color f k p)) = SArr (cs @ ds)"
    using palette_color_array [OF Cons.prems] by blast
  from Cons.IH [OF ds] show ?case by (auto simp: case_prod_beta)
qed

lemma interpolateColor_reads:
  assumes "palette_inv p" and "pl_scheme p = SArr cs"
  shows "fst (interpolateColor f p) =
    Some (f (cs ! fst (generator_reads p)) (cs ! snd (generator_reads p)) (1 / 2))"
  using generator_reads_in_scheme [OF assms] assms(2)
  by (auto simp: interpolateColor_def generator_reads_def Let_def)

lemma new_palette_inv:
  assumes "new_palette f args = Some p" and "pl_scheme p = SArr cs" and "2 \<le> length cs"
  shows "palette_inv p"
  using assms by (auto simp: new_palette_def palette_inv_def Let_def split: option.splits)

section \<open>Properties\<close>

text \<open>
  However many series names have been coloured by a palette whose scheme has at least two
  colours, the next interpolated colour is computed from two existing entries of the scheme: the
  rotating generator never reads past the array.
\<close>

theorem palette_interpolates_existing_colors:
  assumes "new_palette f args = Some p" and "pl_scheme p = SArr cs" and "2 \<le> length cs"
  shows "\<exists>ds i j. pl_scheme (snd (colors_for f ks p)) = SArr (cs @ ds)
    \<and> i < length (cs @ ds) \<and> j < length (cs @ ds)
    \<and> fst (interpolateColor f (snd (colors_for f ks p))) =
        Some (f ((cs @ ds) ! i) ((cs @ ds) ! j) (1 / 2))"
proof -
  let ?q = "snd (colors_for f ks p)"
  obtain ds where ds: "pl_scheme ?q = SArr (cs @ ds)"
    using colors_for_array [OF assms(2)] by blast
  have inv: "palette_inv ?q"
    by (rule colors_for_inv [OF new_palette_inv [OF assms]])
  from generator_reads_in_scheme [OF inv ds] interpolateColor_reads [OF inv ds] ds
  show ?thesis by blast
qed

definition blend_text :: "string option \<Rightarrow> string option \<Rightarrow> rat \<Rightarrow> string" where
  "blend_text a b t = or_str a [] @ CHR ''~'' # or_str b []"

definition wheel_palette :: palette where
  "wheel_palette = \<lparr>pl_scheme = SArr (map Some colorwheel), runningIndex = 0, generatorIndex = 0,
     rotateCount = 8\<rparr>"

lemma new_palette_default:
  "new_palette f \<lparr>pa_scheme = NoScheme, pa_interpolatedStopCount = 0\<rparr> = Some wheel_palette"
  by (simp add: new_palette_def interpolate_stops_def wheel_palette_def colorwheel_def)

theorem palette_interpolates_existing_colors_witness:
  "\<exists>ds i j. pl_scheme (snd (colors_for blend_text [''a'', ''b''] wheel_palette)) =
       SArr (map Some colorwheel @ ds)
    \<and> i < length (map Some colorwheel @ ds) \<and> j < length (map Some colorwheel @ ds)
    \<and> fst (interpolateColor blend_text (snd (colors_for blend_text [''a'', ''b''] wheel_palette))) =
        Some (blend_text ((map Some colorwheel @ ds) ! i) ((map Some colorwheel @ ds) ! j) (1 / 2))"
  by (rule palette_interpolates_existing_colors [OF new_palette_default])
    (simp_all add: wheel_palette_def colorwheel_def)

text \<open>
  A palette over an array of non-empty colours gives the series names asked for (none of them
  an array index) the colours of the scheme from the first on, in order and without repetition of an
  entry, until the scheme is used up.
\<close>

theorem palette_hands_out_scheme_in_order:
  assumes "new_palette f args = Some p" and "pl_scheme p = SArr (map Some cs)"
    and "\<forall>c \<in> set cs. c \<noteq> []" and "\<forall>k \<in> set ks. array_index k = None"
    and "length ks \<le> length cs"
  shows "fst (colors_for f ks p) = take (length ks) cs"
proof -
  have "runningIndex p = 0"
    using assms(1) by (auto simp: new_palette_def Let_def split: option.splits)
  with colors_for_running [OF assms(2,4) _ assms(3), of f] assms(5) show ?thesis by simp
qed

theorem palette_hands_out_scheme_in_order_witness:
  "fst (colors_for blend_text [''Delta'', ''Jitter''] wheel_palette) = take 2 colorwheel"
  using palette_hands_out_scheme_in_order
    [OF new_palette_default, of colorwheel "[''Delta'', ''Jitter'']" blend_text]
  by (simp add: wheel_palette_def colorwheel_def array_index_def radix_val_def digit_val_def
        nat_str_def radix_str.simps digit_def)

text \<open>
  \<open>interpolatedStopCount = n\<close> spreads the colours of an array scheme \<open>n\<close> entries apart, each
  original colour kept at a multiple of \<open>n\<close>, and fills \<open>n - 1\<close> interpolated stops in between.
\<close>

theorem palette_stops_keep_originals:
  assumes "pick_scheme (pa_scheme args) = Some (SArr cs)" and "cs \<noteq> []"
    and "0 < pa_interpolatedStopCount args"
  shows "\<exists>p ds. new_palette f args = Some p \<and> pl_scheme p = SArr ds
    \<and> rotateCount p = length ds
    \<and> length ds = (length cs - 1) * pa_interpolatedStopCount args + 1
    \<and> (\<forall>i < length cs. ds ! (i * pa_interpolatedStopCount args) = cs ! i)"
  using assms
  by (auto simp: new_palette_def interpolate_stops_def Let_def length_stops stops_at_multiple)

theorem palette_stops_keep_originals_witness:
  "\<exists>p ds. new_palette blend_text \<lparr>pa_scheme = Named ''cool'', pa_interpolatedStopCount = 3\<rparr> = Some p
    \<and> pl_scheme p = SArr ds \<and> rotateCount p = length ds \<and> length ds = 22
    \<and> (\<forall>i < length cool. ds ! (i * 3) = Some (cool ! i))"
proof -
  have "length cool = 8" by (simp add: cool_def)
  then show ?thesis
    using palette_stops_keep_originals
      [of "\<lparr>pa_scheme = Named ''cool'', pa_interpolatedStopCount = 3\<rparr>" "map Some cool" blend_text]
    by (simp add: schemes_def) fastforce
qed

end
