(* ===== verification/SeriesData.thy ===== *)
theory SeriesData
  imports Palette
begin

text \<open>
  \<open>Rickshaw.Series\<close> and \<open>Rickshaw.Series.FixedDuration\<close>: the named rows of points behind a graph,
  the operation that appends one sample to every row, and the sliding window of the fixed-duration
  variant (the one the web application plots its statistics with).

  A row object is modelled by value. \<open>FixedDuration\<close> inherits \<open>addItem\<close> and \<open>addData\<close> and overrides
  \<open>getIndex\<close>, which both call; the inherited operations therefore take \<open>getIndex\<close> as an argument.
  An \<open>undefined\<close> or \<open>null\<close> field is \<open>None\<close>. The sample object of \<open>addData\<close> is the list of its keys and
  values in enumeration order; its values are numbers.
\<close>

named_theorems series_simps \<open>the operations of the series component\<close>

section \<open>Data\<close>

record point =
  px :: jsnum
  py :: "jsnum option"
  py0 :: "jsnum option"
  pidx :: "int option"

abbreviation pt :: "jsnum \<Rightarrow> jsnum \<Rightarrow> point" where
  "pt x y \<equiv> \<lparr>px = x, py = Some y, py0 = None, pidx = None\<rparr>"

record series_item =
  si_name :: string
  si_color :: string
  si_data :: "point list"

text \<open>What a caller passes to \<open>addItem\<close>: any field may be missing.\<close>

record item_args =
  ia_name :: "string option"
  ia_color :: "string option"
  ia_data :: "point list option"

type_synonym hsl = "string option \<Rightarrow> string option \<Rightarrow> rat \<Rightarrow> string"

type_synonym sample = "(string \<times> jsnum) list"

text \<open>The legend, when there is one, is the list of the names of its lines.\<close>

record series =
  items :: "series_item list"
  sr_palette :: palette
  timeBase :: jsnum
  timeInterval :: jsnum
  sr_legend :: "string list option"

record series_options =
  so_timeBase :: "jsnum option"
  so_timeInterval :: "jsnum option"
  so_maxDataPoints :: "int option"

section \<open>Rickshaw.Series\<close>

definition itemByName :: "string \<Rightarrow> 'a series_scheme \<Rightarrow> series_item option" where
  "itemByName name s = find (\<lambda>it. si_name it = name) (items s)"

definition getIndex :: "'a series_scheme \<Rightarrow> int" where
  "getIndex s = (case items s of [] \<Rightarrow> 0 | it # _ \<Rightarrow> int (length (si_data it)))"

definition setTimeInterval :: "jsnum \<Rightarrow> 'a series_scheme \<Rightarrow> 'a series_scheme" where
  "setTimeInterval iv s = s\<lparr>timeInterval := iv / Fin 1000\<rparr>"

definition setTimeBase :: "jsnum \<Rightarrow> 'a series_scheme \<Rightarrow> 'a series_scheme" where
  "setTimeBase t s = s\<lparr>timeBase := t\<rparr>"

text \<open>The data of a new row: its own, a zero row on the grid of the first row, or one zero point.\<close>

definition initial_data :: "int \<Rightarrow> point list \<Rightarrow> 'a series_scheme \<Rightarrow> point list" where
  "initial_data index d s =
     (if d = [] \<and> items s \<noteq> [] \<and> 0 < index
      then map (\<lambda>plot. pt (px plot) (Fin 0)) (si_data (hd (items s)))
      else if d = [] then [pt (timeBase s - or_num (timeInterval s) (Fin 0)) (Fin 0)]
      else d)"

text \<open>\<open>legend.addLine(this.itemByName(name))\<close>\<close>

definition legend_addLine :: "string \<Rightarrow> 'a series_scheme \<Rightarrow> 'a series_scheme" where
  "legend_addLine name s =
     (case sr_legend s of
        None \<Rightarrow> s
      | Some ls \<Rightarrow>
          (case itemByName name s of
             None \<Rightarrow> s
           | Some it \<Rightarrow> s\<lparr>sr_legend := Some (ls @ [si_name it])\<rparr>))"

definition addItem ::
  "('a series_scheme \<Rightarrow> int) \<Rightarrow> hsl \<Rightarrow> item_args \<Rightarrow> 'a series_scheme \<Rightarrow> 'a series_scheme js"
where
  "addItem gi f item s =
     (case ia_name item of
        None \<Rightarrow> Inl (Thrown ''addItem() needs a name'')
      | Some name \<Rightarrow>
          let (c, pal) = (if truthy_str (ia_color item) then (the (ia_color item), sr_palette s)
                          else palette_color f name (sr_palette s));
              s1 = s\<lparr>sr_palette := pal\<rparr>;
              d = initial_data (gi s1) (case ia_data item of None \<Rightarrow> [] | Some d \<Rightarrow> d) s1;
              s2 = s1\<lparr>items := items s1 @ [\<lparr>si_name = name, si_color = c, si_data = d\<rparr>]\<rparr>
          in Inr (legend_addLine name s2))"

definition sample_y :: "sample \<Rightarrow> string \<Rightarrow> jsnum" where
  "sample_y data name = (case map_of data name of None \<Rightarrow> Fin 0 | Some v \<Rightarrow> or_num v (Fin 0))"

text \<open>\<open>x || (index * this.timeInterval || 1) + this.timeBase\<close>\<close>

definition sample_x :: "jsnum option \<Rightarrow> int \<Rightarrow> 'a series_scheme \<Rightarrow> jsnum" where
  "sample_x x index s = or_opt x (or_num (Fin (of_int index) * timeInterval s) (Fin 1) + timeBase s)"

definition ensure_item ::
  "('a series_scheme \<Rightarrow> int) \<Rightarrow> hsl \<Rightarrow> string \<Rightarrow> 'a series_scheme \<Rightarrow> 'a series_scheme js"
where
  "ensure_item gi f name s =
     (if itemByName name s = None
      then addItem gi f \<lparr>ia_name = Some name, ia_color = None, ia_data = None\<rparr> s
      else Inr s)"

definition push_sample :: "sample \<Rightarrow> jsnum \<Rightarrow> 'a series_scheme \<Rightarrow> 'a series_scheme" where
  "push_sample data x s =
     s\<lparr>items := map (\<lambda>it. it\<lparr>si_data := si_data it @ [pt x (sample_y data (si_name it))]\<rparr>) (items s)\<rparr>"

definition addData ::
  "('a series_scheme \<Rightarrow> int) \<Rightarrow> hsl \<Rightarrow> sample \<Rightarrow> jsnum option \<Rightarrow> 'a series_scheme \<Rightarrow> 'a series_scheme js"
where
  "addData gi f data x s =
     (let index = gi s in
      js_bind (for_each (ensure_item gi f) (map fst data) s)
        (\<lambda>s1. Inr (push_sample data (sample_x x index s1) s1)))"

text \<open>The constructor; \<open>now\<close> is \<open>new Date().getTime()\<close>.\<close>

definition new_series ::
  "hsl \<Rightarrow> jsnum \<Rightarrow> item_args list option \<Rightarrow> palette \<Rightarrow> series_options \<Rightarrow> series js"
where
  "new_series f now data pal opts =
     (let tb = (case so_timeBase opts of None \<Rightarrow> js_floor (now / Fin 1000) | Some t \<Rightarrow> t);
          ti = (case so_timeInterval opts of None \<Rightarrow> Fin 1000 | Some t \<Rightarrow> t);
          s0 = setTimeInterval ti
            \<lparr>items = [], sr_palette = pal, timeBase = tb, timeInterval = Fin 0, sr_legend = None\<rparr>
      in for_each (addItem getIndex f) (case data of None \<Rightarrow> [] | Some ds \<Rightarrow> ds) s0)"

subsection \<open>Saving and restoring\<close>

record series_dump =
  du_timeBase :: jsnum
  du_timeInterval :: jsnum
  du_items :: "series_item list"

definition dump :: "'a series_scheme \<Rightarrow> series_dump" where
  "dump s = \<lparr>du_timeBase = timeBase s, du_timeInterval = timeInterval s,
     du_items = map (\<lambda>it. it\<lparr>si_data := map (\<lambda>plot. plot\<lparr>py0 := None, pidx := None\<rparr>) (si_data it)\<rparr>)
                  (items s)\<rparr>"

fun load_items :: "series_item list \<Rightarrow> 'a series_scheme \<Rightarrow> 'a series_scheme" where
  "load_items [] s = s"
| "load_items (it # its) s =
     load_items its (legend_addLine (si_name it) (s\<lparr>items := items s @ [it]\<rparr>))"

definition load :: "series_dump \<Rightarrow> 'a series_scheme \<Rightarrow> 'a series_scheme" where
  "load data s =
     (let s1 = (if truthy_num (du_timeInterval data) then s\<lparr>timeInterval := du_timeInterval data\<rparr> else s);
          s2 = (if truthy_num (du_timeBase data) then s1\<lparr>timeBase := du_timeBase data\<rparr> else s1)
      in load_items (du_items data) s2)"

section \<open>Rickshaw.Series.FixedDuration\<close>

record fixed = series +
  currentSize :: int
  currentIndex :: int
  maxDataPoints :: int

definition fixed_getIndex :: "fixed \<Rightarrow> int" where
  "fixed_getIndex s = currentIndex s"

definition dropData :: "fixed \<Rightarrow> fixed" where
  "dropData s = s\<lparr>items := map (\<lambda>it. it\<lparr>si_data := drop 1 (si_data it)\<rparr>) (items s),
                   currentSize := currentSize s - 1\<rparr>"

function drop_excess :: "fixed \<Rightarrow> fixed" where
  "drop_excess s = (if maxDataPoints s < currentSize s then drop_excess (dropData s) else s)"
  by pat_completeness auto
termination
  by (relation "measure (\<lambda>s. nat (currentSize s - maxDataPoints s))") (auto simp: dropData_def)

declare drop_excess.simps [simp del]

definition fixed_addData ::
  "hsl \<Rightarrow> sample \<Rightarrow> jsnum option \<Rightarrow> fixed \<Rightarrow> fixed js"
where
  "fixed_addData f data x s =
     js_bind (addData fixed_getIndex f data x s)
       (\<lambda>s1. Inr (drop_excess (s1\<lparr>currentSize := currentSize s1 + 1, currentIndex := currentIndex s1 + 1\<rparr>)))"

text \<open>One round of the zero fill, for the loop variable \<open>i\<close>.\<close>

definition zero_fill_step :: "int \<Rightarrow> fixed \<Rightarrow> fixed" where
  "zero_fill_step i s =
     s\<lparr>currentSize := currentSize s + 1, currentIndex := currentIndex s + 1,
       items := map (\<lambda>it. it\<lparr>si_data :=
         \<lparr>px = or_num (Fin (of_int (i - 1)) * timeInterval s) (Fin 1) + timeBase s,
          py = Some (Fin 0), py0 = None, pidx = Some i\<rparr> # si_data it\<rparr>) (items s)\<rparr>"

text \<open>\<open>for (var i = maxDataPoints - currentSize - 1; i > 1; i--)\<close>\<close>

definition zero_fill :: "fixed \<Rightarrow> fixed" where
  "zero_fill s =
     (if currentSize s < maxDataPoints s
      then fold zero_fill_step (rev [2..maxDataPoints s - currentSize s - 1]) s
      else s)"

definition new_fixed ::
  "hsl \<Rightarrow> jsnum \<Rightarrow> item_args list option \<Rightarrow> palette \<Rightarrow> series_options \<Rightarrow> fixed js"
where
  "new_fixed f now data pal opts =
     (case so_timeInterval opts of
        None \<Rightarrow> Inl (Thrown ''FixedDuration series requires timeInterval'')
      | Some ti \<Rightarrow>
     (case so_maxDataPoints opts of
        None \<Rightarrow> Inl (Thrown ''FixedDuration series requires maxDataPoints'')
      | Some m \<Rightarrow>
          let tb = (case so_timeBase opts of None \<Rightarrow> js_floor (now / Fin 1000) | Some t \<Rightarrow> t);
              s0 = setTimeInterval ti
                \<lparr>items = [], sr_palette = pal, timeBase = tb, timeInterval = Fin 0, sr_legend = None,
                 currentSize = 0, currentIndex = 0, maxDataPoints = m\<rparr>
          in js_bind
               (case data of
                  None \<Rightarrow> Inr s0
                | Some ds \<Rightarrow>
                    js_bind (for_each (addItem fixed_getIndex f) ds s0)
                      (\<lambda>s1. Inr (s1\<lparr>currentSize := currentSize s1 + 1, currentIndex := currentIndex s1 + 1\<rparr>)))
               (\<lambda>s2. Inr (zero_fill
                  (s2\<lparr>timeBase := timeBase s2 - Fin (of_int (maxDataPoints s2 - currentSize s2)) * timeInterval s2\<rparr>)))))"

section \<open>The common grid of the rows\<close>

definition aligned :: "'a series_scheme \<Rightarrow> jsnum list \<Rightarrow> bool" where
  "aligned s xs = (\<forall>it \<in> set (items s). map px (si_data it) = xs)"

abbreviation names :: "'a series_scheme \<Rightarrow> string list" where
  "names s \<equiv> map si_name (items s)"

abbreviation zero_row :: "jsnum list \<Rightarrow> point list" where
  "zero_row xs \<equiv> map (\<lambda>x. pt x (Fin 0)) xs"

lemma map_px_zero_row [simp]: "map (px \<circ> (\<lambda>x. pt x y)) xs = xs"
  by (simp add: comp_def)

lemma itemByName_None_iff: "itemByName name s = None \<longleftrightarrow> name \<notin> set (names s)"
  by (auto simp: itemByName_def find_None_iff)

lemma initial_data_backfill:
  assumes "items s \<noteq> []" and "0 < index" and "aligned s xs"
  shows "initial_data index [] s = zero_row xs"
proof -
  have "hd (items s) \<in> set (items s)" using assms(1) by simp
  with assms(3) have "xs = map px (si_data (hd (items s)))" by (simp add: aligned_def)
  with assms(1,2) show ?thesis by (simp add: initial_data_def)
qed

lemma legend_addLine_frame: "\<exists>l. legend_addLine name s = s\<lparr>sr_legend := l\<rparr>"
proof (cases "sr_legend s = None \<or> itemByName name s = None")
  case True
  then have "legend_addLine name s = s\<lparr>sr_legend := sr_legend s\<rparr>"
    by (auto simp: legend_addLine_def split: option.splits)
  then show ?thesis by blast
next
  case False
  then show ?thesis by (auto simp: legend_addLine_def)
qed

text \<open>
  What \<open>addItem\<close> and \<open>addData\<close> need of the \<open>getIndex\<close> they are used with: on the states \<open>ok\<close> it is
  positive as soon as there is a row, and adding a row keeps a state \<open>ok\<close>.
\<close>

locale series_index =
  fixes gi :: "'a series_scheme \<Rightarrow> int" and ok :: "'a series_scheme \<Rightarrow> bool"
  assumes index_pos: "ok s \<Longrightarrow> items s \<noteq> [] \<Longrightarrow> 0 < gi s"
    and ok_palette: "ok s \<Longrightarrow> ok (s\<lparr>sr_palette := p\<rparr>)"
    and ok_legend: "ok s \<Longrightarrow> ok (s\<lparr>sr_legend := l\<rparr>)"
    and ok_push: "ok s \<Longrightarrow> items s \<noteq> [] \<Longrightarrow> ok (s\<lparr>items := items s @ [it]\<rparr>)"
begin

lemma addItem_backfills:
  assumes "ok s" and "items s \<noteq> []" and "aligned s xs"
  shows "\<exists>c p l. addItem gi f \<lparr>ia_name = Some name, ia_color = None, ia_data = None\<rparr> s =
    Inr (s\<lparr>items := items s @ [\<lparr>si_name = name, si_color = c, si_data = zero_row xs\<rparr>],
          sr_palette := p, sr_legend := l\<rparr>)"
proof -
  obtain c p where cp: "palette_color f name (sr_palette s) = (c, p)" by fastforce
  let ?s1 = "s\<lparr>sr_palette := p\<rparr>"
  let ?s2 = "?s1\<lparr>items := items s @ [\<lparr>si_name = name, si_color = c, si_data = zero_row xs\<rparr>]\<rparr>"
  have "0 < gi ?s1" using index_pos [OF ok_palette [OF assms(1)]] assms(2) by simp
  then have "initial_data (gi ?s1) [] ?s1 = zero_row xs"
    using assms by (intro initial_data_backfill) (auto simp: aligned_def)
  moreover obtain l where "legend_addLine name ?s2 = ?s2\<lparr>sr_legend := l\<rparr>"
    using legend_addLine_frame by blast
  ultimately have "addItem gi f \<lparr>ia_name = Some name, ia_color = None, ia_data = None\<rparr> s =
    Inr (?s2\<lparr>sr_legend := l\<rparr>)"
    by (simp add: addItem_def cp)
  then show ?thesis
    by (intro exI [of _ c] exI [of _ p] exI [of _ l]) simp
qed

lemma ensure_items:
  assumes "ok s" and "items s \<noteq> []" and "aligned s xs" and "distinct ks"
  shows "\<exists>news p l. for_each (ensure_item gi f) ks s =
      Inr (s\<lparr>items := items s @ news, sr_palette := p, sr_legend := l\<rparr>)
    \<and> map si_name news = filter (\<lambda>k. k \<notin> set (names s)) ks
    \<and> (\<forall>it \<in> set news. si_data it = zero_row xs)"
  using assms
proof (induction ks arbitrary: s)
  case Nil
  show ?case
    by (intro exI [of _ "[]"] exI [of _ "sr_palette s"] exI [of _ "sr_legend s"]) simp
next
  case (Cons k ks)
  show ?case
  proof (cases "k \<in> set (names s)")
    case True
    then have "ensure_item gi f k s = Inr s"
      using itemByName_None_iff [of k s] by (auto simp: ensure_item_def)
    with Cons.IH [OF Cons.prems(1-3)] Cons.prems(4) True show ?thesis by simp
  next
    case False
    from addItem_backfills [OF Cons.prems(1-3)] obtain c p l where
      add: "addItem gi f \<lparr>ia_name = Some k, ia_color = None, ia_data = None\<rparr> s =
        Inr (s\<lparr>items := items s @ [\<lparr>si_name = k, si_color = c, si_data = zero_row xs\<rparr>],
              sr_palette := p, sr_legend := l\<rparr>)" (is "_ = Inr ?t")
      by blast
    let ?it = "\<lparr>si_name = k, si_color = c, si_data = zero_row xs\<rparr>"
    have "ok ?t" by (rule ok_legend [OF ok_palette [OF ok_push [OF Cons.prems(1,2)]]])
    moreover have "aligned ?t xs" "items ?t \<noteq> []" "distinct ks"
      using Cons.prems by (auto simp: aligned_def)
    ultimately obtain news p' l' where IH:
      "for_each (ensure_item gi f) ks ?t =
         Inr (?t\<lparr>items := items ?t @ news, sr_palette := p', sr_legend := l'\<rparr>)"
      "map si_name news = filter (\<lambda>k. k \<notin> set (names ?t)) ks"
      "\<forall>it \<in> set news. si_data it = zero_row xs"
      using Cons.IH by blast
    have "filter (\<lambda>k'. k' \<notin> set (names ?t)) ks = filter (\<lambda>k'. k' \<notin> set (names s)) ks"
      using Cons.prems(4) by (auto intro: filter_cong)
    moreover have "ensure_item gi f k s = Inr ?t"
      using False add by (simp add: ensure_item_def itemByName_None_iff)
    ultimately show ?thesis
      using IH False by (intro exI [of _ "?it # news"] exI [of _ p'] exI [of _ l']) auto
  qed
qed

text \<open>\<open>addData\<close> as one state update: new zero rows, then one sample on every row.\<close>

lemma addData_update:
  assumes "ok s" and "items s \<noteq> []" and "aligned s xs" and "distinct (map fst data)"
  shows "\<exists>news p l. addData gi f data x s =
      Inr (s\<lparr>items := map (\<lambda>it. it\<lparr>si_data := si_data it @
                 [pt (sample_x x (gi s) s) (sample_y data (si_name it))]\<rparr>) (items s @ news),
            sr_palette := p, sr_legend := l\<rparr>)
    \<and> map si_name news = filter (\<lambda>k. k \<notin> set (names s)) (map fst data)
    \<and> (\<forall>it \<in> set news. si_data it = zero_row xs)"
proof -
  obtain news p l where e: "for_each (ensure_item gi f) (map fst data) s =
      Inr (s\<lparr>items := items s @ news, sr_palette := p, sr_legend := l\<rparr>)" (is "_ = Inr ?t")
    and n: "map si_name news = filter (\<lambda>k. k \<notin> set (names s)) (map fst data)"
      "\<forall>it \<in> set news. si_data it = zero_row xs"
    using ensure_items [OF assms(1-4)] by blast
  have "sample_x x (gi s) ?t = sample_x x (gi s) s" by (simp add: sample_x_def)
  then have "addData gi f data x s = Inr (push_sample data (sample_x x (gi s) s) ?t)"
    by (simp add: addData_def e)
  with n show ?thesis
    by (intro exI [of _ news] exI [of _ p] exI [of _ l]) (simp add: push_sample_def)
qed

end

interpretation plain: series_index "getIndex :: series \<Rightarrow> int"
  "\<lambda>s. items s \<noteq> [] \<and> si_data (hd (items s)) \<noteq> []"
  by unfold_locales (auto simp: getIndex_def split: list.splits)

interpretation sliding: series_index fixed_getIndex "\<lambda>s. 0 < currentIndex s"
  by unfold_locales (auto simp: fixed_getIndex_def)

end
