(* ===== verification/SeriesWindow.thy ===== *)
theory SeriesWindow
  imports SeriesData
begin

text \<open>
  What the series operations guarantee: one common grid of x values for all rows, the sliding window
  of the fixed-duration series, and the exact grid it produces from construction on.
\<close>

section \<open>The sliding window\<close>

lemma drop_excess_eq:
  "drop_excess s =
     (let k = nat (currentSize s - maxDataPoints s) in
      s\<lparr>items := map (\<lambda>it. it\<lparr>si_data := drop k (si_data it)\<rparr>) (items s),
        currentSize := currentSize s - int k\<rparr>)"
proof (induction s rule: drop_excess.induct)
  case (1 s)
  show ?case
  proof (cases "maxDataPoints s < currentSize s")
    case True
    let ?k = "nat (currentSize s - maxDataPoints s)"
    have k: "?k = Suc (nat (currentSize s - 1 - maxDataPoints s))" using True by simp
    have "drop_excess s = drop_excess (dropData s)"
      using True by (simp add: drop_excess.simps [of s])
    also have "\<dots> = s\<lparr>items := map (\<lambda>it. it\<lparr>si_data := drop ?k (si_data it)\<rparr>) (items s),
        currentSize := currentSize s - int ?k\<rparr>"
      using 1 [OF True] by (simp add: Let_def dropData_def k comp_def)
    finally show ?thesis by (simp add: Let_def)
  next
    case False
    then show ?thesis by (simp add: drop_excess.simps [of s] Let_def)
  qed
qed

definition fixed_inv :: "fixed \<Rightarrow> jsnum list \<Rightarrow> bool" where
  "fixed_inv s xs = (items s \<noteq> [] \<and> aligned s xs \<and> 0 < currentIndex s
     \<and> currentSize s = int (length xs) \<and> currentSize s \<le> maxDataPoints s)"

text \<open>The last \<open>m\<close> elements of a list.\<close>

definition last_n :: "int \<Rightarrow> 'a list \<Rightarrow> 'a list" where
  "last_n m xs = drop (length xs - nat m) xs"

lemma last_n_append: "last_n m (last_n m xs @ ys) = last_n m (xs @ ys)"
  by (cases "nat m \<le> length xs") (auto simp: last_n_def drop_append add.commute)

lemma length_last_n: "length (last_n m xs) = min (nat m) (length xs)"
  by (simp add: last_n_def)

lemma last_n_short [simp]: "int (length xs) \<le> m \<Longrightarrow> last_n m xs = xs"
  by (simp add: last_n_def)

text \<open>\<open>addData\<close> of the fixed-duration series as one state update.\<close>

lemma fixed_addData_update:
  fixes x :: "jsnum option"
  assumes inv: "fixed_inv s xs" and d: "distinct (map fst data)"
  defines "nx \<equiv> sample_x x (currentIndex s) s"
  shows "\<exists>news p l. fixed_addData f data x s = Inr
      (s\<lparr>items := map (\<lambda>it. it\<lparr>si_data := last_n (maxDataPoints s)
                (si_data it @ [pt nx (sample_y data (si_name it))])\<rparr>) (items s @ news),
         sr_palette := p, sr_legend := l,
         currentSize := min (currentSize s + 1) (maxDataPoints s),
         currentIndex := currentIndex s + 1\<rparr>)
    \<and> map si_name news = filter (\<lambda>k. k \<notin> set (names s)) (map fst data)
    \<and> (\<forall>it \<in> set news. si_data it = zero_row xs)"
proof -
  have inv': "items s \<noteq> []" "aligned s xs" "0 < currentIndex s"
      "currentSize s = int (length xs)" "currentSize s \<le> maxDataPoints s"
    using inv by (auto simp: fixed_inv_def)
  have gi: "fixed_getIndex s = currentIndex s" by (simp add: fixed_getIndex_def)
  obtain news p l where add: "addData fixed_getIndex f data x s =
      Inr (s\<lparr>items := map (\<lambda>it. it\<lparr>si_data := si_data it @ [pt nx (sample_y data (si_name it))]\<rparr>)
              (items s @ news), sr_palette := p, sr_legend := l\<rparr>)" (is "_ = Inr ?t")
    and news: "map si_name news = filter (\<lambda>k. k \<notin> set (names s)) (map fst data)"
      "\<forall>it \<in> set news. si_data it = zero_row xs"
    using sliding.addData_update [OF inv'(3,1,2) d, of f x] unfolding gi nx_def [symmetric] by blast
  let ?u = "?t\<lparr>currentSize := currentSize ?t + 1, currentIndex := currentIndex ?t + 1\<rparr>"
  let ?k = "nat (currentSize s + 1 - maxDataPoints s)"
  have len: "length (si_data it) = length xs" if "it \<in> set (items s @ news)" for it
  proof (cases "it \<in> set (items s)")
    case True
    with inv'(2) have "map px (si_data it) = xs" by (simp add: aligned_def)
    then show ?thesis by (metis length_map)
  next
    case False
    with that news(2) show ?thesis by simp
  qed
  have "last_n (maxDataPoints s) (si_data it @ [q]) = drop ?k (si_data it @ [q])"
    if "it \<in> set (items s @ news)" for it q
  proof -
    have "Suc (length xs) - nat (maxDataPoints s) = ?k" using inv'(4,5) by linarith
    with len [OF that] show ?thesis by (simp add: last_n_def)
  qed
  then have rows: "map (\<lambda>it. it\<lparr>si_data := drop ?k (si_data it)\<rparr>) (items ?t) =
    map (\<lambda>it. it\<lparr>si_data := last_n (maxDataPoints s)
                (si_data it @ [pt nx (sample_y data (si_name it))])\<rparr>) (items s @ news)"
    by (auto simp: comp_def)
  have size: "currentSize s + 1 - int ?k = min (currentSize s + 1) (maxDataPoints s)" by linarith
  have "fixed_addData f data x s = Inr (drop_excess ?u)"
    by (simp add: fixed_addData_def add)
  also have "drop_excess ?u = s\<lparr>items := map (\<lambda>it. it\<lparr>si_data := last_n (maxDataPoints s)
                (si_data it @ [pt nx (sample_y data (si_name it))])\<rparr>) (items s @ news),
         sr_palette := p, sr_legend := l,
         currentSize := min (currentSize s + 1) (maxDataPoints s),
         currentIndex := currentIndex s + 1\<rparr>"
    using rows size by (simp add: drop_excess_eq Let_def)
  finally show ?thesis using news by blast
qed

lemma fixed_addData_inv:
  assumes inv: "fixed_inv s xs" and d: "distinct (map fst data)"
  shows "\<exists>s'. fixed_addData f data x s = Inr s'
    \<and> fixed_inv s' (last_n (maxDataPoints s) (xs @ [sample_x x (currentIndex s) s]))
    \<and> maxDataPoints s' = maxDataPoints s \<and> timeBase s' = timeBase s
    \<and> timeInterval s' = timeInterval s \<and> currentIndex s' = currentIndex s + 1"
proof -
  let ?nx = "sample_x x (currentIndex s) s"
  obtain news p l where add: "fixed_addData f data x s = Inr
      (s\<lparr>items := map (\<lambda>it. it\<lparr>si_data := last_n (maxDataPoints s)
                (si_data it @ [pt ?nx (sample_y data (si_name it))])\<rparr>) (items s @ news),
         sr_palette := p, sr_legend := l,
         currentSize := min (currentSize s + 1) (maxDataPoints s),
         currentIndex := currentIndex s + 1\<rparr>)" (is "_ = Inr ?s'")
    and news: "\<forall>it \<in> set news. si_data it = zero_row xs"
    using fixed_addData_update [OF inv d, of f x] by blast
  have "map px (si_data it) = xs" if "it \<in> set (items s @ news)" for it
    using that inv news by (auto simp: fixed_inv_def aligned_def)
  then have "aligned ?s' (last_n (maxDataPoints s) (xs @ [?nx]))"
    by (auto simp: aligned_def last_n_def simp flip: drop_map)
      (metis length_map)+
  then have "fixed_inv ?s' (last_n (maxDataPoints s) (xs @ [?nx]))"
    using inv by (auto simp: fixed_inv_def length_last_n)
  with add show ?thesis by auto
qed

section \<open>Construction\<close>

lemma addItem_seed:
  assumes "ia_name item = Some name" and "ia_data item = None" and "currentIndex s = 0"
  shows "\<exists>c p l. addItem fixed_getIndex f item s =
    Inr (s\<lparr>items := items s @ [\<lparr>si_name = name, si_color = c,
            si_data = [pt (timeBase s - or_num (timeInterval s) (Fin 0)) (Fin 0)]\<rparr>],
          sr_palette := p, sr_legend := l\<rparr>)"
proof -
  obtain c p where cp: "(if truthy_str (ia_color item) then (the (ia_color item), sr_palette s)
      else palette_color f name (sr_palette s)) = (c, p)" by fastforce
  let ?s2 = "s\<lparr>sr_palette := p, items := items s @ [\<lparr>si_name = name, si_color = c,
      si_data = [pt (timeBase s - or_num (timeInterval s) (Fin 0)) (Fin 0)]\<rparr>]\<rparr>"
  obtain l where "legend_addLine name ?s2 = ?s2\<lparr>sr_legend := l\<rparr>"
    using legend_addLine_frame by blast
  then have "addItem fixed_getIndex f item s = Inr (?s2\<lparr>sr_legend := l\<rparr>)"
    using assms by (simp add: addItem_def cp initial_data_def fixed_getIndex_def)
  then show ?thesis by (intro exI [of _ c] exI [of _ p] exI [of _ l]) simp
qed

lemma addItems_seed:
  assumes "\<forall>item \<in> set ds. ia_name item \<noteq> None \<and> ia_data item = None" and "currentIndex s = 0"
  shows "\<exists>its p l. for_each (addItem fixed_getIndex f) ds s =
      Inr (s\<lparr>items := items s @ its, sr_palette := p, sr_legend := l\<rparr>)
    \<and> map (Some \<circ> si_name) its = map ia_name ds
    \<and> (\<forall>it \<in> set its. si_data it = [pt (timeBase s - or_num (timeInterval s) (Fin 0)) (Fin 0)])"
  using assms
proof (induction ds arbitrary: s)
  case Nil
  show ?case
    by (intro exI [of _ "[]"] exI [of _ "sr_palette s"] exI [of _ "sr_legend s"]) simp
next
  case (Cons d ds)
  then obtain name where "ia_name d = Some name" "ia_data d = None" by auto
  with addItem_seed Cons.prems(2) obtain c p l where
    add: "addItem fixed_getIndex f d s =
      Inr (s\<lparr>items := items s @ [\<lparr>si_name = name, si_color = c,
            si_data = [pt (timeBase s - or_num (timeInterval s) (Fin 0)) (Fin 0)]\<rparr>],
          sr_palette := p, sr_legend := l\<rparr>)" (is "_ = Inr ?t")
    by blast
  have "\<forall>item \<in> set ds. ia_name item \<noteq> None \<and> ia_data item = None" "currentIndex ?t = 0"
    using Cons.prems by auto
  from Cons.IH [OF this] obtain its p' l' where
    IH: "for_each (addItem fixed_getIndex f) ds ?t =
      Inr (?t\<lparr>items := items ?t @ its, sr_palette := p', sr_legend := l'\<rparr>)"
    "map (Some \<circ> si_name) its = map ia_name ds"
    "\<forall>it \<in> set its. si_data it = [pt (timeBase ?t - or_num (timeInterval ?t) (Fin 0)) (Fin 0)]"
    by blast
  let ?it = "\<lparr>si_name = name, si_color = c,
            si_data = [pt (timeBase s - or_num (timeInterval s) (Fin 0)) (Fin 0)]\<rparr>"
  show ?case
    using add IH \<open>ia_name d = Some name\<close>
    by (intro exI [of _ "?it # its"] exI [of _ p'] exI [of _ l']) (auto simp: comp_def)
qed

abbreviation fill_point :: "fixed \<Rightarrow> int \<Rightarrow> point" where
  "fill_point s i \<equiv>
     \<lparr>px = or_num (Fin (of_int (i - 1)) * timeInterval s) (Fin 1) + timeBase s,
      py = Some (Fin 0), py0 = None, pidx = Some i\<rparr>"

lemma zero_fill_rounds:
  "foldr zero_fill_step is s =
     s\<lparr>currentSize := currentSize s + int (length is), currentIndex := currentIndex s + int (length is),
       items := map (\<lambda>it. it\<lparr>si_data := map (fill_point s) is @ si_data it\<rparr>) (items s)\<rparr>"
  by (induction "is") (simp_all add: zero_fill_step_def comp_def)

lemma zero_fill_eq:
  assumes "currentSize s < maxDataPoints s"
  shows "zero_fill s =
    (let is = [2..maxDataPoints s - currentSize s - 1] in
     s\<lparr>currentSize := currentSize s + int (length is), currentIndex := currentIndex s + int (length is),
       items := map (\<lambda>it. it\<lparr>si_data := map (fill_point s) is @ si_data it\<rparr>) (items s)\<rparr>)"
  using assms
  by (simp add: zero_fill_def foldr_conv_fold [symmetric] zero_fill_rounds Let_def)

text \<open>
  The point of time \<open>k\<close> intervals after the time base given to the constructor.
\<close>

definition grid_at :: "rat \<Rightarrow> rat \<Rightarrow> int \<Rightarrow> jsnum" where
  "grid_at b ti k = Fin (b + of_int k * ti)"

lemma new_fixed_grid:
  assumes "so_timeInterval opts = Some (Fin iv)" and "iv \<noteq> 0" and "so_maxDataPoints opts = Some m"
    and "3 \<le> m" and "so_timeBase opts = Some (Fin b)"
    and "ds \<noteq> []" and "\<forall>item \<in> set ds. ia_name item \<noteq> None \<and> ia_data item = None"
  shows "\<exists>s. new_fixed f now (Some ds) pal opts = Inr s
    \<and> fixed_inv s (map (grid_at b (iv / 1000)) [2 - m..-1])
    \<and> maxDataPoints s = m \<and> currentIndex s = m - 2
    \<and> timeInterval s = Fin (iv / 1000) \<and> timeBase s = grid_at b (iv / 1000) (1 - m)
    \<and> map (Some \<circ> si_name) (items s) = map ia_name ds"
proof -
  define ti where "ti = iv / 1000"
  have ti0: "ti \<noteq> 0" using assms(2) by (simp add: ti_def)
  define s0 :: fixed where "s0 =
    \<lparr>items = [], sr_palette = pal, timeBase = Fin b, timeInterval = Fin ti, sr_legend = None,
     currentSize = 0, currentIndex = 0, maxDataPoints = m\<rparr>"
  obtain its p l where add: "for_each (addItem fixed_getIndex f) ds s0 =
      Inr (s0\<lparr>items := its, sr_palette := p, sr_legend := l\<rparr>)"
    and its: "map (Some \<circ> si_name) its = map ia_name ds"
      "\<forall>it \<in> set its. si_data it = [pt (Fin (b - ti)) (Fin 0)]"
    using addItems_seed [OF assms(7), of s0 f] ti0 by (auto simp: s0_def)
  define s1 where "s1 = s0\<lparr>items := its, sr_palette := p, sr_legend := l, currentSize := 1,
    currentIndex := 1, timeBase := Fin (b - of_int (m - 1) * ti)\<rparr>"
  have new: "new_fixed f now (Some ds) pal opts = Inr (zero_fill s1)"
    using assms add
    by (simp add: new_fixed_def setTimeInterval_def ti_def [symmetric] s0_def [symmetric])
      (simp add: s1_def s0_def)
  have ts: "timeInterval s1 = Fin ti" "timeBase s1 = Fin (b - of_int (m - 1) * ti)"
    "currentSize s1 = 1" "currentIndex s1 = 1" "maxDataPoints s1 = m" "items s1 = its"
    by (simp_all add: s1_def s0_def)
  let ?fill = "map (fill_point s1) [2..m - 2]"
  have zf: "zero_fill s1 = s1\<lparr>currentSize := m - 2, currentIndex := m - 2,
    items := map (\<lambda>it. it\<lparr>si_data := ?fill @ si_data it\<rparr>) its\<rparr>"
    using zero_fill_eq [of s1] assms(4) by (simp add: ts Let_def)
  have pts: "px (fill_point s1 i) = grid_at b ti (i - m)" if "2 \<le> i" for i
  proof -
    have "of_int (i - 1) * ti \<noteq> 0" using that ti0 by simp
    then show ?thesis by (simp add: ts grid_at_def algebra_simps)
  qed
  have "map (grid_at b ti) [2 - m..-2] = map (\<lambda>i. grid_at b ti (i - m)) [2..m - 2]"
  proof -
    have "[2 - m..-2] = map (\<lambda>i. i - m) [2..m - 2]"
      by (rule nth_equalityI) (auto simp: nth_upto)
    then show ?thesis by (simp add: comp_def)
  qed
  also have "\<dots> = map px ?fill" using pts by (simp add: comp_def)
  finally have fill: "map px ?fill = map (grid_at b ti) [2 - m..-2]" ..
  have "[2 - m..-1] = [2 - m..-2] @ [-1]"
    using upto_rec2 [of "2 - m" "-1"] assms(4) by simp
  then have "map px (?fill @ si_data it) = map (grid_at b ti) [2 - m..-1]" if "it \<in> set its" for it
    using fill its(2) that by (simp add: grid_at_def)
  then have "aligned (zero_fill s1) (map (grid_at b ti) [2 - m..-1])"
    by (auto simp: zf aligned_def)
  moreover have "its \<noteq> []" using its(1) assms(6) by auto
  ultimately have "fixed_inv (zero_fill s1) (map (grid_at b ti) [2 - m..-1])"
    using assms(4) by (simp add: fixed_inv_def zf ts)
  with new show ?thesis
    using its(1) by (simp add: zf ts grid_at_def comp_def algebra_simps flip: ti_def)
qed

section \<open>A run of samples\<close>

fun fixed_run :: "hsl \<Rightarrow> sample list \<Rightarrow> fixed \<Rightarrow> fixed js" where
  "fixed_run f [] s = Inr s"
| "fixed_run f (d # ds) s = js_bind (fixed_addData f d None s) (fixed_run f ds)"

lemma fixed_run_grid:
  assumes "fixed_inv s xs" and "\<forall>d \<in> set samples. distinct (map fst d)"
    and "timeInterval s = Fin ti" and "timeBase s = Fin tb" and "ti \<noteq> 0"
  shows "\<exists>s'. fixed_run f samples s = Inr s'
    \<and> fixed_inv s' (last_n (maxDataPoints s)
         (xs @ map (grid_at tb ti) [currentIndex s..currentIndex s + int (length samples) - 1]))
    \<and> maxDataPoints s' = maxDataPoints s"
  using assms
proof (induction samples arbitrary: s xs)
  case Nil
  then show ?case by (simp add: fixed_inv_def)
next
  case (Cons d ds)
  let ?m = "maxDataPoints s" and ?i = "currentIndex s"
  have idx: "0 < ?i" using Cons.prems(1) by (simp add: fixed_inv_def)
  then have nx: "sample_x None ?i s = grid_at tb ti ?i"
    using Cons.prems(3-5) by (simp add: sample_x_def grid_at_def add.commute)
  obtain s1 where s1: "fixed_addData f d None s = Inr s1"
    "fixed_inv s1 (last_n ?m (xs @ [grid_at tb ti ?i]))" "maxDataPoints s1 = ?m"
    "timeBase s1 = Fin tb" "timeInterval s1 = Fin ti" "currentIndex s1 = ?i + 1"
    using fixed_addData_inv [OF Cons.prems(1), of d f None] Cons.prems(2-4) nx by auto
  let ?ys = "map (grid_at tb ti) [?i + 1..?i + int (length ds)]"
  obtain s' where s': "fixed_run f ds s1 = Inr s'"
    "fixed_inv s' (last_n ?m (last_n ?m (xs @ [grid_at tb ti ?i]) @ ?ys))" "maxDataPoints s' = ?m"
    using Cons.IH [OF s1(2) _ s1(5,4) Cons.prems(5)] Cons.prems(2) s1(3,6)
    by (auto simp: algebra_simps)
  have "[?i..?i + int (length (d # ds)) - 1] = ?i # [?i + 1..?i + int (length ds)]"
    by (simp add: upto_rec1)
  then show ?case using s1(1) s' by (simp add: last_n_append)
qed

lemma grid_at_shift: "grid_at (b + of_int j * ti) ti k = grid_at b ti (k + j)"
  by (simp add: grid_at_def algebra_simps)

lemma map_upto_shift: "map (\<lambda>k. g (k + j)) [a..b] = map g [a + j..b + (j::int)]"
proof -
  have "[a + j..b + j] = map (\<lambda>k. k + j) [a..b]"
    by (rule nth_equalityI) (auto simp: nth_upto)
  then show ?thesis by (simp add: comp_def)
qed

lemma addItem_Inl_iff:
  "addItem g f item s = Inl e \<longleftrightarrow> ia_name item = None \<and> e = Thrown ''addItem() needs a name''"
  by (auto simp: addItem_def Let_def split: option.splits prod.splits)

lemma addItems_Inl_iff:
  "for_each (addItem g f) ds s = Inl e \<longleftrightarrow>
     (\<exists>item \<in> set ds. ia_name item = None) \<and> e = Thrown ''addItem() needs a name''"
proof (induction ds arbitrary: s)
  case Nil
  then show ?case by simp
next
  case (Cons d ds)
  show ?case
  proof (cases "addItem g f d s")
    case (Inl e')
    then show ?thesis using addItem_Inl_iff [of g f d s e'] by auto
  next
    case (Inr t)
    then have "ia_name d \<noteq> None" using addItem_Inl_iff [of g f d s] by fastforce
    with Inr Cons.IH show ?thesis by auto
  qed
qed

lemma fixed_run_from_scratch:
  assumes "so_timeInterval opts = Some (Fin iv)" and "iv \<noteq> 0" and "so_maxDataPoints opts = Some m"
    and "3 \<le> m" and "so_timeBase opts = Some (Fin b)"
    and "ds \<noteq> []" and "\<forall>item \<in> set ds. ia_name item \<noteq> None \<and> ia_data item = None"
    and "\<forall>d \<in> set samples. distinct (map fst d)"
  shows "\<exists>s. js_bind (new_fixed f now (Some ds) pal opts) (fixed_run f samples) = Inr s
    \<and> fixed_inv s (last_n m (map (grid_at b (iv / 1000))
         ([2 - m..-1] @ [-1..int (length samples) - 2])))"
proof -
  let ?ti = "iv / 1000" and ?xs = "map (grid_at b (iv / 1000)) [2 - m..-1]"
  obtain s where s: "new_fixed f now (Some ds) pal opts = Inr s" "fixed_inv s ?xs"
    "maxDataPoints s = m" "currentIndex s = m - 2" "timeInterval s = Fin ?ti"
    "timeBase s = grid_at b ?ti (1 - m)"
    using new_fixed_grid [OF assms(1-7), of f now pal] by blast
  let ?tb = "b + of_int (1 - m) * ?ti"
  have tb: "timeBase s = Fin ?tb" by (simp add: s(6) grid_at_def)
  have "grid_at ?tb ?ti = (\<lambda>k. grid_at b ?ti (k + (1 - m)))"
    by (rule ext) (rule grid_at_shift)
  then have "map (grid_at ?tb ?ti) [m - 2..m - 2 + int (length samples) - 1] =
    map (grid_at b ?ti) [-1..int (length samples) - 2]"
    by (simp only: map_upto_shift) simp
  with fixed_run_grid [OF s(2) assms(8) s(5) tb, of f] assms(2) s(1,3,4) show ?thesis
    by auto
qed

section \<open>Properties\<close>

text \<open>
  C38. When all rows of a \<open>Rickshaw.Series\<close> lie on one non-empty grid of x values, \<open>addData\<close> never
  throws and appends one sample to every row at one and the same new x. Each row gets the value the
  sample has for its name, or zero. A name the series does not know becomes a new row that is zero on
  the whole old grid. Nothing already recorded changes.
\<close>

theorem series_addData_extends_grid:
  assumes "items s \<noteq> []" and "aligned s xs" and "xs \<noteq> []" and "distinct (map fst data)"
  shows "\<exists>news s'. addData getIndex f data x s = Inr s'
    \<and> items s' = map (\<lambda>it. it\<lparr>si_data := si_data it @
          [pt (sample_x x (int (length xs)) s) (sample_y data (si_name it))]\<rparr>) (items s @ news)
    \<and> map si_name news = filter (\<lambda>k. k \<notin> set (names s)) (map fst data)
    \<and> (\<forall>it \<in> set news. si_data it = zero_row xs)
    \<and> aligned (s' :: series) (xs @ [sample_x x (int (length xs)) s])"
proof -
  have "hd (items s) \<in> set (items s)" using assms(1) by simp
  with assms(2) have hd: "map px (si_data (hd (items s))) = xs" by (simp add: aligned_def)
  then have len: "getIndex s = int (length xs)"
    using assms(1) by (cases "items s") (auto simp: getIndex_def)
  have "items s \<noteq> [] \<and> si_data (hd (items s)) \<noteq> []" using hd assms(1,3) by auto
  from plain.addData_update [OF this assms(1,2,4), of f x] obtain news p l where
    add: "addData getIndex f data x s = Inr (s\<lparr>items := map (\<lambda>it. it\<lparr>si_data := si_data it @
          [pt (sample_x x (int (length xs)) s) (sample_y data (si_name it))]\<rparr>) (items s @ news),
        sr_palette := p, sr_legend := l\<rparr>)" (is "_ = Inr ?s'")
    and news: "map si_name news = filter (\<lambda>k. k \<notin> set (names s)) (map fst data)"
      "\<forall>it \<in> set news. si_data it = zero_row xs"
    unfolding len by blast
  have "aligned ?s' (xs @ [sample_x x (int (length xs)) s])"
    using assms(2) news(2) by (auto simp: aligned_def)
  with add news show ?thesis by (intro exI [of _ news] exI [of _ ?s']) simp
qed

definition delta_series :: series where
  "delta_series = \<lparr>items = [\<lparr>si_name = ''Delta'', si_color = ''#5d2500'', si_data = [pt (Fin 8) (Fin 3)]\<rparr>],
     sr_palette = wheel_palette, timeBase = Fin 10, timeInterval = Fin 2, sr_legend = None\<rparr>"

theorem series_addData_extends_grid_witness:
  "\<exists>news s'. addData getIndex blend_text [(''Jitter'', Fin 7)] None delta_series = Inr s'
    \<and> items s' = map (\<lambda>it. it\<lparr>si_data := si_data it @
          [pt (Fin 12) (sample_y [(''Jitter'', Fin 7)] (si_name it))]\<rparr>) (items delta_series @ news)
    \<and> map si_name news = [''Jitter'']
    \<and> (\<forall>it \<in> set news. si_data it = zero_row [Fin 8])
    \<and> aligned (s' :: series) [Fin 8, Fin 12]"
  using series_addData_extends_grid [of delta_series "[Fin 8]" "[(''Jitter'', Fin 7)]" blend_text None]
  by (simp add: delta_series_def aligned_def sample_x_def)

text \<open>
  C4. \<open>addData\<close> of a fixed-duration series keeps a sliding window: every row becomes the last
  \<open>maxDataPoints\<close> points of itself with the new sample appended, all rows stay on one grid, the
  recorded size is the length of that grid and never exceeds \<open>maxDataPoints\<close>, and the index grows by
  one.
\<close>

theorem fixed_addData_slides_window:
  assumes "fixed_inv s xs" and "distinct (map fst data)"
  shows "\<exists>news s'. fixed_addData f data x s = Inr s'
    \<and> items s' = map (\<lambda>it. it\<lparr>si_data := last_n (maxDataPoints s)
          (si_data it @ [pt (sample_x x (currentIndex s) s) (sample_y data (si_name it))])\<rparr>)
          (items s @ news)
    \<and> (\<forall>it \<in> set news. si_data it = zero_row xs)
    \<and> currentSize s' = min (currentSize s + 1) (maxDataPoints s)
    \<and> currentIndex s' = currentIndex s + 1
    \<and> fixed_inv s' (last_n (maxDataPoints s) (xs @ [sample_x x (currentIndex s) s]))"
proof -
  obtain s' where s': "fixed_addData f data x s = Inr s'"
    "fixed_inv s' (last_n (maxDataPoints s) (xs @ [sample_x x (currentIndex s) s]))"
    using fixed_addData_inv [OF assms, of f x] by blast
  with fixed_addData_update [OF assms, of f x] show ?thesis by auto
qed

definition two_point_series :: fixed where
  "two_point_series = \<lparr>items = [\<lparr>si_name = ''Delta'', si_color = ''#5d2500'',
       si_data = [pt (Fin 6) (Fin 1), pt (Fin 8) (Fin 3)]\<rparr>],
     sr_palette = wheel_palette, timeBase = Fin 4, timeInterval = Fin 2, sr_legend = None,
     currentSize = 2, currentIndex = 3, maxDataPoints = 2\<rparr>"

theorem fixed_addData_slides_window_witness:
  "\<exists>news s'. fixed_addData blend_text [(''Delta'', Fin 5)] None two_point_series = Inr s'
    \<and> items s' = map (\<lambda>it. it\<lparr>si_data := last_n 2
          (si_data it @ [pt (Fin 10) (sample_y [(''Delta'', Fin 5)] (si_name it))])\<rparr>)
          (items two_point_series @ news)
    \<and> (\<forall>it \<in> set news. si_data it = zero_row [Fin 6, Fin 8])
    \<and> currentSize s' = 2 \<and> currentIndex s' = 4 \<and> fixed_inv s' (last_n 2 [Fin 6, Fin 8, Fin 10])"
  using fixed_addData_slides_window
    [of two_point_series "[Fin 6, Fin 8]" "[(''Delta'', Fin 5)]" blend_text None]
  by (simp add: two_point_series_def aligned_def fixed_inv_def sample_x_def)

text \<open>
  C1. The time grid of a fixed-duration series built from named rows without data, after any number
  of samples without an explicit x: with \<open>b\<close> the time base passed in and \<open>ti\<close> the interval in
  seconds, construction lays out \<open>b - (m - 2) ti, ..., b - ti\<close> and the \<open>n\<close>-th sample (from 0) lands
  at \<open>b + (n - 1) ti\<close>; all rows carry the last \<open>m\<close> of these times. The time \<open>b - ti\<close> therefore
  occurs twice.
\<close>

theorem fixed_duration_time_grid:
  assumes "so_timeInterval opts = Some (Fin iv)" and "iv \<noteq> 0" and "so_maxDataPoints opts = Some m"
    and "3 \<le> m" and "so_timeBase opts = Some (Fin b)"
    and "ds \<noteq> []" and "\<forall>item \<in> set ds. ia_name item \<noteq> None \<and> ia_data item = None"
    and "\<forall>d \<in> set samples. distinct (map fst d)"
  shows "\<exists>s. js_bind (new_fixed f now (Some ds) pal opts) (fixed_run f samples) = Inr s
    \<and> fixed_inv s (last_n m (map (grid_at b (iv / 1000))
         ([2 - m..-1] @ [-1..int (length samples) - 2])))"
  by (rule fixed_run_from_scratch [OF assms])

definition plain_item :: "string \<Rightarrow> item_args" where
  "plain_item n = \<lparr>ia_name = Some n, ia_color = None, ia_data = None\<rparr>"

definition web_options :: series_options where
  "web_options = \<lparr>so_timeBase = Some (Fin 1000), so_timeInterval = Some (Fin 2000),
     so_maxDataPoints = Some 5\<rparr>"

theorem fixed_duration_time_grid_witness:
  "\<exists>s. js_bind (new_fixed blend_text (Fin 0) (Some [plain_item ''Delta'']) wheel_palette web_options)
        (fixed_run blend_text [[(''Delta'', Fin 4)], [(''Delta'', Fin 9)]]) = Inr s
    \<and> fixed_inv s [Fin 994, Fin 996, Fin 998, Fin 998, Fin 1000]"
  using fixed_duration_time_grid [of web_options 2000 5 1000 "[plain_item ''Delta'']"
      "[[(''Delta'', Fin 4)], [(''Delta'', Fin 9)]]" blend_text "Fin 0" wheel_palette]
  by (simp add: web_options_def plain_item_def grid_at_def upto.simps)

lemma legend_addLine_last:
  "legend_addLine (si_name it) (s\<lparr>items := its @ [it]\<rparr>) =
     s\<lparr>items := its @ [it], sr_legend := map_option (\<lambda>ls. ls @ [si_name it]) (sr_legend s)\<rparr>"
proof -
  have "\<exists>x. find (\<lambda>x. si_name x = si_name it) (its @ [it]) = Some x \<and> si_name x = si_name it"
    by (induction its) auto
  then show ?thesis by (cases "sr_legend s") (auto simp: legend_addLine_def itemByName_def)
qed

lemma load_items_eq:
  "load_items its s = s\<lparr>items := items s @ its, sr_legend := map_option (\<lambda>ls. ls @ map si_name its) (sr_legend s)\<rparr>"
proof (induction its arbitrary: s)
  case Nil
  have "map_option (\<lambda>ls. ls @ []) (sr_legend s) = sr_legend s" by (cases "sr_legend s") simp_all
  then show ?case by simp
next
  case (Cons it its)
  then show ?case by (simp add: legend_addLine_last option.map_comp comp_def)
qed

text \<open>
  C39. \<open>load\<close> restores what \<open>dump\<close> saved: an empty series that loads the dump of another has its rows, in order, with their names, colours
  and the times and values of all their points (what the graph had added to the points is gone), and its time base and interval, when these are not
  zero (a zero is not restored). A legend of the loading series gets a line for every row, and the rest of that series is kept. Dumping again gives the same dump.
\<close>

theorem dump_load_roundtrip:
  assumes "items s0 = []" and "truthy_num (timeBase s)" and "truthy_num (timeInterval s)"
  shows "load (dump s) s0 = s0
      \<lparr>items := map (\<lambda>it. \<lparr>si_name = si_name it, si_color = si_color it,
                   si_data = map (\<lambda>p. \<lparr>px = px p, py = py p, py0 = None, pidx = None\<rparr>) (si_data it)\<rparr>) (items s),
       timeBase := timeBase s, timeInterval := timeInterval s,
       sr_legend := map_option (\<lambda>ls. ls @ map si_name (items s)) (sr_legend s0)\<rparr>
    \<and> dump (load (dump s) s0) = dump s"
proof -
  have p: "p\<lparr>py0 := None, pidx := None\<rparr> = \<lparr>px = px p, py = py p, py0 = None, pidx = None\<rparr>" for p :: point by simp
  have i: "it\<lparr>si_data := d\<rparr> = \<lparr>si_name = si_name it, si_color = si_color it, si_data = d\<rparr>" for it :: series_item and d by simp
  show ?thesis using assms by (simp add: load_def dump_def load_items_eq p i comp_def)
qed

theorem dump_load_roundtrip_witness:
  "items (load (dump two_point_series) (delta_series\<lparr>items := [], sr_legend := Some []\<rparr>)) = items two_point_series
   \<and> sr_legend (load (dump two_point_series) (delta_series\<lparr>items := [], sr_legend := Some []\<rparr>)) = Some [''Delta'']"
  using dump_load_roundtrip [of "delta_series\<lparr>items := [], sr_legend := Some []\<rparr>" two_point_series]
  by (simp add: two_point_series_def delta_series_def)

text \<open>
  Construction of a fixed-duration series fails exactly when the interval or the window size is
  missing or a row has no name, and each failure names what is missing.
\<close>

theorem new_fixed_errors:
  "new_fixed f now data pal opts = Inl e \<longleftrightarrow>
     so_timeInterval opts = None \<and> e = Thrown ''FixedDuration series requires timeInterval''
   \<or> (\<exists>ti. so_timeInterval opts = Some ti) \<and> so_maxDataPoints opts = None
       \<and> e = Thrown ''FixedDuration series requires maxDataPoints''
   \<or> (\<exists>ti m. so_timeInterval opts = Some ti \<and> so_maxDataPoints opts = Some m)
       \<and> (\<exists>item \<in> set (case data of None \<Rightarrow> [] | Some ds \<Rightarrow> ds). ia_name item = None)
       \<and> e = Thrown ''addItem() needs a name''"
proof (cases "so_timeInterval opts = None \<or> so_maxDataPoints opts = None")
  case True
  then show ?thesis by (auto simp: new_fixed_def split: option.splits)
next
  case False
  then obtain ti m where "so_timeInterval opts = Some ti" "so_maxDataPoints opts = Some m" by auto
  then show ?thesis
    by (cases data) (auto simp: new_fixed_def Let_def js_bind_Inl_iff addItems_Inl_iff)
qed

end
