(* ===== verification/SeriesFill.thy ===== *)
theory SeriesFill
  imports SeriesData
begin

text \<open>
  \<open>Rickshaw.Series.fill\<close> and \<open>zeroFill\<close>: rows recorded at different times are brought onto one grid by
  inserting points, so that they can be stacked. The loop has no bound of its own: its end depends on
  the data, so the model returns an option (\<open>None\<close> when the loop runs forever), and termination
  is a theorem.
\<close>

section \<open>The code\<close>

definition max_length :: "'a list list \<Rightarrow> nat" where
  "max_length data = foldr max (map length data) 0"

text \<open>The smallest x at index \<open>i\<close>, over the rows that have one.\<close>

definition fill_x :: "nat \<Rightarrow> point list list \<Rightarrow> jsnum" where
  "fill_x i data = js_min (map (\<lambda>d. px (d ! i)) (filter (\<lambda>d. i < length d) data))"

definition fill_row :: "nat \<Rightarrow> jsnum \<Rightarrow> jsnum \<Rightarrow> point list \<Rightarrow> point list" where
  "fill_row i x fl d =
     (if \<not> i < length d \<or> \<not> js_eq (px (d ! i)) x then splice_insert i (pt x fl) d else d)"

partial_function (option) fill_loop :: "jsnum \<Rightarrow> nat \<Rightarrow> point list list \<Rightarrow> point list list option" where
  "fill_loop fl i data =
     (if i < max_length data
      then fill_loop fl (Suc i) (map (fill_row i (fill_x i data) fl) data)
      else Some data)"

definition fill :: "series_item list \<Rightarrow> jsnum \<Rightarrow> series_item list option" where
  "fill its fl =
     map_option (\<lambda>data. map2 (\<lambda>it d. it\<lparr>si_data := d\<rparr>) its data) (fill_loop fl 0 (map si_data its))"

definition zeroFill :: "series_item list \<Rightarrow> series_item list option" where
  "zeroFill its = fill its (Fin 0)"

section \<open>What it computes\<close>

text \<open>
  The specification: the grid is the sorted set of all times, and every row has at every time its own
  point or, where it has none, a filled one.
\<close>

definition times :: "point list list \<Rightarrow> rat set" where
  "times data = fin_val ` px ` (\<Union> (set ` set data))"

definition filled_row :: "jsnum \<Rightarrow> rat list \<Rightarrow> point list \<Rightarrow> point list" where
  "filled_row fl ts d =
     map (\<lambda>t. case find (\<lambda>p. px p = Fin t) d of Some p \<Rightarrow> p | None \<Rightarrow> pt (Fin t) fl) ts"

text \<open>A row as it should be: finite times, strictly increasing.\<close>

definition increasing_row :: "point list \<Rightarrow> bool" where
  "increasing_row d = ((\<forall>p \<in> set d. is_fin (px p)) \<and> sorted_wrt (<) (map (fin_val \<circ> px) d))"

section \<open>Proof\<close>

lemma less_max_length_iff: "i < max_length data \<longleftrightarrow> (\<exists>d \<in> set data. i < length d)"
  by (induction data) (auto simp: max_length_def less_max_iff_disj)

text \<open>One round on a row that is already filled up to \<open>i\<close>: the point emitted and the rest kept.\<close>

definition emit :: "jsnum \<Rightarrow> jsnum \<Rightarrow> point list \<Rightarrow> point" where
  "emit x fl r = (case r of p # _ \<Rightarrow> if js_eq (px p) x then p else pt x fl | [] \<Rightarrow> pt x fl)"

definition keep :: "jsnum \<Rightarrow> point list \<Rightarrow> point list" where
  "keep x r = (case r of p # ps \<Rightarrow> if js_eq (px p) x then ps else r | [] \<Rightarrow> [])"

lemma fill_row_split: "length ps = i \<Longrightarrow> fill_row i x fl (ps @ r) = (ps @ [emit x fl r]) @ keep x r"
  by (cases r) (auto simp: fill_row_def emit_def keep_def nth_append splice_insert_def)

text \<open>Termination: a round consumes a point of some row and lengthens no rest.\<close>

definition rest_size :: "nat \<Rightarrow> point list list \<Rightarrow> nat" where
  "rest_size i data = (\<Sum>d \<leftarrow> data. length d - i)"

lemma length_fill_row: "i \<le> length d \<Longrightarrow>
    length (fill_row i x fl d) - Suc i \<le> length d - i \<and> Suc i \<le> length (fill_row i x fl d)"
  by (auto simp: fill_row_def splice_insert_def)

lemma length_fill_row_less:
  "i < length d \<Longrightarrow> js_eq (px (d ! i)) x \<Longrightarrow> length (fill_row i x fl d) - Suc i < length d - i"
  by (simp add: fill_row_def)

lemma fill_x_no_NaN:
  assumes "i < max_length data" and "\<forall>d \<in> set data. \<forall>p \<in> set d. px p \<noteq> NaN"
  shows "\<exists>d \<in> set data. i < length d \<and> fill_x i data = px (d ! i)" and "fill_x i data \<noteq> NaN"
proof -
  let ?xs = "map (\<lambda>d. px (d ! i)) (filter (\<lambda>d. i < length d) data)"
  have "?xs \<noteq> []" using assms(1) by (auto simp: less_max_length_iff filter_empty_conv)
  moreover have "NaN \<notin> set ?xs" using assms(2) by (auto dest!: nth_mem) (metis)
  ultimately have x: "fill_x i data \<in> set ?xs" unfolding fill_x_def by (rule js_min_in)
  then show "\<exists>d \<in> set data. i < length d \<and> fill_x i data = px (d ! i)" by auto
  show "fill_x i data \<noteq> NaN" using x \<open>NaN \<notin> set ?xs\<close> by metis
qed

lemma rest_size_decreases:
  assumes "i < max_length data" and "\<forall>d \<in> set data. i \<le> length d"
    and "\<forall>d \<in> set data. \<forall>p \<in> set d. px p \<noteq> NaN"
  shows "rest_size (Suc i) (map (fill_row i (fill_x i data) fl) data) < rest_size i data"
proof -
  let ?x = "fill_x i data"
  obtain d where d: "d \<in> set data" "i < length d" "?x = px (d ! i)"
    using fill_x_no_NaN(1) [OF assms(1,3)] by blast
  with assms(3) have eq: "js_eq (px (d ! i)) ?x" by (auto simp: js_eq_def)
  have "(\<Sum>d \<leftarrow> data. length (fill_row i ?x fl d) - Suc i) < (\<Sum>d \<leftarrow> data. length d - i)"
  proof (rule sum_list_less)
    show "\<forall>d \<in> set data. length (fill_row i ?x fl d) - Suc i \<le> length d - i"
      using length_fill_row assms(2) by blast
    show "\<exists>d \<in> set data. length (fill_row i ?x fl d) - Suc i < length d - i"
      using length_fill_row_less [OF d(2) eq] d(1) by blast
  qed
  then show ?thesis by (simp add: rest_size_def comp_def)
qed

lemma no_NaN_fill_row:
  assumes "\<forall>p \<in> set d. px p \<noteq> NaN" and "x \<noteq> NaN"
  shows "\<forall>p \<in> set (fill_row i x fl d). px p \<noteq> NaN"
  using assms by (auto simp: fill_row_def splice_insert_def dest: in_set_takeD in_set_dropD)

text \<open>
  The loop returns whenever no time is NaN, sorted or not, and its rows then agree in length and in
  every x filled by a round.
\<close>

lemma fill_row_px: "i \<le> length d \<Longrightarrow> j \<le> i \<Longrightarrow> x \<noteq> NaN \<Longrightarrow>
    px (fill_row i x fl d ! j) = (if j = i then x else px (d ! j))"
  by (auto simp: fill_row_def splice_insert_def nth_append js_eq_def)

lemma fill_loop_returns:
  assumes "\<forall>d \<in> set data. i \<le> length d" and "\<forall>d \<in> set data. \<forall>p \<in> set d. px p \<noteq> NaN"
    and "\<forall>d \<in> set data. map px (take i d) = xs"
  shows "\<exists>data' ys. fill_loop fl i data = Some data' \<and> (\<forall>d \<in> set data'. map px d = xs @ ys)"
  using assms
proof (induction "rest_size i data" arbitrary: i data xs rule: less_induct)
  case less
  show ?case
  proof (cases "i < max_length data")
    case False
    with less.prems(1) have "\<forall>d \<in> set data. length d = i"
      using less_max_length_iff [of i data] by force
    with less.prems(3) have "\<forall>d \<in> set data. map px d = xs @ []" by simp
    moreover have "fill_loop fl i data = Some data"
      using False by (simp add: fill_loop.simps [of fl i data])
    ultimately show ?thesis by blast
  next
    case True
    let ?x = "fill_x i data" let ?data = "map (fill_row i ?x fl) data"
    have xn: "?x \<noteq> NaN" using fill_x_no_NaN(2) [OF True less.prems(2)] .
    have "map px (take (Suc i) (fill_row i ?x fl d)) = xs @ [?x]" if d: "d \<in> set data" for d
    proof (rule nth_equalityI)
      have i: "i \<le> length d" "map px (take i d) = xs" using d less.prems(1,3) by auto
      then have len: "length xs = i" by auto
      show "length (map px (take (Suc i) (fill_row i ?x fl d))) = length (xs @ [?x])"
        using length_fill_row [OF i(1), of ?x fl] len by auto
      fix j assume "j < length (map px (take (Suc i) (fill_row i ?x fl d)))"
      then have j: "j \<le> i" by simp
      then have "j < i \<Longrightarrow> xs ! j = px (d ! j)" using i by auto
      with j show "map px (take (Suc i) (fill_row i ?x fl d)) ! j = (xs @ [?x]) ! j"
        using length_fill_row [OF i(1), of ?x fl] fill_row_px [OF i(1) j xn, of fl] len
        by (auto simp: nth_append)
    qed
    then have rows: "\<forall>d \<in> set ?data. map px (take (Suc i) d) = xs @ [?x]" by simp
    obtain data' ys where "fill_loop fl (Suc i) ?data = Some data'"
      "\<forall>d \<in> set data'. map px d = (xs @ [?x]) @ ys"
      using less.hyps [OF rest_size_decreases [OF True less.prems(1,2), of fl] _ _ rows]
        length_fill_row less.prems(1) no_NaN_fill_row [OF _ xn] less.prems(2) by fastforce
    then show ?thesis
      using True by (intro exI [of _ data'] exI [of _ "?x # ys"]) (simp add: fill_loop.simps [of fl i data])
  qed
qed

text \<open>With a NaN among the next times every row gets a NaN point inserted before it, for ever.\<close>

lemma fill_loop_NaN:
  assumes "\<exists>d \<in> set data. i < length d \<and> px (d ! i) = NaN"
  shows "fill_loop fl i data = None"
proof -
  have "\<not> (\<exists>d \<in> set data. i < length d \<and> px (d ! i) = NaN)" if "fill_loop fl i data = Some r" for r
  proof (rule fill_loop.raw_induct
      [where P = "\<lambda>fl i data r. \<not> (\<exists>d \<in> set data. i < length d \<and> px (d ! i) = NaN)", OF _ that])
    fix f fl i data r
    assume IH: "\<And>fl i data r. f fl i data = Some r \<Longrightarrow>
        \<not> (\<exists>d \<in> set data. i < length d \<and> px (d ! i) = NaN)"
      and eq: "(if i < max_length data then f fl (Suc i) (map (fill_row i (fill_x i data) fl) data)
        else Some data) = Some r"
    show "\<not> (\<exists>d \<in> set data. i < length d \<and> px (d ! i) = NaN)"
    proof
      assume "\<exists>d \<in> set data. i < length d \<and> px (d ! i) = NaN"
      then obtain d where d: "d \<in> set data" "i < length d" "px (d ! i) = NaN" by blast
      then have "NaN \<in> set (map (\<lambda>d. px (d ! i)) (filter (\<lambda>d. i < length d) data))" by force
      then have x: "fill_x i data = NaN" unfolding fill_x_def by (rule js_min_NaN)
      have "i < max_length data" using d by (auto simp: less_max_length_iff)
      with eq have "f fl (Suc i) (map (fill_row i (fill_x i data) fl) data) = Some r" by simp
      from IH [OF this] d have "\<not> (Suc i < length (fill_row i NaN fl d) \<and> px (fill_row i NaN fl d ! Suc i) = NaN)"
        by (auto simp: x)
      with d show False by (simp add: fill_row_def splice_insert_def nth_append)
    qed
  qed
  with assms show ?thesis by (cases "fill_loop fl i data") auto
qed

subsection \<open>Against the specification\<close>

abbreviation row_times :: "point list \<Rightarrow> rat set" where
  "row_times r \<equiv> fin_val ` px ` set r"

lemma times_Union: "times rests = \<Union> (row_times ` set rests)"
  by (auto simp: times_def)

lemma increasing_row_Cons:
  "increasing_row (p # r) \<longleftrightarrow>
     is_fin (px p) \<and> increasing_row r \<and> (\<forall>t \<in> row_times r. fin_val (px p) < t)"
  by (auto simp: increasing_row_def)

lemma increasing_row_keep: "increasing_row r \<Longrightarrow> increasing_row (keep x r)"
  by (cases r) (auto simp: keep_def increasing_row_Cons)

lemma px_eq_Fin_iff: "is_fin (px p) \<Longrightarrow> px p = Fin t \<longleftrightarrow> fin_val (px p) = t"
  by (cases "px p") auto

lemma increasing_row_fin: "increasing_row r \<Longrightarrow> p \<in> set r \<Longrightarrow> is_fin (px p)"
  by (simp add: increasing_row_def)

lemma row_times_keep:
  assumes "increasing_row r" and "\<forall>t \<in> row_times r. m \<le> t"
  shows "row_times (keep (Fin m) r) = row_times r - {m}"
proof (cases r)
  case (Cons p ps)
  then have p: "is_fin (px p)" "\<forall>t \<in> row_times ps. fin_val (px p) < t" "m \<le> fin_val (px p)"
    using assms by (auto simp: increasing_row_Cons)
  then show ?thesis
    using Cons by (cases "px p") (auto simp: keep_def js_eq_def)
qed (simp add: keep_def)

lemma find_px_None:
  assumes "increasing_row r" and "t \<notin> row_times r"
  shows "find (\<lambda>p. px p = Fin t) r = None"
proof -
  have "px p \<noteq> Fin t" if "p \<in> set r" for p
    using assms that px_eq_Fin_iff [OF increasing_row_fin [OF assms(1) that]] by force
  then show ?thesis by (simp add: find_None_iff)
qed

lemma filled_row_step:
  assumes "increasing_row r" and "\<forall>t \<in> row_times r. m \<le> t" and "m \<notin> set ts"
  shows "filled_row fl (m # ts) r = emit (Fin m) fl r # filled_row fl ts (keep (Fin m) r)"
proof (cases r)
  case Nil
  then show ?thesis by (simp add: filled_row_def emit_def keep_def)
next
  case (Cons p ps)
  show ?thesis
  proof (cases "px p = Fin m")
    case True
    with Cons assms(3) show ?thesis
      by (auto simp: filled_row_def emit_def keep_def)
  next
    case False
    with Cons assms(1) have neq: "fin_val (px p) \<noteq> m" by (cases "px p") (auto simp: increasing_row_Cons)
    with Cons assms(1,2) have "m \<notin> row_times r"
      by (fastforce simp: increasing_row_Cons)
    with find_px_None [OF assms(1)] Cons False show ?thesis
      by (cases "px p") (auto simp: filled_row_def emit_def keep_def js_eq_def)
  qed
qed

lemma heads_min:
  assumes "\<forall>r \<in> set rests. increasing_row r" and "\<exists>r \<in> set rests. r \<noteq> []"
  shows "js_min (map (\<lambda>r. px (hd r)) (filter (\<lambda>r. r \<noteq> []) rests)) = Fin (Min (times rests))"
proof -
  let ?rs = "filter (\<lambda>r. r \<noteq> []) rests" and ?h = "\<lambda>r. fin_val (px (hd r))"
  have fin: "px (hd r) = Fin (?h r)" if "r \<in> set ?rs" for r
  proof -
    from that assms(1) have "increasing_row r" "r \<noteq> []" by auto
    then show ?thesis by (cases r) (auto simp: increasing_row_Cons)
  qed
  then have "map (\<lambda>r. px (hd r)) ?rs = map Fin (map ?h ?rs)" by simp
  moreover have "?rs \<noteq> []" using assms(2) by (auto simp: filter_empty_conv)
  ultimately have "js_min (map (\<lambda>r. px (hd r)) ?rs) = Fin (Min (?h ` set ?rs))"
    using js_min_Fin [of "map ?h ?rs"] by (simp only: map_is_Nil_conv set_map not_False_eq_True)
  moreover have "Min (?h ` set ?rs) = Min (times rests)"
  proof (rule Min_eqI [symmetric])
    show "finite (times rests)" by (auto simp: times_def)
    have ne: "?h ` set ?rs \<noteq> {}" using assms(2) by auto
    then have "Min (?h ` set ?rs) \<in> ?h ` set ?rs" by (intro Min_in) auto
    then show "Min (?h ` set ?rs) \<in> times rests"
      by (force simp: times_Union intro: hd_in_set)
    fix t assume "t \<in> times rests"
    then obtain r where r: "r \<in> set rests" "t \<in> row_times r" by (auto simp: times_Union)
    then have inc: "increasing_row r" and rs: "r \<in> set ?rs" using assms(1) by auto
    then obtain p ps where "r = p # ps" by (cases r) auto
    with r(2) inc have "?h r \<le> t" by (auto simp: increasing_row_Cons intro: less_imp_le)
    moreover have "Min (?h ` set ?rs) \<le> ?h r" using rs by (intro Min_le) auto
    ultimately show "Min (?h ` set ?rs) \<le> t" by (rule order_trans [rotated])
  qed
  ultimately show ?thesis by simp
qed

lemma fill_x_rests:
  assumes "length pres = length rests" and "\<forall>ps \<in> set pres. length ps = i"
  shows "fill_x i (map2 (@) pres rests) =
    js_min (map (\<lambda>r. px (hd r)) (filter (\<lambda>r. r \<noteq> []) rests))"
  unfolding fill_x_def using assms
proof (induction pres rests rule: list_induct2)
  case (Cons ps pres r rests)
  then show ?case by (cases r) (auto simp: nth_append)
qed simp

lemma fill_round:
  assumes "length pres = length rests" and "\<forall>ps \<in> set pres. length ps = i"
  shows "map (fill_row i x fl) (map2 (@) pres rests) =
    map2 (@) (map2 (\<lambda>ps r. ps @ [emit x fl r]) pres rests) (map (keep x) rests)"
  using assms
  by (induction pres rests rule: list_induct2) (auto simp: fill_row_split)

lemma map2_append_snoc:
  "length pres = length rests \<Longrightarrow>
    map2 (@) (map2 (\<lambda>ps r. ps @ [e r]) pres rests) (map g rests) =
    map2 (@) pres (map (\<lambda>r. e r # g r) rests)"
  by (induction pres rests rule: list_induct2) auto

lemma fill_loop_spec:
  assumes "length pres = length rests" and "\<forall>ps \<in> set pres. length ps = i"
    and "\<forall>r \<in> set rests. increasing_row r"
  shows "fill_loop fl i (map2 (@) pres rests) =
    Some (map2 (@) pres (map (filled_row fl (sorted_list_of_set (times rests))) rests))"
  using assms
proof (induction "sum_list (map length rests)" arbitrary: i pres rests rule: less_induct)
  case less
  let ?data = "map2 (@) pres rests"
  have more: "i < max_length ?data \<longleftrightarrow> (\<exists>r \<in> set rests. r \<noteq> [])"
    using less.prems(1,2) unfolding less_max_length_iff
    by (induction pres rests rule: list_induct2) auto
  show ?case
  proof (cases "\<exists>r \<in> set rests. r \<noteq> []")
    case False
    then have nil: "\<forall>r \<in> set rests. r = []" by simp
    then have "times rests = {}" by (auto simp: times_def)
    moreover have "map (\<lambda>r. []) rests = rests" using nil by (induction rests) auto
    ultimately show ?thesis
      using False more by (simp add: fill_loop.simps [of fl i ?data] filled_row_def [abs_def])
  next
    case True
    let ?S = "times rests" and ?rests = "map (keep (Fin (Min (times rests)))) rests"
    let ?m = "Min ?S"
    let ?pres = "map2 (\<lambda>ps r. ps @ [emit (Fin ?m) fl r]) pres rests"
    have S: "finite ?S" "?S \<noteq> {}" using True by (auto simp: times_def)
    have x: "fill_x i ?data = Fin ?m"
      using fill_x_rests [OF less.prems(1,2)] heads_min [OF less.prems(3) True] by simp
    have low: "\<forall>t \<in> row_times r. ?m \<le> t" if "r \<in> set rests" for r
      using that S by (auto simp: times_Union intro!: Min_le)
    have times': "times ?rests = ?S - {?m}"
      using row_times_keep low less.prems(3) by (auto simp: times_Union)
    have U: "sorted_list_of_set ?S = ?m # sorted_list_of_set (times ?rests)"
      using sorted_list_of_set_nonempty [OF S] times' by simp
    have "?m \<in> ?S" using S by (rule Min_in)
    then obtain r where r: "r \<in> set rests" "?m \<in> row_times r" by (auto simp: times_Union)
    then have "keep (Fin ?m) r \<noteq> r"
      using row_times_keep [OF _ low] less.prems(3) by fastforce
    then have "length (keep (Fin ?m) r) < length r" by (cases r) (auto simp: keep_def split: if_splits)
    moreover have "length (keep (Fin ?m) r) \<le> length r" for r by (cases r) (auto simp: keep_def)
    ultimately have dec: "sum_list (map length ?rests) < sum_list (map length rests)"
      using sum_list_less [of rests "\<lambda>r. length (keep (Fin ?m) r)" length] r(1)
      by (auto simp: comp_def)
    have "fill_loop fl i ?data = fill_loop fl (Suc i) (map (fill_row i (Fin ?m) fl) ?data)"
      using True more fill_loop.simps [of fl i ?data] by (simp only: x if_True)
    then have step: "fill_loop fl i ?data = fill_loop fl (Suc i) (map2 (@) ?pres ?rests)"
      by (simp only: fill_round [OF less.prems(1,2)])
    have "fill_loop fl (Suc i) (map2 (@) ?pres ?rests) =
      Some (map2 (@) ?pres (map (filled_row fl (sorted_list_of_set (times ?rests))) ?rests))"
    proof (rule less.hyps [OF dec])
      show "length ?pres = length ?rests" using less.prems(1) by simp
      show "\<forall>ps \<in> set ?pres. length ps = Suc i"
        using less.prems(1,2) by (auto dest: set_zip_leftD)
      show "\<forall>r \<in> set ?rests. increasing_row r"
        using less.prems(3) increasing_row_keep by auto
    qed
    moreover have "map (\<lambda>r. emit (Fin ?m) fl r #
          filled_row fl (sorted_list_of_set (times ?rests)) (keep (Fin ?m) r)) rests =
        map (filled_row fl (sorted_list_of_set ?S)) rests"
      using filled_row_step [OF _ low, of _ "sorted_list_of_set (times ?rests)" fl] less.prems(3) S
      by (simp add: U times')
    ultimately show ?thesis
      using step map2_append_snoc [OF less.prems(1), of "emit (Fin ?m) fl"
          "\<lambda>r. filled_row fl (sorted_list_of_set (times ?rests)) (keep (Fin ?m) r)"]
      by (simp add: comp_def)
  qed
qed

section \<open>Properties\<close>

text \<open>
  C20. \<open>Rickshaw.Series.fill\<close> meets its specification: on rows with finite, strictly increasing times
  it returns, and every row becomes the row that has, at each time occurring in any row, its own point
  of that time or a point with the fill value, in increasing order of time.
\<close>

theorem fill_meets_specification:
  assumes "\<forall>it \<in> set its. increasing_row (si_data it)"
  shows "fill its fl = Some (map (\<lambda>it. it\<lparr>si_data :=
      filled_row fl (sorted_list_of_set (times (map si_data its))) (si_data it)\<rparr>) its)"
proof -
  let ?rests = "map si_data its" let ?pres = "map (\<lambda>_. []) its"
  let ?out = "map (filled_row fl (sorted_list_of_set (times ?rests))) ?rests"
  have zip: "map2 (@) (map (\<lambda>_. []) xs) ys = ys" if "length xs = length ys"
    for xs :: "series_item list" and ys :: "point list list"
    using that by (induction xs ys rule: list_induct2) auto
  have "fill_loop fl 0 (map2 (@) ?pres ?rests) = Some (map2 (@) ?pres ?out)"
    by (rule fill_loop_spec) (use assms in auto)
  then have "fill_loop fl 0 ?rests = Some ?out"
    by (simp only: zip length_map)
  moreover have "map2 (\<lambda>it d. it\<lparr>si_data := d\<rparr>) its (map g its) =
      map (\<lambda>it. it\<lparr>si_data := g it\<rparr>) its" for g
    by (induction its) auto
  ultimately show ?thesis by (simp add: fill_def comp_def)
qed

definition gap_rows :: "series_item list" where
  "gap_rows = [\<lparr>si_name = ''a'', si_color = [], si_data = [pt (Fin 1) (Fin 5), pt (Fin 3) (Fin 6)]\<rparr>,
               \<lparr>si_name = ''b'', si_color = [], si_data = [pt (Fin 2) (Fin 7)]\<rparr>]"

theorem fill_meets_specification_witness:
  "fill gap_rows (Fin 0) = Some (map (\<lambda>it. it\<lparr>si_data :=
      filled_row (Fin 0) (sorted_list_of_set (times (map si_data gap_rows))) (si_data it)\<rparr>) gap_rows)"
  by (rule fill_meets_specification) (simp add: gap_rows_def increasing_row_def)

text \<open>
  C21. The filling loop ends on any rows without a NaN time, sorted or not, and all rows then share
  one sequence of times (so they may be stacked).
\<close>

theorem fill_terminates_aligned:
  assumes "\<forall>it \<in> set its. \<forall>p \<in> set (si_data it). px p \<noteq> NaN"
  shows "\<exists>data ts. fill_loop fl 0 (map si_data its) = Some data
    \<and> fill its fl = Some (map2 (\<lambda>it d. it\<lparr>si_data := d\<rparr>) its data)
    \<and> (\<forall>d \<in> set data. map px d = ts)"
proof -
  obtain data ys where "fill_loop fl 0 (map si_data its) = Some data" "\<forall>d \<in> set data. map px d = [] @ ys"
    using fill_loop_returns [of "map si_data its" 0 "[]" fl] assms by auto
  then show ?thesis by (auto simp: fill_def)
qed

theorem fill_terminates_aligned_witness:
  "\<exists>data ts. fill_loop (Fin 0) 0 (map si_data gap_rows) = Some data
    \<and> fill gap_rows (Fin 0) = Some (map2 (\<lambda>it d. it\<lparr>si_data := d\<rparr>) gap_rows data)
    \<and> (\<forall>d \<in> set data. map px d = ts)"
  by (rule fill_terminates_aligned) (simp add: gap_rows_def)

text \<open>
  The filling loop never ends when the first point of some row has the time NaN: each round
  inserts another NaN point in front of it.
\<close>

theorem fill_diverges_on_NaN:
  assumes "it \<in> set its" and "si_data it = p # ps" and "px p = NaN"
  shows "fill its fl = None"
proof -
  have "\<exists>d \<in> set (map si_data its). 0 < length d \<and> px (d ! 0) = NaN"
    using assms by force
  then have "fill_loop fl 0 (map si_data its) = None" by (rule fill_loop_NaN)
  then show ?thesis by (simp add: fill_def)
qed

theorem fill_diverges_on_NaN_witness:
  "fill (\<lparr>si_name = ''n'', si_color = [], si_data = [pt NaN (Fin 0)]\<rparr> # gap_rows) (Fin 0) = None"
  by (rule fill_diverges_on_NaN [of "\<lparr>si_name = ''n'', si_color = [], si_data = [pt NaN (Fin 0)]\<rparr>"
        _ "pt NaN (Fin 0)" "[]"]) simp_all

end
