(* ===== verification/RickshawCore.thy ===== *)
theory RickshawCore
  imports JsText
begin

text \<open>
  The object helpers of the \<open>Rickshaw\<close> namespace: \<open>namespace\<close>, \<open>keys\<close>, \<open>extend\<close> and \<open>clone\<close>, over
  JavaScript values. An object is the list of its own enumerable properties in enumeration order; a
  function is an object with an identity (\<open>Rickshaw.Graph\<close> is both a constructor and the namespace of
  its parts). Properties inherited from \<open>Object.prototype\<close> are not modelled, nor is the reordering of
  integer-like keys.
\<close>

section \<open>Values\<close>

datatype jsval =
    JUndef
  | JNull
  | JBool bool
  | JNum jsnum
  | JStr string
  | JArr "jsval list"
  | JObj "(string \<times> jsval) list"
  | JFun nat "(string \<times> jsval) list"

fun truthy :: "jsval \<Rightarrow> bool" where
  "truthy JUndef = False"
| "truthy JNull = False"
| "truthy (JBool b) = b"
| "truthy (JNum n) = truthy_num n"
| "truthy (JStr s) = (s \<noteq> [])"
| "truthy _ = True"

definition js_or :: "jsval \<Rightarrow> jsval \<Rightarrow> jsval" where
  "js_or a b = (if truthy a then a else b)"

text \<open>Own properties; a primitive value has none.\<close>

fun props :: "jsval \<Rightarrow> (string \<times> jsval) list" where
  "props (JObj ps) = ps"
| "props (JFun _ ps) = ps"
| "props _ = []"

definition get_prop :: "jsval \<Rightarrow> string \<Rightarrow> jsval" where
  "get_prop v k = (case map_of (props v) k of None \<Rightarrow> JUndef | Some w \<Rightarrow> w)"

definition has_prop :: "jsval \<Rightarrow> string \<Rightarrow> bool" where
  "has_prop v k = (k \<in> fst ` set (props v))"

fun set_assoc :: "string \<Rightarrow> jsval \<Rightarrow> (string \<times> jsval) list \<Rightarrow> (string \<times> jsval) list" where
  "set_assoc k v [] = [(k, v)]"
| "set_assoc k v ((k', v') # ps) = (if k' = k then (k, v) # ps else (k', v') # set_assoc k v ps)"

text \<open>Assigning a property of a primitive value has no effect.\<close>

fun set_prop :: "string \<Rightarrow> jsval \<Rightarrow> jsval \<Rightarrow> jsval" where
  "set_prop k v (JObj ps) = JObj (set_assoc k v ps)"
| "set_prop k v (JFun n ps) = JFun n (set_assoc k v ps)"
| "set_prop k v w = w"

fun is_object :: "jsval \<Rightarrow> bool" where
  "is_object (JObj _) = True"
| "is_object (JFun _ _) = True"
| "is_object _ = False"

section \<open>keys and extend\<close>

definition keys :: "jsval \<Rightarrow> string list" where
  "keys obj = map fst (props obj)"

definition extend_obj :: "jsval \<Rightarrow> jsval \<Rightarrow> jsval" where
  "extend_obj destination source =
     fold (\<lambda>property d. set_prop property (get_prop source property) d) (keys source) destination"

section \<open>namespace\<close>

text \<open>
  The loop over the parts after the first: a missing (or false) part becomes an empty object, and the
  walk goes on inside it. The model returns the updated root.
\<close>

fun namespace_parts :: "string list \<Rightarrow> jsval \<Rightarrow> jsval" where
  "namespace_parts [] parent = parent"
| "namespace_parts (part # parts) parent =
     set_prop part (namespace_parts parts (js_or (get_prop parent part) (JObj []))) parent"

definition namespace :: "string \<Rightarrow> jsval \<Rightarrow> jsval" where
  "namespace name rickshaw = namespace_parts (tl (split_on CHR ''.'' name)) rickshaw"

fun lookup_path :: "string list \<Rightarrow> jsval \<Rightarrow> jsval" where
  "lookup_path [] v = v"
| "lookup_path (k # ks) v = lookup_path ks (get_prop v k)"

section \<open>clone\<close>

text \<open>
  \<open>JSON.parse(JSON.stringify(obj))\<close>: \<open>undefined\<close> and functions vanish from objects and become null in
  arrays, the non-finite numbers become null.
\<close>

fun drops :: "jsval \<Rightarrow> bool" where
  "drops JUndef = True"
| "drops (JFun _ _) = True"
| "drops _ = False"

fun clone_val :: "jsval \<Rightarrow> jsval" where
  "clone_val JUndef = JNull"
| "clone_val (JFun _ _) = JNull"
| "clone_val (JNum n) = (if is_fin n then JNum n else JNull)"
| "clone_val (JArr vs) = JArr (map clone_val vs)"
| "clone_val (JObj ps) = JObj (map (\<lambda>(k, v). (k, clone_val v)) (filter (\<lambda>(k, v). \<not> drops v) ps))"
| "clone_val v = v"

text \<open>At the top level a dropped value has no JSON text, and parsing \<open>undefined\<close> throws.\<close>

definition clone :: "jsval \<Rightarrow> jsval js" where
  "clone obj = (if drops obj then Inl (Thrown ''SyntaxError'') else Inr (clone_val obj))"

fun plain_data :: "jsval \<Rightarrow> bool" where
  "plain_data JUndef = False"
| "plain_data (JFun _ _) = False"
| "plain_data (JNum n) = is_fin n"
| "plain_data (JArr vs) = list_all plain_data vs"
| "plain_data (JObj ps) = list_all (\<lambda>(k, v). plain_data v) ps"
| "plain_data v = True"

section \<open>Reading back what was written\<close>

lemma map_of_set_assoc [simp]: "map_of (set_assoc k v ps) = (map_of ps)(k \<mapsto> v)"
  by (induction ps) (auto simp: fun_eq_iff)

lemma props_set_prop: "is_object w \<Longrightarrow> props (set_prop k v w) = set_assoc k v (props w)"
  by (cases w) auto

lemma get_prop_set_prop [simp]:
  "is_object w \<Longrightarrow> get_prop (set_prop k v w) j = (if j = k then v else get_prop w j)"
  by (simp add: get_prop_def props_set_prop)

lemma is_object_set_prop [simp]: "is_object (set_prop k v w) = is_object w"
  by (cases w) auto

lemma is_object_truthy [simp]: "is_object v \<Longrightarrow> truthy v"
  by (cases v) auto

lemma set_assoc_same: "map_of ps k = Some v \<Longrightarrow> set_assoc k v ps = ps"
  by (induction ps) auto

lemma set_prop_same:
  assumes "get_prop w k = v" and "v \<noteq> JUndef"
  shows "set_prop k v w = w"
  using assms by (cases w) (auto simp: get_prop_def set_assoc_same split: option.splits)

lemma has_prop_map_of: "has_prop v k \<longleftrightarrow> map_of (props v) k \<noteq> None"
  by (simp add: has_prop_def map_of_eq_None_iff)

subsection \<open>extend\<close>

lemma extend_fold:
  assumes "is_object d"
  shows "is_object (fold (\<lambda>p d. set_prop p (g p) d) ks d)
    \<and> get_prop (fold (\<lambda>p d. set_prop p (g p) d) ks d) k = (if k \<in> set ks then g k else get_prop d k)"
  using assms by (induction ks arbitrary: d) auto

lemma has_prop_set_prop [simp]: "is_object w \<Longrightarrow> has_prop (set_prop k v w) j \<longleftrightarrow> j = k \<or> has_prop w j"
  by (auto simp: has_prop_map_of props_set_prop)

lemma has_prop_fold:
  "is_object d \<Longrightarrow> has_prop (fold (\<lambda>p d. set_prop p (g p) d) ks d) k \<longleftrightarrow> k \<in> set ks \<or> has_prop d k"
  by (induction ks arbitrary: d) auto

lemma get_prop_extend:
  "is_object d \<Longrightarrow> get_prop (extend_obj d s) k = (if has_prop s k then get_prop s k else get_prop d k)"
  using extend_fold [of d "get_prop s" "keys s"] by (simp add: extend_obj_def keys_def has_prop_def)

lemma is_object_extend: "is_object d \<Longrightarrow> is_object (extend_obj d s)"
  using extend_fold [of d "get_prop s" "keys s"] by (simp add: extend_obj_def)

lemma has_prop_extend: "is_object d \<Longrightarrow> has_prop (extend_obj d s) k \<longleftrightarrow> has_prop s k \<or> has_prop d k"
  using has_prop_fold [of d "get_prop s" "keys s"] by (simp add: extend_obj_def keys_def has_prop_def)

lemma has_prop_keys: "has_prop v k \<longleftrightarrow> k \<in> set (keys v)"
  by (simp add: has_prop_def keys_def)

subsection \<open>namespace\<close>

text \<open>No primitive value stands in the way of the path.\<close>

fun path_free :: "string list \<Rightarrow> jsval \<Rightarrow> bool" where
  "path_free [] v = is_object v"
| "path_free (k # ks) v = (is_object v \<and> (truthy (get_prop v k) \<longrightarrow> path_free ks (get_prop v k)))"

lemma path_free_object: "path_free ks v \<Longrightarrow> is_object v"
  by (cases ks) auto

lemma path_free_empty [simp]: "path_free ks (JObj [])"
  by (cases ks) (auto simp: get_prop_def)

lemma path_free_next: "path_free (k # ks) v \<Longrightarrow> path_free ks (js_or (get_prop v k) (JObj []))"
  by (auto simp: js_or_def)

lemma is_object_namespace: "path_free ks v \<Longrightarrow> is_object (namespace_parts ks v)"
  by (cases ks) auto

lemma namespace_prefix_object:
  assumes "path_free (ks @ js) v"
  shows "is_object (lookup_path ks (namespace_parts (ks @ js) v))"
  using assms
proof (induction ks arbitrary: v)
  case Nil
  then show ?case by (simp add: is_object_namespace)
next
  case (Cons k ks)
  have "path_free (ks @ js) (js_or (get_prop v k) (JObj []))"
    using path_free_next [of k "ks @ js" v] Cons.prems by simp
  with Cons show ?case by simp
qed

lemma namespace_idem: "path_free ks v \<Longrightarrow> namespace_parts ks (namespace_parts ks v) = namespace_parts ks v"
proof (induction ks arbitrary: v)
  case Nil
  then show ?case by simp
next
  case (Cons k ks)
  let ?w = "js_or (get_prop v k) (JObj [])" let ?n = "namespace_parts ks ?w"
  have w: "path_free ks ?w" using Cons.prems path_free_next by blast
  then have obj: "is_object ?n" by (rule is_object_namespace)
  have v: "is_object v" using Cons.prems by simp
  then have "get_prop (namespace_parts (k # ks) v) k = ?n" by simp
  moreover have "js_or ?n (JObj []) = ?n" using obj by (simp add: js_or_def)
  ultimately have "namespace_parts (k # ks) (namespace_parts (k # ks) v) =
      set_prop k ?n (namespace_parts (k # ks) v)"
    using Cons.IH [OF w] by simp
  also have "\<dots> = namespace_parts (k # ks) v"
    by (rule set_prop_same) (use v obj in \<open>cases ?n; simp\<close>)+
  finally show ?case .
qed

lemma lookup_path_undef [simp]: "lookup_path ks JUndef = JUndef"
  by (induction ks) (auto simp: get_prop_def)

lemma lookup_path_falsy: "\<not> truthy v \<Longrightarrow> \<not> truthy (lookup_path ks v)"
  by (cases ks; cases v) (auto simp: get_prop_def)

lemma namespace_keeps_leaves:
  assumes "path_free ks v" and "truthy (lookup_path q v)" and "\<not> is_object (lookup_path q v)"
  shows "lookup_path q (namespace_parts ks v) = lookup_path q v"
  using assms
proof (induction ks arbitrary: v q)
  case Nil
  then show ?case by simp
next
  case (Cons k ks)
  have v: "is_object v" using Cons.prems(1) by simp
  show ?case
  proof (cases q)
    case Nil
    with Cons.prems v show ?thesis by simp
  next
    case (Cons j js)
    show ?thesis
    proof (cases "j = k")
      case False
      with Cons v show ?thesis by simp
    next
      case True
      let ?w = "get_prop v k"
      have tr: "truthy ?w"
        using Cons.prems(2) lookup_path_falsy [of ?w js] Cons True by auto
      then have "path_free ks ?w" using Cons.prems(1) by simp
      then show ?thesis
        using Cons.IH [of ?w js] Cons.prems(2,3) Cons True v tr by (simp add: js_or_def)
    qed
  qed
qed

subsection \<open>clone\<close>

lemma plain_not_drops: "plain_data v \<Longrightarrow> \<not> drops v"
  by (cases v) auto

lemma clone_val_plain: "plain_data v \<Longrightarrow> clone_val v = v"
proof (induction v rule: clone_val.induct)
  case (4 vs)
  then show ?case by (auto simp: list_all_iff intro: map_idI)
next
  case (5 ps)
  then have "filter (\<lambda>(k, v). \<not> drops v) ps = ps"
    using plain_not_drops by (fastforce simp: list_all_iff filter_id_conv)
  with 5 show ?case by (fastforce simp: list_all_iff intro: map_idI)
qed auto

lemma plain_clone_val: "plain_data (clone_val v)"
proof (induction v rule: clone_val.induct)
  case (4 vs)
  then show ?case by (simp add: list_all_iff)
next
  case (5 ps)
  then show ?case by (fastforce simp: list_all_iff)
qed auto

section \<open>Properties\<close>

text \<open>
  \<open>Rickshaw.namespace\<close> makes every prefix of the dotted path an object, leaves every value already
  reachable that is not an object where it was, and changes nothing when repeated; this holds whenever no
  primitive value stands on the path.
\<close>

theorem namespace_creates_path:
  assumes "path_free (tl (split_on CHR ''.'' name)) r"
  shows "(\<forall>ks js. tl (split_on CHR ''.'' name) = ks @ js \<longrightarrow> is_object (lookup_path ks (namespace name r)))
    \<and> (\<forall>q. truthy (lookup_path q r) \<and> \<not> is_object (lookup_path q r) \<longrightarrow>
          lookup_path q (namespace name r) = lookup_path q r)
    \<and> namespace name (namespace name r) = namespace name r"
  using assms namespace_prefix_object namespace_keeps_leaves namespace_idem
  by (auto simp: namespace_def)

theorem namespace_creates_path_witness:
  "is_object (lookup_path [''Graph'', ''Axis''] (namespace ''Rickshaw.Graph.Axis.X''
      (JObj [(''version'', JStr ''1.6.6''), (''Graph'', JFun 7 [])])))
   \<and> lookup_path [''version''] (namespace ''Rickshaw.Graph.Axis.X''
      (JObj [(''version'', JStr ''1.6.6''), (''Graph'', JFun 7 [])])) = JStr ''1.6.6''"
proof -
  let ?r = "JObj [(''version'', JStr ''1.6.6''), (''Graph'', JFun 7 [])]"
  have parts: "tl (split_on CHR ''.'' ''Rickshaw.Graph.Axis.X'') = [''Graph'', ''Axis''] @ [''X'']"
    by simp
  have "path_free (tl (split_on CHR ''.'' ''Rickshaw.Graph.Axis.X'')) ?r"
    by (simp add: get_prop_def)
  note main = namespace_creates_path [OF this]
  from main parts have "is_object (lookup_path [''Graph'', ''Axis''] (namespace ''Rickshaw.Graph.Axis.X'' ?r))"
    by blast
  moreover have leaf: "lookup_path [''version''] ?r = JStr ''1.6.6''" by (simp add: get_prop_def)
  with main have "lookup_path [''version''] (namespace ''Rickshaw.Graph.Axis.X'' ?r) = JStr ''1.6.6''"
    using conjunct1 [OF conjunct2 [OF main], rule_format, of "[''version'']"]
    by (simp only: leaf truthy.simps is_object.simps) simp
  ultimately show ?thesis by blast
qed

text \<open>
  \<open>Rickshaw.extend\<close>: the destination has the source's value for every property of the source and
  keeps its own value for every other.
\<close>

theorem extend_overrides:
  assumes "is_object d"
  shows "get_prop (extend_obj d s) k = (if has_prop s k then get_prop s k else get_prop d k)"
  using assms by (rule get_prop_extend)

theorem extend_overrides_witness:
  "get_prop (extend_obj (JObj [(''fill'', JBool False)]) (JObj [(''fill'', JBool True)])) ''fill'' = JBool True"
  using extend_overrides [of "JObj [(''fill'', JBool False)]" "JObj [(''fill'', JBool True)]" "''fill''"]
  by (simp add: has_prop_def get_prop_def)

text \<open>
  \<open>Rickshaw.clone\<close> copies plain data exactly, and whatever it returns is plain data; cloning again
  changes nothing.
\<close>

theorem clone_plain:
  assumes "clone v = Inr w"
  shows "plain_data w \<and> clone w = Inr w \<and> (plain_data v \<longrightarrow> w = v)"
proof -
  have w: "w = clone_val v" using assms by (simp add: clone_def split: if_splits)
  then have "plain_data w" by (simp add: plain_clone_val)
  then show ?thesis
    using w by (auto simp: clone_def clone_val_plain dest: plain_not_drops)
qed

theorem clone_plain_witness:
  "plain_data (JArr [JNum (Fin 3), JNull]) \<and> clone (JArr [JNum (Fin 3), JNull]) = Inr (JArr [JNum (Fin 3), JNull])"
  using clone_plain [of "JArr [JNum (Fin 3), JNum NaN]" "JArr [JNum (Fin 3), JNull]"]
  by (simp add: clone_def)

end
