(* ===== verification/GraphData.thy ===== *)
theory GraphData
  imports RickshawCore SeriesData
begin

text \<open>
  The data path of \<open>Rickshaw.Graph\<close>: \<open>validateSeries\<close>, \<open>_slice\<close>, \<open>_validateStackable\<close> and \<open>stackData\<close>,
  which turns the series of a graph into the rows a renderer draws.

  \<open>stackData\<close> works on the point objects of the series in place unless a copy was asked for, so points
  live in an explicit store: \<open>heap\<close> is the list of all point objects, an address is a position in it, a
  row is a list of addresses, and \<open>Rickshaw.clone\<close> allocates. The stack layout of d3 and the hooks that
  extensions install are functions on rows and store; what they may touch is the locale \<open>row_pass\<close>.
\<close>

section \<open>validateSeries\<close>

text \<open>
  The series argument comes from the caller unchecked, so it is a JavaScript value. Relational
  comparison converts primitive values other than strings to numbers; how strings and objects compare
  is the argument \<open>cmp\<close>. A thrown text keeps its fixed part; the printed value behind it is left out.
\<close>

fun prim_num :: "jsval \<Rightarrow> jsnum option" where
  "prim_num JUndef = Some NaN"
| "prim_num JNull = Some (Fin 0)"
| "prim_num (JBool b) = Some (if b then Fin 1 else Fin 0)"
| "prim_num (JNum n) = Some n"
| "prim_num _ = None"

definition js_less :: "(jsval \<Rightarrow> jsval \<Rightarrow> bool) \<Rightarrow> jsval \<Rightarrow> jsval \<Rightarrow> bool" where
  "js_less cmp a b =
     (case (prim_num a, prim_num b) of (Some m, Some n) \<Rightarrow> m < n | _ \<Rightarrow> cmp a b)"

fun is_number :: "jsval \<Rightarrow> bool" where
  "is_number (JNum _) = True"
| "is_number _ = False"

text \<open>\<open>v.k\<close>: a property of \<open>undefined\<close> or \<open>null\<close> is a type error.\<close>

definition member :: "jsval \<Rightarrow> string \<Rightarrow> jsval js" where
  "member v k = (if v = JUndef \<or> v = JNull then Inl TypeError else Inr (get_prop v k))"

definition unordered_row :: "(jsval \<Rightarrow> jsval \<Rightarrow> bool) \<Rightarrow> jsval list \<Rightarrow> bool js" where
  "unordered_row cmp data =
     js_bind (member (data ! 2) ''x'') (\<lambda>x2. js_bind (member (data ! 1) ''x'') (\<lambda>x1.
       if js_less cmp x2 x1 then Inr True
       else js_bind (member (data ! 0) ''x'') (\<lambda>x0.
         if js_less cmp x1 x0 then Inr True
         else js_bind (member (last data) ''x'') (\<lambda>xn. Inr (js_less cmp xn x0)))))"

definition validate_data :: "(jsval \<Rightarrow> jsval \<Rightarrow> bool) \<Rightarrow> jsval list \<Rightarrow> unit js" where
  "validate_data cmp data =
     js_bind
       (if 0 < length data
        then js_bind (member (data ! 0) ''x'') (\<lambda>x. js_bind (member (data ! 0) ''y'') (\<lambda>y.
          if \<not> is_number x \<or> (\<not> is_number y \<and> y \<noteq> JNull)
          then Inl (Thrown ''x and y properties of points should be numbers'') else Inr ()))
        else Inr ())
       (\<lambda>_. if 3 \<le> length data
            then js_bind (unordered_row cmp data) (\<lambda>bad.
              if bad then Inl (Thrown ''series data needs to be sorted on x values'') else Inr ())
            else Inr ())"

definition validate_element :: "(jsval \<Rightarrow> jsval \<Rightarrow> bool) \<Rightarrow> jsval \<Rightarrow> unit js" where
  "validate_element cmp s =
     (case s of
        JArr _ \<Rightarrow> Inl (Thrown ''series has no data'')
      | JObj _ \<Rightarrow>
          (if \<not> truthy (get_prop s ''data'') then Inl (Thrown ''series has no data'')
           else case get_prop s ''data'' of JArr d \<Rightarrow> validate_data cmp d
                | _ \<Rightarrow> Inl (Thrown ''series data is not an array''))
      | JFun _ _ \<Rightarrow>
          (if \<not> truthy (get_prop s ''data'') then Inl (Thrown ''series has no data'')
           else case get_prop s ''data'' of JArr d \<Rightarrow> validate_data cmp d
                | _ \<Rightarrow> Inl (Thrown ''series data is not an array''))
      | _ \<Rightarrow> Inl (Thrown ''series element is not an object''))"

definition validateSeries :: "(jsval \<Rightarrow> jsval \<Rightarrow> bool) \<Rightarrow> jsval \<Rightarrow> unit js" where
  "validateSeries cmp series =
     (case series of JArr ss \<Rightarrow> for_each (\<lambda>s _. validate_element cmp s) ss ()
      | _ \<Rightarrow> Inl (Thrown ''series is not an array''))"

text \<open>The rows of a \<open>Rickshaw.Series\<close> as the value \<open>validateSeries\<close> sees.\<close>

definition point_val :: "point \<Rightarrow> jsval" where
  "point_val p = JObj [(''x'', JNum (px p)), (''y'', case py p of None \<Rightarrow> JNull | Some y \<Rightarrow> JNum y)]"

definition item_val :: "series_item \<Rightarrow> jsval" where
  "item_val it = JObj [(''name'', JStr (si_name it)), (''color'', JStr (si_color it)),
     (''data'', JArr (map point_val (si_data it)))]"

definition series_val :: "series_item list \<Rightarrow> jsval" where
  "series_val its = JArr (map item_val its)"

section \<open>The data of a graph\<close>

type_synonym heap = "point list"
type_synonym rows = "nat list list"
type_synonym pass = "rows \<Rightarrow> heap \<Rightarrow> rows \<times> heap"

record gseries =
  gs_name :: string
  gs_data :: "nat list"
  gs_disabled :: bool
  gs_scale :: "(jsnum option \<Rightarrow> jsnum option) option"
  gs_stack :: "nat list option"

record graph_data =
  heap :: heap
  gseries :: "gseries list"
  win_xMin :: "jsnum option"
  win_xMax :: "jsnum option"
  preserve :: bool
  unstack :: bool
  offset :: string
  data_hooks :: "pass list"
  after_hooks :: "pass list"
  stackedData :: "rows option"

definition slice :: "'a graph_data_scheme \<Rightarrow> point \<Rightarrow> bool" where
  "slice g d =
     (if truthy_opt (win_xMin g) \<or> truthy_opt (win_xMax g)
      then \<not> (truthy_opt (win_xMin g) \<and> px d < the (win_xMin g))
         \<and> \<not> (truthy_opt (win_xMax g) \<and> the (win_xMax g) < px d)
      else True)"

definition active :: "gseries list \<Rightarrow> gseries list" where
  "active ss = filter (\<lambda>s. \<not> gs_disabled s) ss"

fun validate_lengths :: "nat \<Rightarrow> nat list \<Rightarrow> unit js" where
  "validate_lengths pointsCount [] = Inr ()"
| "validate_lengths pointsCount (n # ns) =
     (let c = (if pointsCount \<noteq> 0 then pointsCount else n) in
      if c \<noteq> 0 \<and> n \<noteq> c
      then Inl (Thrown (''stacked series cannot have differing numbers of points: '' @ nat_str c @ '' vs ''
             @ nat_str n @ ''; see Rickshaw.Series.fill()''))
      else validate_lengths c ns)"

definition validateStackable :: "gseries list \<Rightarrow> unit js" where
  "validateStackable ss = validate_lengths 0 (map (length \<circ> gs_data) ss)"

section \<open>stackData\<close>

text \<open>
  \<open>Rickshaw.clone\<close> of a point: a value that is not finite becomes null. A null \<open>y\<close> is \<open>None\<close>; a null
  time or \<open>y0\<close> acts as zero in every later use of it.
\<close>

definition clone_point :: "point \<Rightarrow> point" where
  "clone_point p = p\<lparr>px := (if is_fin (px p) then px p else Fin 0),
     py := (case py p of Some y \<Rightarrow> (if is_fin y then Some y else None) | None \<Rightarrow> None),
     py0 := (case py0 p of Some z \<Rightarrow> Some (if is_fin z then z else Fin 0) | None \<Rightarrow> None)\<rparr>"

fun clone_rows :: "rows \<Rightarrow> heap \<Rightarrow> rows \<times> heap" where
  "clone_rows [] h = ([], h)"
| "clone_rows (r # rs) h =
     (let (rs', h') = clone_rows rs (h @ map (\<lambda>a. clone_point (h ! a)) r)
      in ([length h ..< length h + length r] # rs', h'))"

definition upd_points :: "(point \<Rightarrow> point) \<Rightarrow> nat list \<Rightarrow> heap \<Rightarrow> heap" where
  "upd_points f as h = fold (\<lambda>a h. h[a := f (h ! a)]) as h"

definition scale_point :: "(jsnum option \<Rightarrow> jsnum option) \<Rightarrow> point \<Rightarrow> point" where
  "scale_point f p = p\<lparr>py := f (py p)\<rparr>"

definition default_y0 :: "point \<Rightarrow> point" where
  "default_y0 p = p\<lparr>py0 := (case py0 p of None \<Rightarrow> Some (Fin 0) | Some z \<Rightarrow> Some z)\<rparr>"

text \<open>\<open>data[index]\<close> goes with the series at the same position.\<close>

fun apply_scales :: "gseries list \<Rightarrow> rows \<Rightarrow> heap \<Rightarrow> heap" where
  "apply_scales (s # ss) (r # rs) h =
     apply_scales ss rs (case gs_scale s of None \<Rightarrow> h | Some f \<Rightarrow> upd_points (scale_point f) r h)"
| "apply_scales _ _ h = h"

definition default_rows :: pass where
  "default_rows rs h = (rs, fold (upd_points default_y0) rs h)"

fun assign_stacks :: "gseries list \<Rightarrow> rows \<Rightarrow> gseries list" where
  "assign_stacks [] rs = []"
| "assign_stacks (s # ss) rs =
     (if gs_disabled s then s # assign_stacks ss rs
      else (case rs of
              [] \<Rightarrow> s\<lparr>gs_stack := None\<rparr> # assign_stacks ss []
            | r # rs' \<Rightarrow> s\<lparr>gs_stack := Some r\<rparr> # assign_stacks ss rs'))"

definition sliced_rows :: "'a graph_data_scheme \<Rightarrow> rows" where
  "sliced_rows g = map (\<lambda>s. filter (\<lambda>a. slice g (heap g ! a)) (gs_data s)) (active (gseries g))"

definition preserving :: "'a graph_data_scheme \<Rightarrow> bool" where
  "preserving g = (preserve g \<or> (\<exists>s \<in> set (gseries g). gs_scale s \<noteq> None))"

text \<open>The rows after the copy and the scales, then after the hooks on the data.\<close>

definition scaled_rows :: "'a graph_data_scheme \<Rightarrow> rows \<times> heap" where
  "scaled_rows g =
     (let (data, h) = (if preserving g then clone_rows (sliced_rows g) (heap g) else (sliced_rows g, heap g))
      in (data, apply_scales (active (gseries g)) data h))"

definition run_data_hooks :: "pass list \<Rightarrow> rows \<times> heap \<Rightarrow> rows \<times> heap" where
  "run_data_hooks hs d = fold (\<lambda>f (d, h). f d h) hs d"

text \<open>Every hook of the second kind gets the data, not the stacked data, and replaces the result.\<close>

definition run_after_hooks :: "pass list \<Rightarrow> rows \<Rightarrow> rows \<times> heap \<Rightarrow> rows \<times> heap" where
  "run_after_hooks hs data sd = fold (\<lambda>f (_, h). f data h) hs sd"

definition stackData :: "(string \<Rightarrow> pass) \<Rightarrow> 'a graph_data_scheme \<Rightarrow> 'a graph_data_scheme js" where
  "stackData layout g =
     (let (data, h) = run_data_hooks (data_hooks g) (scaled_rows g) in
      js_bind (if unstack g then Inr (default_rows data h)
               else js_bind (validateStackable (gseries g)) (\<lambda>_. Inr (layout (offset g) data h)))
        (\<lambda>sd. let (stacked, h') = run_after_hooks (after_hooks g) data sd in
              Inr (g\<lparr>heap := h', gseries := assign_stacks (gseries g) stacked,
                     stackedData := Some stacked\<rparr>)))"

section \<open>Updating points\<close>

lemma length_upd_points [simp]: "length (upd_points f as h) = length h"
  by (induction as arbitrary: h) (auto simp: upd_points_def)

lemma upd_points_Cons [simp]:
  "upd_points f [] h = h" "upd_points f (a # as) h = upd_points f as (h[a := f (h ! a)])"
  by (simp_all add: upd_points_def)

lemma upd_points_other: "a \<notin> set as \<Longrightarrow> upd_points f as h ! a = h ! a"
  by (induction as arbitrary: h) auto

lemma upd_points_row:
  "distinct as \<Longrightarrow> \<forall>a \<in> set as. a < length h \<Longrightarrow> a \<in> set as \<Longrightarrow> upd_points f as h ! a = f (h ! a)"
  by (induction as arbitrary: h) (auto simp: upd_points_other nth_list_update)

lemma length_default_rows [simp]: "length (fold (upd_points f) rs h) = length h"
  by (induction rs arbitrary: h) auto

lemma fold_upd_points:
  assumes "distinct (concat rs)" and "\<forall>a \<in> set (concat rs). a < length h"
  shows "fold (upd_points f) rs h ! a = (if a \<in> set (concat rs) then f (h ! a) else h ! a)"
  using assms
proof (induction rs arbitrary: h)
  case Nil
  then show ?case by simp
next
  case (Cons r rs)
  have out: "x \<notin> set (concat rs)" if "x \<in> set r" for x
    using that Cons.prems(1) by auto
  have "fold (upd_points f) rs (upd_points f r h) ! a =
      (if a \<in> set (concat rs) then f (upd_points f r h ! a) else upd_points f r h ! a)"
    by (rule Cons.IH) (use Cons.prems in auto)
  moreover have "upd_points f r h ! a = (if a \<in> set r then f (h ! a) else h ! a)"
    using Cons.prems upd_points_row [of r h a f] upd_points_other [of a r f h] by simp
  ultimately show ?case using out [of a] by simp
qed

lemma fold_upd_other: "a \<notin> set (concat rs) \<Longrightarrow> fold (upd_points f) rs h ! a = h ! a"
  by (induction rs arbitrary: h) (auto simp: upd_points_other)

lemma length_apply_scales [simp]: "length (apply_scales ss rs h) = length h"
  by (induction ss rs h rule: apply_scales.induct) (auto split: option.splits)

lemma apply_scales_other: "a \<notin> set (concat rs) \<Longrightarrow> apply_scales ss rs h ! a = h ! a"
  by (induction ss rs h rule: apply_scales.induct) (auto simp: upd_points_other split: option.splits)

definition scaled :: "gseries \<Rightarrow> point \<Rightarrow> point" where
  "scaled s p = (case gs_scale s of None \<Rightarrow> p | Some f \<Rightarrow> scale_point f p)"

lemma apply_scales_rows:
  assumes "distinct (concat rs)" and "\<forall>a \<in> set (concat rs). a < length h" and "length ss = length rs"
  shows "map (map ((!) (apply_scales ss rs h))) rs = map2 (\<lambda>s r. map (\<lambda>a. scaled s (h ! a)) r) ss rs"
  using assms
proof (induction ss rs h rule: apply_scales.induct)
  case (1 s ss r rs h)
  let ?h = "case gs_scale s of None \<Rightarrow> h | Some f \<Rightarrow> upd_points (scale_point f) r h"
  have len: "length ?h = length h" by (simp split: option.splits)
  have out: "a \<notin> set (concat rs)" if "a \<in> set r" for a
    using that "1.prems"(1) by auto
  have row: "map ((!) (apply_scales ss rs ?h)) r = map (\<lambda>a. scaled s (h ! a)) r"
    using out "1.prems" by (simp add: apply_scales_other upd_points_row scaled_def split: option.splits)
  have rest: "?h ! a = h ! a" if "a \<in> set (concat rs)" for a
    using out [of a] that upd_points_other [of a r] by (auto split: option.splits)
  have "map (map ((!) (apply_scales ss rs ?h))) rs = map2 (\<lambda>s r. map (\<lambda>a. scaled s (?h ! a)) r) ss rs"
    using 1 len by simp
  also have "\<dots> = map2 (\<lambda>s r. map (\<lambda>a. scaled s (h ! a)) r) ss rs"
    using rest by (fastforce dest: set_zip_rightD)
  finally show ?case using row by simp
qed auto

section \<open>Copying\<close>

lemma clone_rows_spec:
  assumes "\<forall>a \<in> set (concat rs). a < length h" and "clone_rows rs h = (rs', h')"
  shows "concat rs' = [length h ..< length h'] \<and> take (length h) h' = h \<and> length h \<le> length h'
    \<and> map (map ((!) h')) rs' = map (map (\<lambda>a. clone_point (h ! a))) rs"
  using assms
proof (induction rs arbitrary: h rs' h')
  case Nil
  then show ?case by simp
next
  case (Cons r rs)
  let ?h = "h @ map (\<lambda>a. clone_point (h ! a)) r"
  obtain rs2 h2 where c: "clone_rows rs ?h = (rs2, h2)" by fastforce
  then have eqs: "rs' = [length h ..< length h + length r] # rs2" "h' = h2" using Cons.prems(2) by auto
  have "\<forall>a \<in> set (concat rs). a < length ?h" using Cons.prems(1) by (auto intro: trans_less_add1)
  from Cons.IH [OF this c] have ih: "concat rs2 = [length ?h ..< length h2]" "take (length ?h) h2 = ?h"
    "length ?h \<le> length h2" "map (map ((!) h2)) rs2 = map (map (\<lambda>a. clone_point (?h ! a))) rs" by auto
  have old: "take (length h) h2 = h"
    by (metis append_eq_conv_conj ih(2) take_take min.absorb1 length_append le_add1)
  have row: "map ((!) h2) [length h ..< length h + length r] = map (\<lambda>a. clone_point (h ! a)) r"
  proof (rule nth_equalityI)
    fix i assume "i < length (map ((!) h2) [length h ..< length h + length r])"
    then have i: "i < length r" by simp
    then have "h2 ! (length h + i) = take (length ?h) h2 ! (length h + i)" by simp
    also have "\<dots> = clone_point (h ! (r ! i))" using i by (simp only: ih(2) nth_append) simp
    finally show "map ((!) h2) [length h ..< length h + length r] ! i = map (\<lambda>a. clone_point (h ! a)) r ! i"
      using i by simp
  qed simp
  have "map (map (\<lambda>a. clone_point (?h ! a))) rs = map (map (\<lambda>a. clone_point (h ! a))) rs"
    using Cons.prems(1) by (auto simp: nth_append)
  moreover have "[length h ..< length h2] = [length h ..< length h + length r] @ [length h + length r ..< length h2]"
    using ih(3) by (metis le_add1 le_Suc_ex upt_add_eq_append length_append length_map)
  ultimately show ?case using ih old row eqs by simp
qed

section \<open>What a pass over the rows may touch\<close>

text \<open>
  \<open>private_rows n d h\<close>: every point the rows mention was allocated at or after \<open>n\<close>. A pass that is given private
  rows returns private rows and writes nothing before \<open>n\<close>.
\<close>

definition private_rows :: "nat \<Rightarrow> rows \<Rightarrow> heap \<Rightarrow> bool" where
  "private_rows n d h = (n \<le> length h \<and> (\<forall>a \<in> set (concat d). n \<le> a \<and> a < length h))"

locale row_pass =
  fixes f :: pass
  assumes private_kept: "private_rows n d h \<Longrightarrow> f d h = (d', h') \<Longrightarrow> private_rows n d' h' \<and> take n h' = take n h"
    and grows: "f d h = (d', h') \<Longrightarrow> length h \<le> length h'"
begin

lemma argument_stays_private:
  "private_rows n d h \<Longrightarrow> f e h = (d', h') \<Longrightarrow> private_rows n d h'"
  using grows [of e h d' h'] by (fastforce simp: private_rows_def)

lemma private_steps:
  "private_rows n d h \<Longrightarrow> f d h = (d', h') \<Longrightarrow> private_rows n d' h' \<and> private_rows n d h' \<and> take n h' = take n h"
  using private_kept argument_stays_private by blast

end

lemma take_eq_below:
  "n \<le> length h \<Longrightarrow> length h' = length h \<Longrightarrow> (\<And>a. a < n \<Longrightarrow> h' ! a = h ! a) \<Longrightarrow> take n h' = take n h"
  by (rule nth_equalityI) auto

interpretation y0_pass: row_pass default_rows
proof
  fix n d h d' h'
  assume p: "private_rows n d h" and e: "default_rows d h = (d', h')"
  then have "h' ! a = h ! a" if "a < n" for a
  proof -
    have "a \<notin> set (concat d)" using p that by (fastforce simp: private_rows_def)
    with e show ?thesis using fold_upd_other by (auto simp: default_rows_def)
  qed
  with p e show "private_rows n d' h' \<and> take n h' = take n h"
    by (auto simp: default_rows_def private_rows_def intro!: take_eq_below)
next
  fix d h d' h'
  assume "default_rows d h = (d', h')"
  then show "length h \<le> length h'" by (auto simp: default_rows_def)
qed

lemma run_data_hooks_private:
  assumes "\<forall>f \<in> set hs. row_pass f" and "private_rows n d h" and "run_data_hooks hs (d, h) = (d', h')"
  shows "private_rows n d' h' \<and> take n h' = take n h"
  using assms
proof (induction hs arbitrary: d h)
  case Nil
  then show ?case by (simp add: run_data_hooks_def)
next
  case (Cons f hs)
  obtain d1 h1 where f: "f d h = (d1, h1)" by fastforce
  have "row_pass f" using Cons.prems(1) by simp
  from row_pass.private_kept [OF this Cons.prems(2) f] Cons.IH [of d1 h1] Cons.prems f
  show ?case by (simp add: run_data_hooks_def)
qed

lemma run_after_hooks_private:
  assumes "\<forall>f \<in> set hs. row_pass f" and "private_rows n data h" and "private_rows n d h"
    and "run_after_hooks hs data (d, h) = (d', h')"
  shows "private_rows n d' h' \<and> take n h' = take n h"
  using assms
proof (induction hs arbitrary: d h)
  case Nil
  then show ?case by (simp add: run_after_hooks_def)
next
  case (Cons f hs)
  obtain d1 h1 where f: "f data h = (d1, h1)" by fastforce
  have "row_pass f" using Cons.prems(1) by simp
  from row_pass.private_steps [OF this Cons.prems(2) f] Cons.IH [of h1 d1] Cons.prems f
  show ?case by (simp add: run_after_hooks_def)
qed

section \<open>What stackData computes\<close>

text \<open>The points that the graph shows of each active series, computed from the series alone.\<close>

definition shown_points :: "'a graph_data_scheme \<Rightarrow> point list list" where
  "shown_points g =
     map (\<lambda>s. map (\<lambda>p. default_y0 (scaled s (clone_point p)))
                (filter (slice g) (map ((!) (heap g)) (gs_data s))))
       (active (gseries g))"

definition valid_addresses :: "'a graph_data_scheme \<Rightarrow> bool" where
  "valid_addresses g = (\<forall>s \<in> set (gseries g). \<forall>a \<in> set (gs_data s). a < length (heap g))"

lemma sliced_rows_valid:
  "valid_addresses g \<Longrightarrow> \<forall>a \<in> set (concat (sliced_rows g)). a < length (heap g)"
  by (auto simp: valid_addresses_def sliced_rows_def active_def)

lemma assign_stacks_data [simp]: "map gs_data (assign_stacks ss rs) = map gs_data ss"
  by (induction ss rs rule: assign_stacks.induct) (auto split: list.splits)

lemma assign_stacks_frame:
  "map (\<lambda>s. s\<lparr>gs_stack := None\<rparr>) (assign_stacks ss rs) = map (\<lambda>s. s\<lparr>gs_stack := None\<rparr>) ss"
  by (induction ss rs rule: assign_stacks.induct) (auto split: list.splits)

lemma assign_stacks_active:
  "length rs = length (active ss) \<Longrightarrow> map gs_stack (active (assign_stacks ss rs)) = map Some rs"
  by (induction ss rs rule: assign_stacks.induct) (auto simp: active_def split: list.splits if_splits)

lemma scaled_rows_private:
  assumes "valid_addresses g" and "preserving g" and "scaled_rows g = (d, h)"
  shows "private_rows (length (heap g)) d h \<and> take (length (heap g)) h = heap g
    \<and> distinct (concat d) \<and> length d = length (active (gseries g))
    \<and> map (map ((!) h)) d =
        map (\<lambda>s. map (\<lambda>a. scaled s (clone_point (heap g ! a))) (filter (\<lambda>a. slice g (heap g ! a)) (gs_data s)))
          (active (gseries g))"
proof -
  obtain h0 where c: "clone_rows (sliced_rows g) (heap g) = (d, h0)"
    and h: "h = apply_scales (active (gseries g)) d h0"
    using assms(2,3) by (auto simp: scaled_rows_def split: prod.splits)
  from clone_rows_spec [OF sliced_rows_valid [OF assms(1)] c]
  have cat: "concat d = [length (heap g) ..< length h0]" and old: "take (length (heap g)) h0 = heap g"
    and le: "length (heap g) \<le> length h0"
    and vals: "map (map ((!) h0)) d = map (map (\<lambda>a. clone_point (heap g ! a))) (sliced_rows g)" by auto
  have "length (map (map ((!) h0)) d) = length (sliced_rows g)" by (simp only: vals length_map)
  then have len: "length d = length (active (gseries g))" by (simp add: sliced_rows_def)
  have dist: "distinct (concat d)" by (simp add: cat del: concat_eq_concat_iff)
  have bound: "\<forall>a \<in> set (concat d). a < length h0" by (simp only: cat) simp
  have "take (length (heap g)) h = take (length (heap g)) h0"
    unfolding h by (rule take_eq_below) (use le in \<open>auto intro!: apply_scales_other simp: cat simp del: set_concat\<close>)
  moreover have "map (map ((!) h)) d = map2 (\<lambda>s r. map (scaled s) r) (active (gseries g)) (map (map ((!) h0)) d)"
    unfolding h using apply_scales_rows [OF dist bound len [symmetric]]
    by (simp add: zip_map2 case_prod_unfold comp_def)
  moreover have "private_rows (length (heap g)) d h"
    unfolding private_rows_def using h le by (simp only: cat) simp
  ultimately show ?thesis
    using old dist len by (simp add: vals sliced_rows_def zip_map2 zip_same_conv_map case_prod_unfold comp_def)
qed

lemma stackData_returns: "unstack g \<Longrightarrow> \<exists>g'. stackData layout g = Inr g'"
  by (simp add: stackData_def split: prod.splits)

section \<open>Properties\<close>

text \<open>
  C6. When a copy is asked for, or any series has a scale, \<open>stackData\<close> leaves every point object that
  existed before untouched and gives every active series a stack of new points only, whatever hooks are
  installed and whichever layout runs, as long as these write only to the rows they are given.
\<close>

theorem stackData_preserves_points:
  assumes run: "stackData layout g = Inr g'"
    and valid: "valid_addresses g" and pres: "preserving g"
    and hooks: "\<forall>f \<in> set (data_hooks g @ after_hooks g). row_pass f" and lay: "row_pass (layout (offset g))"
  shows "take (length (heap g)) (heap g') = heap g
    \<and> map gs_data (gseries g') = map gs_data (gseries g)
    \<and> (\<exists>rs. stackedData g' = Some rs \<and> private_rows (length (heap g)) rs (heap g'))"
proof -
  let ?n = "length (heap g)"
  obtain d0 h0 where sc: "scaled_rows g = (d0, h0)" by fastforce
  obtain d h where dh: "run_data_hooks (data_hooks g) (d0, h0) = (d, h)" by fastforce
  obtain sd sh where s: "(if unstack g then default_rows d h else layout (offset g) d h) = (sd, sh)" by fastforce
  obtain rs h' where a: "run_after_hooks (after_hooks g) d (sd, sh) = (rs, h')" by fastforce
  have p0: "private_rows ?n d0 h0" "take ?n h0 = heap g" using scaled_rows_private [OF valid pres sc] by auto
  have p1: "private_rows ?n d h" "take ?n h = heap g"
    using run_data_hooks_private [OF _ p0(1) dh] hooks p0(2) by auto
  have p2: "private_rows ?n sd sh" "private_rows ?n d sh" "take ?n sh = heap g"
    using s p1 y0_pass.private_steps [OF p1(1)] row_pass.private_steps [OF lay p1(1)] by (auto split: if_splits)
  have p3: "private_rows ?n rs h'" "take ?n h' = heap g"
    using run_after_hooks_private [OF _ p2(2,1) a] hooks p2(3) by auto
  have "g' = g\<lparr>heap := h', gseries := assign_stacks (gseries g) rs, stackedData := Some rs\<rparr>"
    using run sc dh s a by (auto simp: stackData_def js_bind_Inr_iff split: if_splits)
  with p3 show ?thesis by simp
qed

definition scale_half :: "jsnum option \<Rightarrow> jsnum option" where
  "scale_half y = map_option (\<lambda>v. v / Fin 2) y"

definition sample_graph :: graph_data where
  "sample_graph =
     \<lparr>heap = [pt (Fin 1) (Fin 8), pt (Fin 2) (Fin 4), pt (Fin 3) (Fin 6)],
      gseries = [\<lparr>gs_name = ''a'', gs_data = [0, 1, 2], gs_disabled = False, gs_scale = Some scale_half, gs_stack = None\<rparr>],
      win_xMin = Some (Fin 2), win_xMax = None, preserve = False, unstack = True, offset = ''zero'',
      data_hooks = [], after_hooks = [], stackedData = None\<rparr>"

lemma sample_graph_ok: "valid_addresses sample_graph" "preserving sample_graph"
  by (simp_all add: sample_graph_def valid_addresses_def preserving_def)

theorem stackData_preserves_points_witness:
  "\<exists>g'. stackData (\<lambda>_. default_rows) sample_graph = Inr g' \<and> take 3 (heap g') = heap sample_graph"
proof -
  have "unstack sample_graph" by (simp add: sample_graph_def)
  then obtain g' where g': "stackData (\<lambda>_. default_rows) sample_graph = Inr g'"
    using stackData_returns by blast
  have "length (heap sample_graph) = 3" by (simp add: sample_graph_def)
  with stackData_preserves_points [OF g' sample_graph_ok] y0_pass.row_pass_axioms g'
  show ?thesis by (simp add: sample_graph_def numeral_3_eq_3)
qed

text \<open>
  C5. Without hooks and unstacked, \<open>stackData\<close> returns, and the stacks of the active series are, in
  order, exactly their points inside the window, each copied, scaled once and given a base of zero if it
  had none; drawing again shows the same points, so scales do not compound.
\<close>

theorem stackData_shows_window:
  assumes valid: "valid_addresses g" and pres: "preserving g"
    and plain: "unstack g" "data_hooks g = []" "after_hooks g = []"
  shows "\<exists>g' rs. stackData layout g = Inr g' \<and> map gs_stack (active (gseries g')) = map Some rs
    \<and> map (map ((!) (heap g'))) rs = shown_points g \<and> shown_points g' = shown_points g"
proof -
  obtain d h where sc: "scaled_rows g = (d, h)" by fastforce
  note p = scaled_rows_private [OF valid pres sc]
  let ?h = "fold (upd_points default_y0) d h"
  let ?g = "g\<lparr>heap := ?h, gseries := assign_stacks (gseries g) d, stackedData := Some d\<rparr>"
  have run: "stackData layout g = Inr ?g"
    using plain sc by (simp add: stackData_def run_data_hooks_def run_after_hooks_def default_rows_def)
  have "map (map ((!) ?h)) d = map (map (\<lambda>a. default_y0 (h ! a))) d"
    using p by (auto simp: fold_upd_points private_rows_def simp del: set_concat) (auto)
  also have "\<dots> = map (map default_y0) (map (map ((!) h)) d)" by (simp add: comp_def)
  also have "\<dots> = shown_points g"
    by (subst conjunct2 [OF conjunct2 [OF conjunct2 [OF conjunct2 [OF p]]]])
       (simp add: shown_points_def filter_map comp_def)
  finally have vals: "map (map ((!) ?h)) d = shown_points g" .
  have old: "?h ! a = heap g ! a" if "a < length (heap g)" for a
  proof -
    have "a \<notin> set (concat d)" using p that by (fastforce simp: private_rows_def)
    then have "?h ! a = h ! a" by (rule fold_upd_other)
    also have "\<dots> = heap g ! a" using p that by (metis nth_take)
    finally show ?thesis .
  qed
  have same: "shown_points ?g = shown_points g"
  proof -
    have s: "active (assign_stacks ss rs) = assign_stacks (active ss) rs" for ss rs
      by (induction ss rs rule: assign_stacks.induct) (auto simp: active_def split: list.splits)
    have k: "map F (assign_stacks ss rs) = map F ss"
      if "\<And>s r. F (s\<lparr>gs_stack := r\<rparr>) = F s" for F :: "gseries \<Rightarrow> point list" and ss rs
      by (induction ss rs rule: assign_stacks.induct) (auto simp: that split: list.splits)
    have "map (\<lambda>s. map (\<lambda>p. default_y0 (scaled s (clone_point p)))
                (filter (slice g) (map ((!) ?h) (gs_data s)))) (active (gseries g)) = shown_points g"
      using valid old by (auto simp: shown_points_def valid_addresses_def active_def filter_map comp_def
          cong: map_cong filter_cong)
    moreover have "slice ?g = slice g" by (simp add: slice_def fun_eq_iff)
    ultimately show ?thesis by (simp add: shown_points_def [of ?g] s k scaled_def)
  qed
  show ?thesis
    using run vals same assign_stacks_active [of d "gseries g"] p
    by (intro exI [of _ ?g] exI [of _ d]) simp
qed

theorem stackData_shows_window_witness:
  "\<exists>g' rs. stackData (\<lambda>_. default_rows) sample_graph = Inr g'
     \<and> map gs_stack (active (gseries g')) = map Some rs
     \<and> map (map (\<lambda>a. (px (heap g' ! a), py (heap g' ! a)))) rs =
         [[(Fin 2, Some (Fin 2)), (Fin 3, Some (Fin 3))]]"
proof -
  have "unstack sample_graph" "data_hooks sample_graph = []" "after_hooks sample_graph = []"
    by (simp_all add: sample_graph_def)
  from stackData_shows_window [OF sample_graph_ok this]
  obtain g' rs where g': "stackData (\<lambda>_. default_rows) sample_graph = Inr g'"
    "map gs_stack (active (gseries g')) = map Some rs" "map (map ((!) (heap g'))) rs = shown_points sample_graph"
    by blast
  have "shown_points sample_graph =
      [[\<lparr>px = Fin 2, py = Some (Fin 2), py0 = Some (Fin 0), pidx = None\<rparr>,
        \<lparr>px = Fin 3, py = Some (Fin 3), py0 = Some (Fin 0), pidx = None\<rparr>]]"
    by (simp add: shown_points_def sample_graph_def active_def slice_def scaled_def scale_point_def
        scale_half_def clone_point_def default_y0_def)
  then have "map (map (\<lambda>p. (px p, py p))) (map (map ((!) (heap g'))) rs) =
         [[(Fin 2, Some (Fin 2)), (Fin 3, Some (Fin 3))]]"
    by (simp only: g'(3)) simp
  then have "map (map (\<lambda>a. (px (heap g' ! a), py (heap g' ! a)))) rs =
         [[(Fin 2, Some (Fin 2)), (Fin 3, Some (Fin 3))]]"
    by (simp only: map_map comp_def)
  with g'(1,2) show ?thesis by (intro exI [of _ g'] exI [of _ rs] conjI)
qed

end
