(* ===== verification/GraphValid.thy ===== *)
theory GraphValid
  imports GraphData SeriesWindow
begin

text \<open>
  Which data the checks of \<open>Rickshaw.Graph\<close> accept: \<open>validateSeries\<close> on the rows of a series object, and
  \<open>_validateStackable\<close>. The series that the web application plots passes the first check at every moment.
\<close>

section \<open>Rows as values\<close>

lemma member_point [simp]: "member (point_val p) ''x'' = Inr (JNum (px p))"
  "member (point_val p) ''y'' = Inr (case py p of None \<Rightarrow> JNull | Some y \<Rightarrow> JNum y)"
  by (simp_all add: member_def point_val_def get_prop_def)

lemma js_less_num [simp]: "js_less cmp (JNum a) (JNum b) = (a < b)"
  by (simp add: js_less_def)

text \<open>The order probe: the first three points and the last.\<close>

definition probe_ok :: "jsnum list \<Rightarrow> bool" where
  "probe_ok xs = (3 \<le> length xs \<longrightarrow> \<not> xs ! 2 < xs ! 1 \<and> \<not> xs ! 1 < xs ! 0 \<and> \<not> last xs < xs ! 0)"

lemma validate_data_points:
  "validate_data cmp (map point_val ps) =
     (if probe_ok (map px ps) then Inr () else Inl (Thrown ''series data needs to be sorted on x values''))"
proof -
  have "\<not> (\<not> is_number y \<and> y \<noteq> JNull)" if "y = (case py p of None \<Rightarrow> JNull | Some y \<Rightarrow> JNum y)" for y p
    using that by (auto split: option.splits)
  then show ?thesis
    by (cases "length ps < 3")
       (auto simp: validate_data_def unordered_row_def probe_ok_def last_map split: option.splits)
qed

lemma validate_item:
  "validate_element cmp (item_val it) =
     (if probe_ok (map px (si_data it)) then Inr ()
      else Inl (Thrown ''series data needs to be sorted on x values''))"
  by (simp add: validate_element_def item_val_def get_prop_def validate_data_points)

lemma validate_items:
  "validateSeries cmp (series_val its) =
     (if \<forall>it \<in> set its. probe_ok (map px (si_data it)) then Inr ()
      else Inl (Thrown ''series data needs to be sorted on x values''))"
proof -
  have "for_each (\<lambda>s _. validate_element cmp s) (map item_val its) () =
     (if \<forall>it \<in> set its. probe_ok (map px (si_data it)) then Inr ()
      else Inl (Thrown ''series data needs to be sorted on x values''))"
    by (induction its) (auto simp: validate_item)
  then show ?thesis by (simp add: validateSeries_def series_val_def)
qed

lemma probe_ok_sorted:
  assumes "sorted vs"
  shows "probe_ok (map Fin vs)"
proof -
  have "vs ! 1 \<le> vs ! 2" "vs ! 0 \<le> vs ! 1" "vs ! 0 \<le> last vs" if "3 \<le> length vs"
  proof -
    have "vs \<noteq> []" using that by auto
    then have "last vs = vs ! (length vs - 1)" by (rule last_conv_nth)
    then show "vs ! 1 \<le> vs ! 2" "vs ! 0 \<le> vs ! 1" "vs ! 0 \<le> last vs"
      using assms that by (auto intro!: sorted_nth_mono)
  qed
  moreover have "map Fin vs ! 0 = Fin (vs ! 0)" "last (map Fin vs) = Fin (last vs)" if "3 \<le> length vs"
    using that by (cases vs; simp add: last_map)+
  ultimately show ?thesis by (auto simp: probe_ok_def not_less)
qed

lemma sorted_last_n: "sorted xs \<Longrightarrow> sorted (last_n m xs)"
  by (simp add: last_n_def)

lemma last_n_map: "last_n m (map f xs) = map f (last_n m xs)"
  by (simp add: last_n_def drop_map)

lemma sorted_grid:
  assumes "0 \<le> (ti::rat)" and "sorted ks"
  shows "sorted (map (\<lambda>k. b + of_int k * ti) (ks::int list))"
  using assms by (auto simp: sorted_wrt_map intro!: sorted_wrt_mono_rel [of _ "(\<le>)"] mult_right_mono)

lemma grid_at_Fin: "grid_at b ti = Fin \<circ> (\<lambda>k. b + of_int k * ti)"
  by (rule ext) (simp add: grid_at_def)

text \<open>A fixed-duration series on an increasing grid passes the check.\<close>

lemma fixed_grid_valid:
  assumes "fixed_inv s (last_n m (map (grid_at b ti) ks))" and "sorted ks" and "0 \<le> ti"
  shows "validateSeries cmp (series_val (items s)) = Inr ()"
proof -
  have "probe_ok (map Fin (last_n m (map (\<lambda>k. b + of_int k * ti) ks)))"
    using assms(2,3) by (intro probe_ok_sorted sorted_last_n sorted_grid)
  then have "probe_ok (last_n m (map (grid_at b ti) ks))" by (simp only: grid_at_Fin last_n_map map_map)
  with assms(1) show ?thesis by (simp add: validate_items fixed_inv_def aligned_def)
qed

section \<open>Row lengths\<close>

lemma validate_lengths_iff:
  "validate_lengths c ns = Inr () \<longleftrightarrow>
     (if c = 0 then \<exists>k m d. ns = replicate k 0 @ replicate m d else \<forall>n \<in> set ns. n = c)"
proof (induction ns arbitrary: c)
  case Nil
  then show ?case by auto
next
  case (Cons n ns)
  show ?case
  proof (cases "c = 0 \<and> n = 0")
    case True
    have "(\<exists>k m d. 0 # ns = replicate k 0 @ replicate m d) \<longleftrightarrow> (\<exists>k m d. ns = replicate k 0 @ replicate m (d::nat))"
      (is "?l \<longleftrightarrow> ?r")
    proof
      assume ?l
      then obtain k m d where e: "0 # ns = replicate k 0 @ replicate m (d::nat)" by blast
      show ?r
      proof (cases k)
        case 0
        with e have "ns = replicate 0 0 @ replicate (m - 1) d" by (cases m) auto
        then show ?thesis by blast
      next
        case (Suc k')
        with e show ?thesis by auto
      qed
    next
      assume ?r
      then obtain k m d where "ns = replicate k 0 @ replicate m (d::nat)" by blast
      then have "0 # ns = replicate (Suc k) 0 @ replicate m d" by simp
      then show ?l by blast
    qed
    with True Cons show ?thesis by simp
  next
    case False
    show ?thesis
    proof (cases "c = 0")
      case True
      with False have n: "n \<noteq> 0" by simp
      have "(\<exists>k m d. n # ns = replicate k 0 @ replicate m d) \<longleftrightarrow> (\<forall>x \<in> set ns. x = n)" (is "?l \<longleftrightarrow> ?r")
      proof
        assume ?l
        then obtain k m d where e: "n # ns = replicate k 0 @ replicate m d" by blast
        with n have "k = 0" by (cases k) auto
        with e show ?r by (cases m) auto
      next
        assume ?r
        then have "n # ns = replicate 0 0 @ replicate (Suc (length ns)) n"
          by (simp add: replicate_length_same)
        then show ?l by blast
      qed
      with True n Cons show ?thesis by simp
    next
      case c: False
      with Cons show ?thesis by auto
    qed
  qed
qed

section \<open>Properties\<close>

text \<open>
  C14. A fixed-duration series with a positive interval is accepted by \<open>validateSeries\<close> after its
  construction and after any sequence of samples: the repeated time of its grid never breaks the order.
\<close>

theorem fixed_series_always_valid:
  assumes "so_timeInterval opts = Some (Fin iv)" and "0 < iv" and "so_maxDataPoints opts = Some m"
    and "3 \<le> m" and "so_timeBase opts = Some (Fin b)"
    and "ds \<noteq> []" and "\<forall>item \<in> set ds. ia_name item \<noteq> None \<and> ia_data item = None"
    and "\<forall>d \<in> set samples. distinct (map fst d)"
  shows "\<exists>s. js_bind (new_fixed f now (Some ds) pal opts) (fixed_run f samples) = Inr s
    \<and> validateSeries cmp (series_val (items s)) = Inr ()"
proof -
  let ?ks = "[2 - m..-1] @ [-1..int (length samples) - 2]"
  obtain s where s: "js_bind (new_fixed f now (Some ds) pal opts) (fixed_run f samples) = Inr s"
    "fixed_inv s (last_n m (map (grid_at b (iv / 1000)) ?ks))"
    using fixed_run_from_scratch [OF assms(1) _ assms(3-8), of f now pal] assms(2) by auto
  have "sorted ?ks" by (auto simp: sorted_append)
  from fixed_grid_valid [OF s(2) this] assms(2) s(1) show ?thesis by auto
qed

theorem fixed_series_always_valid_witness:
  "\<exists>s. js_bind (new_fixed blend_text (Fin 0) (Some [plain_item ''Delta'']) wheel_palette web_options)
        (fixed_run blend_text [[(''Delta'', Fin 4)], [(''Delta'', Fin 9)]]) = Inr s
    \<and> validateSeries (\<lambda>_ _. True) (series_val (items s)) = Inr ()"
  using fixed_series_always_valid [of web_options 2000 5 1000 "[plain_item ''Delta'']"
      "[[(''Delta'', Fin 4)], [(''Delta'', Fin 9)]]" blend_text "Fin 0" wheel_palette]
  by (simp add: web_options_def plain_item_def)

text \<open>
  C37. What \<open>validateSeries\<close> accepts of a series object: exactly those whose every row of three or more
  points has its first three points in order and its last not before its first (any other disorder passes).
\<close>

theorem validateSeries_accepts_iff:
  "validateSeries cmp (series_val its) = Inr () \<longleftrightarrow>
     (\<forall>it \<in> set its. 3 \<le> length (si_data it) \<longrightarrow>
        \<not> px (si_data it ! 2) < px (si_data it ! 1) \<and> \<not> px (si_data it ! 1) < px (si_data it ! 0)
        \<and> \<not> px (last (si_data it)) < px (si_data it ! 0))"
proof -
  have "probe_ok (map px d) \<longleftrightarrow> (3 \<le> length d \<longrightarrow>
      \<not> px (d ! 2) < px (d ! 1) \<and> \<not> px (d ! 1) < px (d ! 0) \<and> \<not> px (last d) < px (d ! 0))" for d
    by (cases "d = []") (auto simp: probe_ok_def last_map)
  note probe = this
  show ?thesis unfolding validate_items probe by simp
qed

theorem validateSeries_accepts_iff_witness:
  "validateSeries (\<lambda>_ _. False) (series_val [\<lparr>si_name = ''a'', si_color = ''red'',
     si_data = [pt (Fin 0) (Fin 1), pt (Fin 1) (Fin 1), pt (Fin 2) (Fin 1), pt (Fin 1) (Fin 1), pt (Fin 5) (Fin 1)]\<rparr>])
   = Inr ()"
  by (subst validateSeries_accepts_iff) simp

text \<open>
  \<open>_validateStackable\<close> accepts exactly the rows whose lengths are zeros followed by equal lengths: an
  empty row is tolerated before the first row with data and refused after it.
\<close>

theorem validateStackable_iff:
  "validateStackable ss = Inr () \<longleftrightarrow>
     (\<exists>k m c. map (length \<circ> gs_data) ss = replicate k 0 @ replicate m c)"
  by (simp add: validateStackable_def validate_lengths_iff)

end
