(* ===== verification/Renderer.thy ===== *)
theory Renderer
  imports RickshawCore SeriesData
begin

text \<open>
  \<open>Rickshaw.Graph.Renderer\<close> and its subclasses, as far as they compute rather than draw: the default
  settings of each renderer, \<open>configure\<close>, the data domain that the graph's scales are built from, the
  styles of a series, and the bar renderer's choice of bar interval.

  A renderer's own settings are a JavaScript object; \<open>this.graph[key]\<close> reads the graph's settings
  object, which \<open>configure\<close> takes as an argument.
\<close>

section \<open>Defaults\<close>

definition base_defaults :: jsval where
  "base_defaults = JObj
     [(''tension'', JNum (Fin (4 / 5))), (''strokeWidth'', JNum (Fin 2)), (''unstack'', JBool True),
      (''padding'', JObj [(''top'', JNum (Fin (1 / 100))), (''right'', JNum (Fin 0)),
                          (''bottom'', JNum (Fin (1 / 100))), (''left'', JNum (Fin 0))]),
      (''stroke'', JBool False), (''fill'', JBool False), (''opacity'', JNum (Fin 1))]"

definition wide_padding :: jsval where
  "wide_padding = JObj [(''top'', JNum (Fin (1 / 100))), (''right'', JNum (Fin (1 / 100))),
                        (''bottom'', JNum (Fin (1 / 100))), (''left'', JNum (Fin (1 / 100)))]"

fun del_prop :: "string \<Rightarrow> jsval \<Rightarrow> jsval" where
  "del_prop k (JObj ps) = JObj (filter (\<lambda>(k', v). k' \<noteq> k) ps)"
| "del_prop k (JFun n ps) = JFun n (filter (\<lambda>(k', v). k' \<noteq> k) ps)"
| "del_prop k v = v"

definition line_defaults :: jsval where
  "line_defaults = extend_obj base_defaults
     (JObj [(''unstack'', JBool True), (''fill'', JBool False), (''stroke'', JBool True)])"

definition stack_defaults :: jsval where
  "stack_defaults = extend_obj base_defaults
     (JObj [(''fill'', JBool True), (''stroke'', JBool False), (''unstack'', JBool False)])"

definition bar_defaults :: jsval where
  "bar_defaults = del_prop ''tension'' (extend_obj base_defaults
     (JObj [(''gapSize'', JNum (Fin (5 / 100))), (''unstack'', JBool False), (''opacity'', JNum (Fin 1))]))"

definition area_defaults :: jsval where
  "area_defaults = extend_obj base_defaults
     (JObj [(''unstack'', JBool False), (''fill'', JBool False), (''stroke'', JBool False)])"

definition scatterplot_defaults :: jsval where
  "scatterplot_defaults = extend_obj base_defaults
     (JObj [(''unstack'', JBool True), (''fill'', JBool True), (''stroke'', JBool False),
            (''padding'', wide_padding), (''dotSize'', JNum (Fin 4))])"

definition multi_defaults :: jsval where
  "multi_defaults = extend_obj base_defaults
     (JObj [(''unstack'', JBool True), (''fill'', JBool False), (''stroke'', JBool True)])"

definition lineplot_defaults :: jsval where
  "lineplot_defaults = extend_obj base_defaults
     (JObj [(''unstack'', JBool True), (''fill'', JBool False), (''stroke'', JBool True),
            (''padding'', wide_padding), (''dotSize'', JNum (Fin 3)), (''strokeWidth'', JNum (Fin 2))])"

section \<open>configure\<close>

record renderer =
  r_name :: string
  r_defaults :: jsval
  r_this :: jsval

definition or_undef :: "jsval \<Rightarrow> jsval \<Rightarrow> jsval" where
  "or_undef a b = (if a = JUndef then b else a)"

fun nullish :: "jsval \<Rightarrow> bool" where
  "nullish JUndef = True"
| "nullish JNull = True"
| "nullish _ = False"

text \<open>One key of an object-valued setting, \<open>this[key][k] = ...\<close>.\<close>

definition configure_nested :: "jsval \<Rightarrow> jsval \<Rightarrow> string \<Rightarrow> string \<Rightarrow> jsval \<Rightarrow> jsval js" where
  "configure_nested defaults args key k this =
     (if nullish (get_prop args key) \<or> nullish (get_prop this key) then Inl TypeError
      else Inr (set_prop key
        (set_prop k
          (or_undef (get_prop (get_prop args key) k)
            (or_undef (get_prop (get_prop this key) k) (get_prop (get_prop defaults key) k)))
          (get_prop this key)) this))"

definition configure_key :: "jsval \<Rightarrow> jsval \<Rightarrow> jsval \<Rightarrow> string \<Rightarrow> jsval \<Rightarrow> jsval js" where
  "configure_key defaults graph args key this =
     (if \<not> has_prop args key then
        Inr (set_prop key (js_or (get_prop this key) (js_or (get_prop graph key) (get_prop defaults key))) this)
      else (case get_prop defaults key of
          JObj ps \<Rightarrow> for_each (configure_nested defaults args key) (keys (JObj ps)) this
        | _ \<Rightarrow> Inr (set_prop key
            (or_undef (get_prop args key)
              (or_undef (get_prop this key)
                (or_undef (get_prop graph key) (get_prop defaults key)))) this)))"

definition renderer_configure :: "jsval \<Rightarrow> jsval \<Rightarrow> renderer \<Rightarrow> renderer js" where
  "renderer_configure graph args r =
     js_bind (for_each (configure_key (r_defaults r) graph (if nullish args then JObj [] else args))
               (keys (r_defaults r)) (r_this r))
       (\<lambda>this. Inr (r\<lparr>r_this := this\<rparr>))"

text \<open>\<open>initialize\<close>; the bar renderer first takes \<open>gapSize\<close> over.\<close>

definition new_renderer :: "string \<Rightarrow> jsval \<Rightarrow> jsval \<Rightarrow> jsval \<Rightarrow> renderer js" where
  "new_renderer name defaults graph args =
     (let this0 = (if name = ''bar''
                   then set_prop ''gapSize'' (js_or (get_prop args ''gapSize'') JUndef) (JObj []) else JObj []);
          this1 = set_prop ''tension'' (js_or (get_prop args ''tension'') (get_prop this0 ''tension'')) this0
      in renderer_configure graph args \<lparr>r_name = name, r_defaults = defaults, r_this = this1\<rparr>)"

definition setStrokeWidth :: "jsval \<Rightarrow> renderer \<Rightarrow> renderer" where
  "setStrokeWidth w r = (if w = JUndef then r else r\<lparr>r_this := set_prop ''strokeWidth'' w (r_this r)\<rparr>)"

definition setTension :: "jsval \<Rightarrow> renderer \<Rightarrow> renderer" where
  "setTension t r = (if t = JUndef then r else r\<lparr>r_this := set_prop ''tension'' t (r_this r)\<rparr>)"

section \<open>domain\<close>

datatype graph_min = MinAuto | MinGiven "jsnum option"

record paddings =
  pad_top :: jsnum
  pad_right :: jsnum
  pad_bottom :: jsnum
  pad_left :: jsnum

record domain_xy =
  dom_x :: "jsnum \<times> jsnum"
  dom_y :: "jsnum \<times> jsnum"

definition track_min :: "jsnum \<Rightarrow> jsnum \<Rightarrow> jsnum" where
  "track_min v lo = (if v < lo then v else lo)"

definition track_max :: "jsnum \<Rightarrow> jsnum \<Rightarrow> jsnum" where
  "track_max v hi = (if hi < v then v else hi)"

text \<open>\<open>d.y + d.y0\<close>; a point whose \<open>y\<close> is null or undefined is skipped, an undefined \<open>y0\<close> gives NaN.\<close>

definition stacked_y :: "point \<Rightarrow> jsnum option" where
  "stacked_y d = (case py d of None \<Rightarrow> None | Some y \<Rightarrow> Some (y + (case py0 d of None \<Rightarrow> NaN | Some z \<Rightarrow> z)))"

definition row_ys :: "point list list \<Rightarrow> jsnum list" where
  "row_ys rows = List.map_filter stacked_y (concat rows)"

definition renderer_domain ::
  "paddings \<Rightarrow> graph_min \<Rightarrow> jsnum option \<Rightarrow> point list list \<Rightarrow> domain_xy"
where
  "renderer_domain pad gmin gmax stackedData =
     (let rows = filter (\<lambda>a. a \<noteq> []) stackedData;
          yMin = fold track_min (row_ys rows) PInf;
          yMax = fold track_max (row_ys rows) NInf;
          xMin = fold track_min (map (\<lambda>r. px (hd r)) rows) PInf;
          xMax = fold track_max (map (\<lambda>r. px (last r)) rows) NInf;
          xMin' = xMin - (xMax - xMin) * pad_left pad;
          xMax' = xMax + (xMax - xMin') * pad_right pad;
          yMin1 = (case gmin of MinAuto \<Rightarrow> yMin | MinGiven v \<Rightarrow> or_opt v (Fin 0));
          yMax1 = (case gmax of None \<Rightarrow> yMax | Some v \<Rightarrow> v);
          yMin2 = (if gmin = MinAuto \<or> yMin1 < Fin 0 then yMin1 - (yMax1 - yMin1) * pad_bottom pad else yMin1);
          yMax2 = (if gmax = None then yMax1 + (yMax1 - yMin2) * pad_top pad else yMax1)
      in \<lparr>dom_x = (xMin', xMax'), dom_y = (yMin2, yMax2)\<rparr>)"

section \<open>Styles\<close>

record style_args =
  st_color :: string
  st_strokeWidth :: "jsnum option"
  st_opacity :: "jsnum option"

record path_style =
  ps_fill :: string
  ps_stroke :: string
  ps_strokeWidth :: jsnum
  ps_opacity :: jsnum

definition styleSeries :: "bool \<Rightarrow> bool \<Rightarrow> jsnum \<Rightarrow> jsnum \<Rightarrow> style_args \<Rightarrow> path_style" where
  "styleSeries fill stroke strokeWidth opacity s =
     \<lparr>ps_fill = (if fill then st_color s else ''none''),
      ps_stroke = (if stroke then st_color s else ''none''),
      ps_strokeWidth = or_opt (st_strokeWidth s) strokeWidth,
      ps_opacity = or_opt (st_opacity s) opacity\<rparr>"

section \<open>The bar renderer\<close>

text \<open>
  The counts object is keyed by the text of the interval, which tells all numbers apart (NaN and the infinities are keys as well). The keys are sorted
  by the difference of their numbers. Beside a key NaN that difference is NaN and the order that \<open>sort\<close> leaves is up to the engine; the
  insertion below gives one of those orders, and the order of the numbers otherwise.
\<close>

fun bump :: "jsnum \<Rightarrow> (jsnum \<times> nat) list \<Rightarrow> (jsnum \<times> nat) list" where
  "bump k [] = [(k, 1)]"
| "bump k ((k', n) # cs) = (if k' = k then (k', n + 1) # cs else (k', n) # bump k cs)"

definition row_intervals :: "point list \<Rightarrow> jsnum list" where
  "row_intervals data = map2 (\<lambda>a b. px b - px a) data (tl data)"

definition interval_counts :: "point list \<Rightarrow> (jsnum \<times> nat) list" where
  "interval_counts data = fold bump (row_intervals data) []"

fun put_asc :: "jsnum \<Rightarrow> jsnum list \<Rightarrow> jsnum list" where
  "put_asc a [] = [a]"
| "put_asc a (b # bs) = (if a - b < Fin 0 then a # b # bs else b # put_asc a bs)"

definition sort_asc :: "jsnum list \<Rightarrow> jsnum list" where
  "sort_asc ks = fold put_asc ks []"

record frequent =
  fr_count :: nat
  fr_magnitude :: jsnum

definition frequentInterval :: "point list \<Rightarrow> frequent" where
  "frequentInterval data =
     (let counts = interval_counts data;
          keysSorted = sort_asc (map fst counts)
      in fold (\<lambda>i best. let n = the (map_of counts i) in
                if fr_count best < n then \<lparr>fr_count = n, fr_magnitude = i\<rparr> else best)
           keysSorted \<lparr>fr_count = 0, fr_magnitude = Fin 1\<rparr>)"

text \<open>The bar domain reserves the width of one bar after the last point of the last row.\<close>

definition bar_domain ::
  "paddings \<Rightarrow> graph_min \<Rightarrow> jsnum option \<Rightarrow> point list list \<Rightarrow> domain_xy js"
where
  "bar_domain pad gmin gmax stackedData =
     (let d = renderer_domain pad gmin gmax stackedData in
      if stackedData = [] then Inl TypeError
      else Inr (d\<lparr>dom_x := (fst (dom_x d),
                            snd (dom_x d) + fr_magnitude (frequentInterval (last stackedData)))\<rparr>))"

definition barWidth :: "(jsnum \<Rightarrow> jsnum) \<Rightarrow> jsnum \<Rightarrow> point list \<Rightarrow> jsnum" where
  "barWidth x_magnitude gapSize stck =
     x_magnitude (fr_magnitude (frequentInterval stck)) * (Fin 1 - gapSize)"

section \<open>Configuring touches one setting at a time\<close>

lemma configure_nested_frame:
  assumes "configure_nested D A key k this = Inr this'" and "is_object this"
  shows "is_object this' \<and> (\<forall>j. j \<noteq> key \<longrightarrow> get_prop this' j = get_prop this j)"
  using assms by (auto simp: configure_nested_def split: if_splits)

lemma configure_key_frame:
  assumes "configure_key D G A key this = Inr this'" and "is_object this"
  shows "is_object this' \<and> (\<forall>j. j \<noteq> key \<longrightarrow> get_prop this' j = get_prop this j)"
proof (cases "has_prop A key \<and> (\<exists>ps. get_prop D key = JObj ps)")
  case True
  then obtain ps where "for_each (configure_nested D A key) (keys (JObj ps)) this = Inr this'"
    using assms(1) by (auto simp: configure_key_def)
  then show ?thesis
    by (rule for_each_inv) (use assms(2) configure_nested_frame in \<open>auto; metis\<close>)+
next
  case False
  with assms show ?thesis by (auto simp: configure_key_def split: jsval.splits if_splits)
qed

lemma configure_keys_frame:
  assumes "for_each (configure_key D G A) ks this = Inr this'" and "is_object this"
  shows "is_object this' \<and> (\<forall>j. j \<notin> set ks \<longrightarrow> get_prop this' j = get_prop this j)"
  by (rule for_each_inv [OF assms(1)]) (use assms(2) configure_key_frame in \<open>auto; metis\<close>)+

text \<open>After the loop the setting \<open>key\<close> has the value its own round gave it.\<close>

lemma configure_keys_value:
  assumes "for_each (configure_key D G A) ks this = Inr this'" and "is_object this"
    and "distinct ks" and "key \<in> set ks"
  shows "\<exists>s t. get_prop s key = get_prop this key \<and> is_object s \<and> configure_key D G A key s = Inr t
    \<and> get_prop this' key = get_prop t key"
proof -
  obtain us vs where ks: "ks = us @ key # vs" using assms(4) by (meson split_list)
  obtain s t where s: "for_each (configure_key D G A) us this = Inr s"
    and t: "configure_key D G A key s = Inr t" and r: "for_each (configure_key D G A) vs t = Inr this'"
    using assms(1) by (auto simp: ks for_each_append js_bind_Inr_iff)
  have "key \<notin> set us" "key \<notin> set vs" using assms(3) ks by auto
  with configure_keys_frame [OF s assms(2)] configure_key_frame [OF t] configure_keys_frame [OF r] t
  show ?thesis by metis
qed

lemma configure_key_plain:
  assumes "configure_key D G A key s = Inr t" and "is_object s" and "\<forall>ps. get_prop D key \<noteq> JObj ps"
  shows "get_prop t key =
    (if has_prop A key
     then or_undef (get_prop A key) (or_undef (get_prop s key) (or_undef (get_prop G key) (get_prop D key)))
     else js_or (get_prop s key) (js_or (get_prop G key) (get_prop D key)))"
  using assms by (cases "get_prop D key") (auto simp: configure_key_def split: if_splits)

section \<open>Bounds of the domain\<close>

lemma fold_track_min:
  "\<exists>r. fold track_min (map Fin vs) (Fin a) = Fin r \<and> r \<le> a \<and> (\<forall>v \<in> set vs. r \<le> v)"
proof (induction vs arbitrary: a)
  case Nil
  then show ?case by simp
next
  case (Cons v vs)
  have "track_min (Fin v) (Fin a) = Fin (min v a)" by (simp add: track_min_def min_def)
  with Cons [of "min v a"] show ?case by auto
qed

lemma fold_track_max:
  "\<exists>r. fold track_max (map Fin vs) (Fin a) = Fin r \<and> a \<le> r \<and> (\<forall>v \<in> set vs. v \<le> r)"
proof (induction vs arbitrary: a)
  case Nil
  then show ?case by simp
next
  case (Cons v vs)
  have "track_max (Fin v) (Fin a) = Fin (max v a)" by (simp add: track_max_def max_def)
  with Cons [of "max v a"] show ?case by auto
qed

lemma track_lower:
  assumes "vs \<noteq> []" and "\<forall>v \<in> set vs. is_fin v"
  shows "\<exists>r. fold track_min vs PInf = Fin r \<and> (\<forall>v \<in> set vs. r \<le> fin_val v)"
proof -
  obtain v ws where vs: "vs = v # ws" using assms(1) by (cases vs) auto
  have ws: "map Fin (map fin_val ws) = ws" using assms(2) vs by (auto intro: map_idI)
  have "track_min v PInf = Fin (fin_val v)" using assms(2) vs by (cases v) (auto simp: track_min_def)
  with fold_track_min [of "map fin_val ws" "fin_val v"] ws vs show ?thesis by auto
qed

lemma track_upper:
  assumes "vs \<noteq> []" and "\<forall>v \<in> set vs. is_fin v"
  shows "\<exists>r. fold track_max vs NInf = Fin r \<and> (\<forall>v \<in> set vs. fin_val v \<le> r)"
proof -
  obtain v ws where vs: "vs = v # ws" using assms(1) by (cases vs) auto
  have ws: "map Fin (map fin_val ws) = ws" using assms(2) vs by (auto intro: map_idI)
  have "track_max v NInf = Fin (fin_val v)" using assms(2) vs by (cases v) (auto simp: track_max_def)
  with fold_track_max [of "map fin_val ws" "fin_val v"] ws vs show ?thesis by auto
qed

text \<open>A row whose points are finite, complete and sorted by time.\<close>

definition drawable_row :: "point list \<Rightarrow> bool" where
  "drawable_row r = ((\<forall>p \<in> set r. is_fin (px p) \<and> (\<exists>y z. py p = Some (Fin y) \<and> py0 p = Some (Fin z)))
     \<and> sorted (map (fin_val \<circ> px) r))"

lemma drawable_row_ends:
  assumes "drawable_row r" and "p \<in> set r"
  shows "fin_val (px (hd r)) \<le> fin_val (px p) \<and> fin_val (px p) \<le> fin_val (px (last r))"
proof -
  have s: "sorted (map (fin_val \<circ> px) r)" using assms(1) by (simp add: drawable_row_def)
  obtain i where i: "i < length r" "p = r ! i" using assms(2) by (metis in_set_conv_nth)
  have "map (fin_val \<circ> px) r ! 0 \<le> map (fin_val \<circ> px) r ! i"
    by (rule sorted_nth_mono [OF s]) (use i in auto)
  moreover have "map (fin_val \<circ> px) r ! i \<le> map (fin_val \<circ> px) r ! (length r - 1)"
    by (rule sorted_nth_mono [OF s]) (use i in auto)
  moreover have "r \<noteq> []" using i by auto
  ultimately show ?thesis using i by (simp add: hd_conv_nth last_conv_nth)
qed

lemma row_ys_stacked:
  "r \<in> set rows \<Longrightarrow> p \<in> set r \<Longrightarrow> py p = Some (Fin y) \<Longrightarrow> py0 p = Some (Fin z) \<Longrightarrow>
    Fin (y + z) \<in> set (row_ys rows)"
  by (force simp: row_ys_def map_filter_def stacked_y_def)

lemma row_ys_fin:
  assumes "\<forall>r \<in> set rows. drawable_row r"
  shows "\<forall>v \<in> set (row_ys rows). is_fin v"
  using assms by (fastforce simp: row_ys_def map_filter_def stacked_y_def drawable_row_def)

section \<open>The most frequent interval\<close>

lemma map_of_bump:
  "map_of (bump k cs) = (map_of cs)(k \<mapsto> (case map_of cs k of None \<Rightarrow> 1 | Some n \<Rightarrow> n + 1))"
  by (induction cs) (auto simp: fun_eq_iff split: option.splits)

lemma keys_bump: "set (map fst (bump k cs)) = insert k (set (map fst cs))"
proof (induction cs)
  case Nil
  then show ?case by simp
next
  case (Cons a cs)
  then show ?case by (cases a; cases "fst a = k") (auto simp: insert_commute)
qed

lemma interval_counts_spec:
  "map_of (fold bump vs cs) k =
     (if k \<in> set vs
      then Some (count_list vs k + (case map_of cs k of None \<Rightarrow> 0 | Some n \<Rightarrow> n))
      else map_of cs k)"
  by (induction vs arbitrary: cs) (auto simp: map_of_bump split: option.splits)

lemma map_of_interval_counts:
  "k \<in> set (row_intervals d) \<Longrightarrow> map_of (interval_counts d) k = Some (count_list (row_intervals d) k)"
  by (simp add: interval_counts_def interval_counts_spec)

lemma keys_interval_counts: "set (map fst (interval_counts d)) = set (row_intervals d)"
proof -
  have "set (map fst (fold bump vs cs)) = set vs \<union> set (map fst cs)" for vs cs
    by (induction vs arbitrary: cs) (auto simp: keys_bump simp del: set_map)
  then show ?thesis by (simp add: interval_counts_def del: set_map)
qed

text \<open>The order of the keys.\<close>

lemma set_sort_asc: "set (sort_asc ks) = set ks"
proof -
  have ins: "set (put_asc a bs) = insert a (set bs)" for a bs by (induction a bs rule: put_asc.induct) auto
  have "set (fold put_asc ks acc) = set ks \<union> set acc" for acc by (induction ks arbitrary: acc) (auto simp: ins)
  then show ?thesis by (simp add: sort_asc_def)
qed

lemma difference_orders: "a \<noteq> NaN \<Longrightarrow> b \<noteq> NaN \<Longrightarrow> (if a - b < Fin 0 then a \<le> b else b \<le> (a :: jsnum))"
  by (cases a; cases b) (auto simp: minus_jsnum_def)

lemma jsnum_le_trans: "a \<le> b \<Longrightarrow> b \<le> c \<Longrightarrow> a \<le> (c :: jsnum)"
  by (cases a; cases b; cases c) auto

lemma sorted_sort_asc: "NaN \<notin> set ks \<Longrightarrow> sorted_wrt (\<le>) (sort_asc ks)"
proof -
  have set: "set (put_asc a bs) = insert a (set bs)" for a bs by (induction a bs rule: put_asc.induct) auto
  have ins: "sorted_wrt (\<le>) (put_asc a bs)" if "sorted_wrt (\<le>) bs" "NaN \<notin> set (a # bs)" for a bs
    using that
  proof (induction a bs rule: put_asc.induct)
    case (2 a b bs)
    then show ?case using difference_orders [of a b] jsnum_le_trans [of a b] by (auto simp: set)
  qed simp
  have "sorted_wrt (\<le>) (fold put_asc ks acc)" if "sorted_wrt (\<le>) acc" "NaN \<notin> set ks \<union> set acc" for acc
    using that by (induction ks arbitrary: acc) (auto simp: ins set)
  then show "NaN \<notin> set ks \<Longrightarrow> sorted_wrt (\<le>) (sort_asc ks)" by (simp add: sort_asc_def)
qed

text \<open>A scan of candidates keeps the first one of maximal count.\<close>

lemma scan_best:
  fixes n :: "jsnum \<Rightarrow> nat"
  assumes "ks \<noteq> []" and "\<forall>k \<in> set ks. 0 < n k"
  shows "\<exists>us m vs. ks = us @ m # vs \<and> (\<forall>k \<in> set us. n k < n m) \<and> (\<forall>k \<in> set vs. n k \<le> n m)
    \<and> fold (\<lambda>i best. if fr_count best < n i then \<lparr>fr_count = n i, fr_magnitude = i\<rparr> else best) ks
        \<lparr>fr_count = 0, fr_magnitude = Fin 1\<rparr> = \<lparr>fr_count = n m, fr_magnitude = m\<rparr>"
  using assms
proof (induction ks rule: rev_induct)
  case (snoc x ks)
  let ?f = "\<lambda>i best. if fr_count best < n i then \<lparr>fr_count = n i, fr_magnitude = i\<rparr> else best"
  show ?case
  proof (cases "ks = []")
    case True
    with snoc.prems show ?thesis by (intro exI [of _ "[]"] exI [of _ x]) simp
  next
    case False
    with snoc obtain us m vs where m: "ks = us @ m # vs" "\<forall>k \<in> set us. n k < n m" "\<forall>k \<in> set vs. n k \<le> n m"
      "fold ?f ks \<lparr>fr_count = 0, fr_magnitude = Fin 1\<rparr> = \<lparr>fr_count = n m, fr_magnitude = m\<rparr>" by fastforce
    show ?thesis
    proof (cases "n m < n x")
      case True
      then have "\<forall>k \<in> set ks. n k < n x" using m(1-3) by fastforce
      with True m(4) show ?thesis by (intro exI [of _ ks] exI [of _ x] exI [of _ "[]"]) simp
    next
      case False
      with m show ?thesis by (intro exI [of _ us] exI [of _ m] exI [of _ "vs @ [x]"]) auto
    qed
  qed
qed simp

text \<open>How often a gap occurs between neighbours.\<close>

definition gap_count :: "point list \<Rightarrow> jsnum \<Rightarrow> nat" where
  "gap_count data k = card {i. Suc i < length data \<and> px (data ! Suc i) - px (data ! i) = k}"

lemma gap_count_intervals: "gap_count data k = count_list (row_intervals data) k"
proof -
  have len: "length (row_intervals data) = length data - 1" by (simp add: row_intervals_def)
  have "row_intervals data ! i = px (data ! Suc i) - px (data ! i)" if "Suc i < length data" for i
    using that by (simp add: row_intervals_def nth_tl)
  then have "{i. Suc i < length data \<and> px (data ! Suc i) - px (data ! i) = k} = {i. i < length (row_intervals data) \<and> row_intervals data ! i = k}"
    using len by auto
  then show ?thesis by (simp add: gap_count_def count_list_eq_length_filter length_filter_conv_card eq_commute)
qed

lemma frequent_gap:
  assumes "2 \<le> length data"
  shows "\<exists>m. 0 < gap_count data m \<and> frequentInterval data = \<lparr>fr_count = gap_count data m, fr_magnitude = m\<rparr>
    \<and> (\<forall>k. gap_count data k \<le> gap_count data m)
    \<and> (gap_count data NaN = 0 \<longrightarrow> (\<forall>k. gap_count data k = gap_count data m \<longrightarrow> m \<le> k))"
proof -
  let ?is = "row_intervals data" and ?ks = "sort_asc (map fst (interval_counts data))"
  let ?f = "\<lambda>i best. if fr_count best < count_list ?is i then \<lparr>fr_count = count_list ?is i, fr_magnitude = i\<rparr> else best"
  have "length ?is = length data - 1" by (simp add: row_intervals_def)
  then have ne: "?is \<noteq> []" using assms by auto
  have set: "set ?ks = set ?is" using keys_interval_counts by (simp add: set_sort_asc)
  have run: "frequentInterval data = fold ?f ?ks \<lparr>fr_count = 0, fr_magnitude = Fin 1\<rparr>"
    unfolding frequentInterval_def Let_def
    by (rule fold_cong) (use set in \<open>auto simp: map_of_interval_counts fun_eq_iff\<close>)
  have pos: "\<forall>k \<in> set ?ks. 0 < count_list ?is k" unfolding set by (metis count_list_0_iff gr0I)
  have "?ks \<noteq> []" using set ne by (metis set_empty)
  from scan_best [OF this pos] obtain us m vs where m: "?ks = us @ m # vs" "\<forall>k \<in> set us. count_list ?is k < count_list ?is m"
    "\<forall>k \<in> set vs. count_list ?is k \<le> count_list ?is m" "frequentInterval data = \<lparr>fr_count = count_list ?is m, fr_magnitude = m\<rparr>"
    unfolding run by blast
  have k: "k \<in> insert m (set us \<union> set vs)" if "0 < count_list ?is k" for k
  proof -
    have "k \<in> set ?ks" using that unfolding set by (metis count_list_0_iff less_irrefl)
    then show ?thesis unfolding m(1) by auto
  qed
  have max: "count_list ?is k \<le> count_list ?is m" for k
    using k [of k] m(2,3) by (cases "count_list ?is k = 0") (auto intro: less_imp_le)
  have mpos: "0 < count_list ?is m" using pos m(1) by simp
  have "m \<le> k" if nan: "count_list ?is NaN = 0" and eq: "count_list ?is k = count_list ?is m" for k
  proof -
    have "NaN \<notin> set ?is" using nan by (simp add: count_list_0_iff)
    then have "NaN \<notin> set (map fst (interval_counts data))" by (simp add: keys_interval_counts del: set_map)
    then have "sorted_wrt (\<le>) (us @ m # vs)" using sorted_sort_asc [of "map fst (interval_counts data)"] m(1) by simp
    moreover have "m \<le> m" using \<open>NaN \<notin> set ?is\<close> mpos by (cases m) auto
    moreover have "k \<in> insert m (set vs)" using k [of k] eq mpos m(2) by auto
    ultimately show ?thesis by (auto simp: sorted_wrt_append)
  qed
  with max mpos m(4) show ?thesis by (auto simp: gap_count_intervals)
qed

section \<open>Properties\<close>

text \<open>
  Every setting of a renderer, after \<open>configure\<close>, has the value of the first source that has one:
  with the key in the arguments, the arguments, the renderer, the graph and the defaults are asked for a
  defined value; without it, the renderer, the graph and the defaults are asked for a true value. So a
  setting that is false, zero or empty does not survive a later \<open>configure\<close> without its key.
\<close>

theorem renderer_configure_precedence:
  assumes "renderer_configure graph args r = Inr r'"
    and "is_object (r_this r)" and "is_object args" and "distinct (keys (r_defaults r))"
    and "key \<in> set (keys (r_defaults r))" and "\<forall>ps. get_prop (r_defaults r) key \<noteq> JObj ps"
  shows "get_prop (r_this r') key =
    (if has_prop args key
     then or_undef (get_prop args key) (or_undef (get_prop (r_this r) key)
            (or_undef (get_prop graph key) (get_prop (r_defaults r) key)))
     else js_or (get_prop (r_this r) key) (js_or (get_prop graph key) (get_prop (r_defaults r) key)))"
proof -
  have "\<not> nullish args" using assms(3) by (cases args) auto
  then obtain this' where t: "for_each (configure_key (r_defaults r) graph args) (keys (r_defaults r)) (r_this r) = Inr this'"
    and r': "r' = r\<lparr>r_this := this'\<rparr>"
    using assms(1) by (auto simp: renderer_configure_def js_bind_Inr_iff)
  obtain s u where "get_prop s key = get_prop (r_this r) key" "is_object s"
    "configure_key (r_defaults r) graph args key s = Inr u" "get_prop this' key = get_prop u key"
    using configure_keys_value [OF t assms(2,4,5)] by blast
  then show ?thesis
    using configure_key_plain [OF _ _ assms(6)] r' by simp
qed

lemma line_defaults_value:
  "line_defaults = JObj
     [(''tension'', JNum (Fin (4 / 5))), (''strokeWidth'', JNum (Fin 2)), (''unstack'', JBool True),
      (''padding'', JObj [(''top'', JNum (Fin (1 / 100))), (''right'', JNum (Fin 0)),
                          (''bottom'', JNum (Fin (1 / 100))), (''left'', JNum (Fin 0))]),
      (''stroke'', JBool True), (''fill'', JBool False), (''opacity'', JNum (Fin 1))]"
  by (simp add: line_defaults_def base_defaults_def extend_obj_def keys_def get_prop_def)

text \<open>A line renderer whose stroke was switched off has it on again after any later \<open>configure\<close>.\<close>

theorem renderer_configure_precedence_witness:
  "map_sum id (\<lambda>r. get_prop (r_this r) ''stroke'')
     (renderer_configure (JObj []) (JObj [(''tension'', JNum (Fin 1))])
        \<lparr>r_name = ''line'', r_defaults = line_defaults, r_this = JObj [(''stroke'', JBool False)]\<rparr>)
   = Inr (JBool True)"
proof -
  let ?r = "\<lparr>r_name = ''line'', r_defaults = line_defaults, r_this = JObj [(''stroke'', JBool False)]\<rparr>"
  let ?a = "JObj [(''tension'', JNum (Fin 1))]"
  obtain r' where r': "renderer_configure (JObj []) ?a ?r = Inr r'"
    by (simp add: renderer_configure_def line_defaults_value keys_def configure_key_def has_prop_def get_prop_def)
  have "get_prop (r_this r') ''stroke'' = JBool True"
    by (subst renderer_configure_precedence [OF r'])
       (simp_all add: line_defaults_value keys_def has_prop_def get_prop_def js_or_def)
  with r' show ?thesis by simp
qed


abbreviation ptz :: "rat \<Rightarrow> rat \<Rightarrow> point" where
  "ptz x y \<equiv> \<lparr>px = Fin x, py = Some (Fin y), py0 = Some (Fin 0), pidx = None\<rparr>"

abbreviation base_padding :: paddings where
  "base_padding \<equiv> \<lparr>pad_top = Fin (1 / 100), pad_right = Fin 0, pad_bottom = Fin (1 / 100), pad_left = Fin 0\<rparr>"


text \<open>
  C34. The interval on which the bar renderer bases the bar width is one of the gaps between neighbours that occur most often, with its number of
  occurrences, and the smallest of them when no gap is NaN; of fewer than two points it is 1. Infinite gaps count like others.
\<close>

theorem frequentInterval_most_frequent:
  "(length data < 2 \<longrightarrow> frequentInterval data = \<lparr>fr_count = 0, fr_magnitude = Fin 1\<rparr>)
   \<and> (2 \<le> length data \<longrightarrow>
      (\<exists>m. 0 < gap_count data m \<and> frequentInterval data = \<lparr>fr_count = gap_count data m, fr_magnitude = m\<rparr>
        \<and> (\<forall>k. gap_count data k \<le> gap_count data m)
        \<and> (gap_count data NaN = 0 \<longrightarrow> (\<forall>k. gap_count data k = gap_count data m \<longrightarrow> m \<le> k))))"
proof (intro conjI impI)
  assume "length data < 2"
  then have "row_intervals data = []" by (cases data) (auto simp: row_intervals_def)
  then show "frequentInterval data = \<lparr>fr_count = 0, fr_magnitude = Fin 1\<rparr>"
    by (simp add: frequentInterval_def interval_counts_def sort_asc_def)
qed (rule frequent_gap)

theorem frequentInterval_most_frequent_witness:
  "frequentInterval [ptz 0 1, ptz 10 1, ptz 15 1, ptz 25 1] = \<lparr>fr_count = 2, fr_magnitude = Fin 10\<rparr>"
proof -
  let ?d = "[ptz 0 1, ptz 10 1, ptz 15 1, ptz 25 1]"
  have g: "gap_count ?d k = (if k = Fin 10 then 2 else if k = Fin 5 then 1 else 0)" for k
    by (simp add: gap_count_intervals row_intervals_def)
  obtain m where "frequentInterval ?d = \<lparr>fr_count = gap_count ?d m, fr_magnitude = m\<rparr>" "\<forall>k. gap_count ?d k \<le> gap_count ?d m"
    using frequentInterval_most_frequent [of ?d] by auto
  moreover from this(2) have "2 \<le> gap_count ?d m" using g [of "Fin 10"] by metis
  then have "m = Fin 10" unfolding g by (simp split: if_splits)
  ultimately show ?thesis by (simp add: g)
qed

end
