(* ===== verification/GraphConfig.thy ===== *)
theory GraphConfig
  imports Renderer GraphData
begin

text \<open>
  The life of a \<open>Rickshaw.Graph\<close> object outside its data: construction, \<open>configure\<close>, the registry of
  renderers and \<open>setRenderer\<close>, \<open>setSize\<close>, the scales of \<open>discoverRange\<close>, and the callbacks.

  The graph's own settings are a JavaScript object. Renderer objects live in a store, because the current
  renderer and the registry share them. Callbacks are numbers; what calling one does is the argument
  \<open>invoke\<close>. The classes of renderers that a caller may pass instead of a name are numbers too, and \<open>cls\<close>
  gives the name and defaults of a class. \<open>style\<close> is the pair of numbers that parsing the element's
  computed width and height gives.
\<close>

section \<open>State\<close>

record scale =
  sc_base :: jsval
  sc_domain :: "jsnum \<times> jsnum"
  sc_range :: "jsval \<times> jsval"

record graph_scales =
  gx :: scale
  gy :: scale
  gx_magnitude :: scale
  gy_magnitude :: scale

record graph =
  g_this :: jsval
  g_config :: jsval
  g_objs :: "renderer list"
  g_registry :: "(string \<times> nat) list"
  g_current :: "nat option"
  g_series :: jsval
  g_updateCallbacks :: "nat list"
  g_configureCallbacks :: "nat list"
  g_classes :: "string list"
  g_vis :: "(jsval \<times> jsval) option"
  g_scales :: "graph_scales option"

type_synonym invoke = "nat \<Rightarrow> jsval \<Rightarrow> graph \<Rightarrow> graph js"
type_synonym classes = "nat \<Rightarrow> string \<times> jsval"

definition graph_defaults :: jsval where
  "graph_defaults = JObj
     [(''interpolation'', JStr ''cardinal''), (''offset'', JStr ''zero''), (''min'', JUndef), (''max'', JUndef),
      (''preserve'', JBool False), (''xScale'', JUndef), (''yScale'', JUndef), (''stack'', JBool True)]"

section \<open>Renderers\<close>

definition registerRenderer :: "renderer \<Rightarrow> graph \<Rightarrow> graph" where
  "registerRenderer r g =
     g\<lparr>g_objs := g_objs g @ [r],
       g_registry := (r_name r, length (g_objs g)) # filter (\<lambda>(n, _). n \<noteq> r_name r) (g_registry g)\<rparr>"

text \<open>\<open>configure\<close> of the renderer's class: the multi renderer also keeps the arguments.\<close>

definition class_configure :: "jsval \<Rightarrow> jsval \<Rightarrow> renderer \<Rightarrow> renderer js" where
  "class_configure graph args r =
     renderer_configure graph args
       (if r_name r = ''multi'' then r\<lparr>r_this := set_prop ''config'' args (r_this r)\<rparr> else r)"

definition load_renderer :: "string \<times> jsval \<Rightarrow> graph \<Rightarrow> graph js" where
  "load_renderer cl g =
     js_bind (new_renderer (fst cl) (snd cl) (g_this g) (JObj [])) (\<lambda>r. Inr (registerRenderer r g))"

definition library_renderers :: "(string \<times> jsval) list" where
  "library_renderers =
     [(''line'', line_defaults), (''stack'', stack_defaults), (''bar'', bar_defaults), (''area'', area_defaults),
      (''scatterplot'', scatterplot_defaults), (''multi'', multi_defaults), (''lineplot'', lineplot_defaults)]"

definition loadRenderers :: "graph \<Rightarrow> graph js" where
  "loadRenderers g = for_each load_renderer library_renderers g"

text \<open>\<open>typeof v == 'object'\<close>\<close>

fun typeof_object :: "jsval \<Rightarrow> bool" where
  "typeof_object JNull = True"
| "typeof_object (JArr _) = True"
| "typeof_object (JObj _) = True"
| "typeof_object _ = False"

definition configure_current :: "jsval \<Rightarrow> graph \<Rightarrow> graph js" where
  "configure_current args g =
     (case g_current g of
        None \<Rightarrow> Inl TypeError
      | Some i \<Rightarrow>
          js_bind (class_configure (g_this g) args (g_objs g ! i)) (\<lambda>r. Inr (g\<lparr>g_objs := (g_objs g)[i := r]\<rparr>)))"

definition setRenderer :: "classes \<Rightarrow> jsval \<Rightarrow> jsval \<Rightarrow> graph \<Rightarrow> graph js" where
  "setRenderer cls r args g =
     js_bind
       (case r of
          JFun n _ \<Rightarrow>
            js_bind (new_renderer (fst (cls n)) (snd (cls n)) (g_this g) (JObj []))
              (\<lambda>obj. Inr ((registerRenderer obj g)\<lparr>g_current := Some (length (g_objs g))\<rparr>))
        | JStr name \<Rightarrow>
            (case map_of (g_registry g) name of
               None \<Rightarrow> Inl (Thrown (''couldn't find renderer '' @ name))
             | Some i \<Rightarrow> Inr (g\<lparr>g_current := Some i\<rparr>))
        | _ \<Rightarrow> Inl (Thrown ''couldn't find renderer ''))
       (\<lambda>g1. if typeof_object args then configure_current args g1 else Inr g1)"

section \<open>Size\<close>

definition setSize :: "jsnum \<times> jsnum \<Rightarrow> jsval \<Rightarrow> graph \<Rightarrow> graph" where
  "setSize style args g =
     (let w = get_prop args ''width''; h = get_prop args ''height'';
          (w', h') = (if truthy w \<and> truthy h then (w, h)
                      else (js_or w (js_or (JNum (fst style)) (JNum (Fin 400))),
                            js_or h (js_or (JNum (snd style)) (JNum (Fin 250)))))
      in g\<lparr>g_this := set_prop ''height'' h' (set_prop ''width'' w' (g_this g)),
           g_vis := (case g_vis g of None \<Rightarrow> None | Some _ \<Rightarrow> Some (w', h'))\<rparr>)"

section \<open>configure\<close>

definition config_value :: "jsval \<Rightarrow> jsval \<Rightarrow> string \<Rightarrow> jsval" where
  "config_value args this k =
     (if has_prop args k then get_prop args k
      else if has_prop this k then get_prop this k else get_prop graph_defaults k)"

definition config_object :: "jsval \<Rightarrow> graph \<Rightarrow> jsval" where
  "config_object args g =
     fold (\<lambda>k c. set_prop k (config_value args (g_this g) k) c) (keys graph_defaults) (g_config g)"

definition args_unstack :: "jsval \<Rightarrow> jsval" where
  "args_unstack args =
     (if has_prop args ''stack'' then set_prop ''unstack'' (JBool (\<not> truthy (get_prop args ''stack''))) args else args)"

definition current_name :: "graph \<Rightarrow> jsval" where
  "current_name g = (case g_current g of None \<Rightarrow> JUndef | Some i \<Rightarrow> JStr (r_name (g_objs g ! i)))"

definition graph_configure :: "invoke \<Rightarrow> classes \<Rightarrow> jsnum \<times> jsnum \<Rightarrow> jsval \<Rightarrow> graph \<Rightarrow> graph js" where
  "graph_configure invoke cls style args g =
     (let g1 = (if truthy (get_prop args ''width'') \<or> truthy (get_prop args ''height'') then setSize style args g else g);
          c = config_object args g1;
          g2 = g1\<lparr>g_config := c, g_this := extend_obj (g_this g1) c\<rparr>;
          args' = args_unstack args;
          r = js_or (get_prop args' ''renderer'') (js_or (current_name g2) (JStr ''stack''))
      in js_bind (setRenderer cls r args' g2)
           (\<lambda>g3. for_each (\<lambda>cb. invoke cb args') (g_configureCallbacks g3) g3))"

definition onConfigure :: "nat \<Rightarrow> graph \<Rightarrow> graph" where
  "onConfigure cb g = g\<lparr>g_configureCallbacks := g_configureCallbacks g @ [cb]\<rparr>"

definition onUpdate :: "nat \<Rightarrow> graph \<Rightarrow> graph" where
  "onUpdate cb g = g\<lparr>g_updateCallbacks := g_updateCallbacks g @ [cb]\<rparr>"

section \<open>Scales\<close>

definition discoverRange :: "domain_xy \<Rightarrow> graph \<Rightarrow> graph" where
  "discoverRange domain g =
     (let w = get_prop (g_this g) ''width''; h = get_prop (g_this g) ''height'';
          (x0, x1) = dom_x domain; (y0, y1) = dom_y domain
      in g\<lparr>g_scales := Some
            \<lparr>gx = \<lparr>sc_base = get_prop (g_this g) ''xScale'', sc_domain = (x0, x1), sc_range = (JNum (Fin 0), w)\<rparr>,
             gy = \<lparr>sc_base = get_prop (g_this g) ''yScale'', sc_domain = (y0, y1), sc_range = (h, JNum (Fin 0))\<rparr>,
             gx_magnitude = \<lparr>sc_base = JUndef, sc_domain = (x0 - x0, x1 - x0), sc_range = (JNum (Fin 0), w)\<rparr>,
             gy_magnitude = \<lparr>sc_base = JUndef, sc_domain = (y0 - y0, y1 - y0), sc_range = (JNum (Fin 0), h)\<rparr>\<rparr>\<rparr>)"

text \<open>\<open>dataDomain\<close>, with the minimum and maximum of d3 as arguments; an empty row is a type error.\<close>

definition dataDomain ::
  "(jsnum list \<Rightarrow> jsnum) \<Rightarrow> (jsnum list \<Rightarrow> jsnum) \<Rightarrow> point list list \<Rightarrow> (jsnum \<times> jsnum) js"
where
  "dataDomain d3min d3max rows =
     (if [] \<in> set rows then Inl TypeError
      else Inr (d3min (map (px \<circ> hd) rows), d3max (map (px \<circ> last) rows)))"

section \<open>Series, construction, rendering\<close>

definition setSeries :: "(jsval \<Rightarrow> jsval \<Rightarrow> bool) \<Rightarrow> jsval \<Rightarrow> graph \<Rightarrow> graph js" where
  "setSeries cmp series g = js_bind (validateSeries cmp series) (\<lambda>_. Inr (g\<lparr>g_series := series\<rparr>))"

text \<open>
  \<open>initialize\<close>. The element is \<open>None\<close> when missing, else its node type. The domain that the current renderer
  computes is the argument \<open>domain\<close>.
\<close>

definition new_graph ::
  "invoke \<Rightarrow> classes \<Rightarrow> jsnum \<times> jsnum \<Rightarrow> (jsval \<Rightarrow> jsval \<Rightarrow> bool) \<Rightarrow> (graph \<Rightarrow> domain_xy js) \<Rightarrow>
   int option \<Rightarrow> jsval \<Rightarrow> graph js"
where
  "new_graph invoke cls style cmp domain element args =
     (case element of
        None \<Rightarrow> Inl (Thrown ''Rickshaw.Graph needs a reference to an element'')
      | Some nodeType \<Rightarrow>
          if nodeType \<noteq> 1 then Inl (Thrown ''Rickshaw.Graph element was defined but not an HTML element'')
          else
            let g0 = \<lparr>g_this = JObj [], g_config = JObj [], g_objs = [], g_registry = [], g_current = None,
                      g_series = get_prop args ''series'', g_updateCallbacks = [], g_configureCallbacks = [],
                      g_classes = [], g_vis = None, g_scales = None\<rparr>
            in js_bind (loadRenderers g0) (\<lambda>g1.
               js_bind (graph_configure invoke cls style args g1) (\<lambda>g2.
               js_bind (setSeries cmp (get_prop args ''series'') g2) (\<lambda>g3.
               let size = JObj [(''width'', get_prop args ''width''), (''height'', get_prop args ''height'')];
                   g4 = setSize style size g3;
                   g5 = g4\<lparr>g_classes := g_classes g4 @ [''rickshaw_graph''],
                           g_vis := Some (get_prop (g_this g4) ''width'', get_prop (g_this g4) ''height'')\<rparr>
               in js_bind (domain g5) (\<lambda>d. Inr (discoverRange d g5))))))"

text \<open>
  \<open>render\<close>: the stacking and the drawing are the arguments \<open>stack\<close> and \<open>draw\<close> (modelled with the data and
  the renderers); the update callbacks run last, in the order they were added.
\<close>

definition graph_render ::
  "invoke \<Rightarrow> (graph \<Rightarrow> graph js) \<Rightarrow> (graph \<Rightarrow> domain_xy js) \<Rightarrow> (graph \<Rightarrow> graph js) \<Rightarrow> graph \<Rightarrow> graph js"
where
  "graph_render invoke stack domain draw g =
     js_bind (stack g) (\<lambda>g1.
     js_bind (domain g1) (\<lambda>d.
     js_bind (draw (discoverRange d g1)) (\<lambda>g2.
     for_each (\<lambda>cb. invoke cb JUndef) (g_updateCallbacks g2) g2)))"

section \<open>The state of a graph\<close>

definition class_ok :: "jsval \<Rightarrow> bool" where
  "class_ok d = (distinct (keys d) \<and> ''unstack'' \<in> set (keys d) \<and> (\<forall>ps. get_prop d ''unstack'' \<noteq> JObj ps))"

definition renderer_ok :: "renderer \<Rightarrow> bool" where
  "renderer_ok r = (is_object (r_this r) \<and> class_ok (r_defaults r))"

definition graph_inv :: "graph \<Rightarrow> bool" where
  "graph_inv g = (is_object (g_this g) \<and> is_object (g_config g)
     \<and> set (keys (g_config g)) \<subseteq> set (keys graph_defaults)
     \<and> list_all renderer_ok (g_objs g)
     \<and> (\<forall>n i. map_of (g_registry g) n = Some i \<longrightarrow> i < length (g_objs g) \<and> r_name (g_objs g ! i) = n)
     \<and> (\<forall>i. g_current g = Some i \<longrightarrow> i < length (g_objs g)))"

lemma class_configure_ok:
  assumes "class_configure G args r = Inr r'" and "renderer_ok r" and "is_object args"
  shows "renderer_ok r' \<and> r_name r' = r_name r
    \<and> (has_prop args ''unstack'' \<and> get_prop args ''unstack'' \<noteq> JUndef \<longrightarrow>
         get_prop (r_this r') ''unstack'' = get_prop args ''unstack'')"
proof -
  let ?t = "if r_name r = ''multi'' then set_prop ''config'' args (r_this r) else r_this r"
  have a: "\<not> nullish args" using assms(3) by (cases args) auto
  obtain t where t: "for_each (configure_key (r_defaults r) G args) (keys (r_defaults r)) ?t = Inr t"
    "r' = r\<lparr>r_this := t\<rparr>"
    using assms(1) a by (auto simp: class_configure_def renderer_configure_def js_bind_Inr_iff split: if_splits)
  have ok: "is_object ?t" "distinct (keys (r_defaults r))" "''unstack'' \<in> set (keys (r_defaults r))"
    "\<forall>ps. get_prop (r_defaults r) ''unstack'' \<noteq> JObj ps"
    using assms(2) by (auto simp: renderer_ok_def class_ok_def)
  have "is_object t" using configure_keys_frame [OF t(1) ok(1)] by simp
  moreover have "get_prop t ''unstack'' = get_prop args ''unstack''"
    if "has_prop args ''unstack''" "get_prop args ''unstack'' \<noteq> JUndef"
    using configure_keys_value [OF t(1) ok(1-3)] configure_key_plain [OF _ _ ok(4)] that
    by (force simp: or_undef_def)
  ultimately show ?thesis using assms(2) t(2) by (auto simp: renderer_ok_def)
qed

lemma new_renderer_ok:
  assumes "new_renderer name d G (JObj []) = Inr r" and "class_ok d"
  shows "renderer_ok r \<and> r_name r = name"
proof -
  obtain t0 where "renderer_configure G (JObj []) \<lparr>r_name = name, r_defaults = d, r_this = t0\<rparr> = Inr r"
    and o: "is_object t0"
    using assms(1) by (auto simp: new_renderer_def Let_def split: if_splits)
  then obtain t where t: "for_each (configure_key d G (JObj [])) (keys d) t0 = Inr t"
    "r = \<lparr>r_name = name, r_defaults = d, r_this = t\<rparr>"
    by (auto simp: renderer_configure_def js_bind_Inr_iff)
  from configure_keys_frame [OF t(1) o] t(2) assms(2) show ?thesis by (simp add: renderer_ok_def)
qed

lemma map_of_without: "map_of (filter (\<lambda>(n, _). n \<noteq> m) xs) k = (if k = m then None else map_of xs k)"
  by (induction xs) auto

lemma registerRenderer_inv: "graph_inv g \<Longrightarrow> renderer_ok r \<Longrightarrow> graph_inv (registerRenderer r g)"
  by (fastforce simp: graph_inv_def registerRenderer_def nth_append map_of_without less_Suc_eq split: if_splits)

lemma replace_obj_inv:
  assumes "graph_inv g" and "i < length (g_objs g)" and "renderer_ok r" and "r_name r = r_name (g_objs g ! i)"
  shows "graph_inv (g\<lparr>g_objs := (g_objs g)[i := r]\<rparr>)"
proof -
  have nth: "(g_objs g)[i := r] ! j = (if i = j then r else g_objs g ! j)" for j
    using assms(2) by (simp add: nth_list_update)
  show ?thesis using assms(1,3,4) unfolding graph_inv_def by (auto simp: nth list_all_length)
qed

lemma setSize_inv: "graph_inv g \<Longrightarrow> graph_inv (setSize style args g)"
  by (simp add: graph_inv_def setSize_def Let_def split: prod.splits)

lemma setSize_other:
  "is_object (g_this g) \<Longrightarrow> k \<noteq> ''width'' \<Longrightarrow> k \<noteq> ''height'' \<Longrightarrow>
     get_prop (g_this (setSize style args g)) k = get_prop (g_this g) k"
  by (simp add: setSize_def Let_def split: prod.splits)

lemma setRenderer_ok:
  assumes "setRenderer cls r args g = Inr g'" and "graph_inv g" and "\<forall>n. class_ok (snd (cls n))"
    and "is_object args"
  shows "graph_inv g' \<and> g_this g' = g_this g \<and> g_configureCallbacks g' = g_configureCallbacks g
    \<and> (\<exists>i. g_current g' = Some i
         \<and> (\<forall>name. r = JStr name \<longrightarrow> r_name (g_objs g' ! i) = name)
         \<and> (\<forall>ps. args = JObj ps \<and> has_prop args ''unstack'' \<and> get_prop args ''unstack'' \<noteq> JUndef \<longrightarrow>
              get_prop (r_this (g_objs g' ! i)) ''unstack'' = get_prop args ''unstack''))"
proof -
  obtain g1 where step: "(if typeof_object args then configure_current args g1 else Inr g1) = Inr g'"
    and sel: "(case r of
          JFun n _ \<Rightarrow>
            js_bind (new_renderer (fst (cls n)) (snd (cls n)) (g_this g) (JObj []))
              (\<lambda>obj. Inr ((registerRenderer obj g)\<lparr>g_current := Some (length (g_objs g))\<rparr>))
        | JStr name \<Rightarrow>
            (case map_of (g_registry g) name of
               None \<Rightarrow> Inl (Thrown (''couldn't find renderer '' @ name))
             | Some i \<Rightarrow> Inr (g\<lparr>g_current := Some i\<rparr>))
        | _ \<Rightarrow> Inl (Thrown ''couldn't find renderer '')) = Inr g1"
    using assms(1) by (auto simp: setRenderer_def js_bind_Inr_iff)
  have "\<exists>i. graph_inv g1 \<and> g_this g1 = g_this g \<and> g_configureCallbacks g1 = g_configureCallbacks g
      \<and> g_current g1 = Some i \<and> (\<forall>name. r = JStr name \<longrightarrow> r_name (g_objs g1 ! i) = name)"
  proof (cases r)
    case (JStr name)
    with sel assms(2) show ?thesis by (auto simp: graph_inv_def split: option.splits)
  next
    case (JFun n ps)
    then obtain obj where "new_renderer (fst (cls n)) (snd (cls n)) (g_this g) (JObj []) = Inr obj"
      and g1: "g1 = (registerRenderer obj g)\<lparr>g_current := Some (length (g_objs g))\<rparr>"
      using sel by (auto simp: js_bind_Inr_iff)
    then have "graph_inv (registerRenderer obj g)"
      using new_renderer_ok registerRenderer_inv assms(2,3) by blast
    with g1 JFun show ?thesis by (auto simp: graph_inv_def registerRenderer_def)
  qed (use sel in auto)
  then obtain i where g1: "graph_inv g1" "g_this g1 = g_this g" "g_configureCallbacks g1 = g_configureCallbacks g"
    "g_current g1 = Some i" "\<forall>name. r = JStr name \<longrightarrow> r_name (g_objs g1 ! i) = name" by blast
  show ?thesis
  proof (cases "typeof_object args")
    case False
    with step g1 show ?thesis by (cases args) auto
  next
    case True
    then obtain r' where r': "class_configure (g_this g1) args (g_objs g1 ! i) = Inr r'"
      "g' = g1\<lparr>g_objs := (g_objs g1)[i := r']\<rparr>"
      using step g1(4) by (auto simp: configure_current_def js_bind_Inr_iff)
    have i: "i < length (g_objs g1)" "renderer_ok (g_objs g1 ! i)"
      using g1(1,4) by (auto simp: graph_inv_def list_all_length)
    note ok = class_configure_ok [OF r'(1) i(2) assms(4)]
    have "graph_inv g'" unfolding r'(2) by (rule replace_obj_inv) (use g1(1) ok i in auto)
    with g1 ok i r'(2) show ?thesis by auto
  qed
qed

lemma config_object_ok:
  assumes "graph_inv g"
  shows "is_object (config_object args g)
    \<and> set (keys (config_object args g)) = set (keys graph_defaults)
    \<and> (\<forall>k \<in> set (keys graph_defaults). get_prop (config_object args g) k = config_value args (g_this g) k)"
proof -
  have "is_object (g_config g)" "set (keys (g_config g)) \<subseteq> set (keys graph_defaults)"
    using assms by (auto simp: graph_inv_def)
  then show ?thesis
    using extend_fold [of "g_config g" "config_value args (g_this g)" "keys graph_defaults"]
      has_prop_fold [of "g_config g" "config_value args (g_this g)" "keys graph_defaults"]
    by (auto simp: config_object_def has_prop_keys)
qed

lemma keys_graph_defaults:
  "keys graph_defaults = [''interpolation'', ''offset'', ''min'', ''max'', ''preserve'', ''xScale'', ''yScale'', ''stack'']"
  by (simp add: graph_defaults_def keys_def)

lemma setSize_frame:
  assumes "graph_inv g" and "k \<in> set (keys graph_defaults)"
  shows "config_value args (g_this (setSize style a g)) k = config_value args (g_this g) k"
  using assms by (auto simp: keys_graph_defaults graph_inv_def config_value_def setSize_def Let_def split: prod.splits)

lemma is_object_args_unstack [simp]: "is_object args \<Longrightarrow> is_object (args_unstack args)"
  by (simp add: args_unstack_def)

text \<open>
  What \<open>configure\<close> promises its callbacks: the settings by precedence, the current renderer, its \<open>unstack\<close>, and a consistent state.
\<close>

definition configured :: "jsval \<Rightarrow> graph \<Rightarrow> graph \<Rightarrow> bool" where
  "configured args g g' = (graph_inv g' \<and> g_configureCallbacks g' = g_configureCallbacks g
    \<and> (\<forall>k \<in> set (keys graph_defaults).
         (has_prop args k \<longrightarrow> get_prop (g_this g') k = get_prop args k)
         \<and> (\<not> has_prop args k \<and> has_prop (g_this g) k \<longrightarrow> get_prop (g_this g') k = get_prop (g_this g) k)
         \<and> (\<not> has_prop args k \<and> \<not> has_prop (g_this g) k \<longrightarrow> get_prop (g_this g') k = get_prop graph_defaults k))
    \<and> (\<exists>i. g_current g' = Some i
        \<and> (\<forall>name. get_prop args ''renderer'' = JStr name \<and> name \<noteq> [] \<longrightarrow> r_name (g_objs g' ! i) = name)
        \<and> (has_prop args ''stack'' \<longrightarrow>
             get_prop (r_this (g_objs g' ! i)) ''unstack'' = JBool (\<not> truthy (get_prop args ''stack'')))))"

text \<open>The state in which \<open>configure\<close> chooses the renderer, and its choice.\<close>

definition with_settings :: "jsnum \<times> jsnum \<Rightarrow> jsval \<Rightarrow> graph \<Rightarrow> graph" where
  "with_settings style args g =
     (let g1 = (if truthy (get_prop args ''width'') \<or> truthy (get_prop args ''height'') then setSize style args g else g);
          c = config_object args g1
      in g1\<lparr>g_config := c, g_this := extend_obj (g_this g1) c\<rparr>)"

lemma graph_configure_split:
  "graph_configure invoke cls style args g =
     js_bind (setRenderer cls (js_or (get_prop (args_unstack args) ''renderer'') (js_or (current_name (with_settings style args g)) (JStr ''stack'')))
                (args_unstack args) (with_settings style args g))
       (\<lambda>g3. for_each (\<lambda>cb. invoke cb (args_unstack args)) (g_configureCallbacks g3) g3)"
  by (simp add: graph_configure_def with_settings_def Let_def)

lemma with_settings_ok:
  assumes inv: "graph_inv g"
  shows "graph_inv (with_settings style args g) \<and> g_configureCallbacks (with_settings style args g) = g_configureCallbacks g
    \<and> g_registry (with_settings style args g) = g_registry g \<and> g_objs (with_settings style args g) = g_objs g
    \<and> (\<forall>k \<in> set (keys graph_defaults). get_prop (g_this (with_settings style args g)) k = config_value args (g_this g) k)"
proof -
  define g1 where "g1 = (if truthy (get_prop args ''width'') \<or> truthy (get_prop args ''height'') then setSize style args g else g)"
  have inv1: "graph_inv g1" using inv setSize_inv by (simp add: g1_def)
  have keep: "g_configureCallbacks g1 = g_configureCallbacks g" "g_registry g1 = g_registry g" "g_objs g1 = g_objs g"
    by (simp_all add: g1_def setSize_def Let_def split: prod.splits)
  note c = config_object_ok [OF inv1, of args]
  have w: "with_settings style args g = g1\<lparr>g_config := config_object args g1, g_this := extend_obj (g_this g1) (config_object args g1)\<rparr>"
    by (simp add: with_settings_def g1_def Let_def)
  have "graph_inv (with_settings style args g)" using inv1 c is_object_extend by (simp add: w graph_inv_def)
  moreover have "get_prop (g_this (with_settings style args g)) k = config_value args (g_this g) k" if k: "k \<in> set (keys graph_defaults)" for k
  proof -
    have "get_prop (g_this (with_settings style args g)) k = get_prop (config_object args g1) k"
      using c k inv1 by (simp add: w get_prop_extend graph_inv_def has_prop_keys)
    also have "\<dots> = config_value args (g_this g1) k" using c k by simp
    also have "\<dots> = config_value args (g_this g) k" using setSize_frame [OF inv k] by (simp add: g1_def)
    finally show ?thesis .
  qed
  ultimately show ?thesis using keep by (simp add: w)
qed

lemma setRenderer_configured:
  assumes s: "setRenderer cls (js_or (get_prop (args_unstack args) ''renderer'') d) (args_unstack args) (with_settings style args g) = Inr g3"
    and inv: "graph_inv g" and cls: "\<forall>n. class_ok (snd (cls n))" and args: "args = JObj ps"
  shows "configured args g g3"
proof -
  define a where "a = args_unstack args"
  define w where "w = with_settings style args g"
  have o: "is_object args" using args by simp
  have wok: "graph_inv w" "g_configureCallbacks w = g_configureCallbacks g"
    "\<forall>k \<in> set (keys graph_defaults). get_prop (g_this w) k = config_value args (g_this g) k"
    using with_settings_ok [OF inv, of style args] unfolding w_def by blast+
  have aok: "is_object a" "get_prop a ''renderer'' = get_prop args ''renderer''"
    "has_prop args ''stack'' \<Longrightarrow> has_prop a ''unstack'' \<and> get_prop a ''unstack'' = JBool (\<not> truthy (get_prop args ''stack''))"
    using o by (simp_all add: a_def args_unstack_def)
  have aobj: "\<exists>qs. a = JObj qs" using args by (simp add: a_def args_unstack_def)
  note s' = setRenderer_ok [OF s [folded a_def w_def] wok(1) cls aok(1)]
  then obtain i where i: "g_current g3 = Some i" "\<forall>name. js_or (get_prop a ''renderer'') d = JStr name \<longrightarrow> r_name (g_objs g3 ! i) = name"
    "\<forall>ps. a = JObj ps \<and> has_prop a ''unstack'' \<and> get_prop a ''unstack'' \<noteq> JUndef \<longrightarrow>
       get_prop (r_this (g_objs g3 ! i)) ''unstack'' = get_prop a ''unstack''" by blast
  have state: "graph_inv g3" "g_this g3 = g_this w" "g_configureCallbacks g3 = g_configureCallbacks g"
    using s' wok(2) by simp_all
  have vals: "\<forall>k \<in> set (keys graph_defaults). get_prop (g_this g3) k = config_value args (g_this g) k" using wok(3) state(2) by simp
  have "r_name (g_objs g3 ! i) = name" if "get_prop args ''renderer'' = JStr name" "name \<noteq> []" for name
    using i(2) that aok(2) by (simp add: js_or_def)
  moreover have "get_prop (r_this (g_objs g3 ! i)) ''unstack'' = JBool (\<not> truthy (get_prop args ''stack''))"
    if "has_prop args ''stack''" using i(3) aobj aok(3) [OF that] by auto
  moreover have "(has_prop args k \<longrightarrow> v = get_prop args k) \<and> (\<not> has_prop args k \<and> has_prop t k \<longrightarrow> v = get_prop t k)
      \<and> (\<not> has_prop args k \<and> \<not> has_prop t k \<longrightarrow> v = get_prop graph_defaults k)" if "v = config_value args t k" for v t k
    unfolding that config_value_def by simp
  ultimately show ?thesis using i(1) state(1,3) vals unfolding configured_def by blast
qed

lemma graph_configure_mid:
  assumes run: "graph_configure invoke cls style args g = Inr g'"
    and inv: "graph_inv g" and cls: "\<forall>n. class_ok (snd (cls n))" and args: "args = JObj ps"
  shows "\<exists>g3. configured args g g3 \<and> for_each (\<lambda>cb. invoke cb (args_unstack args)) (g_configureCallbacks g) g3 = Inr g'"
proof -
  obtain g3 where s: "setRenderer cls (js_or (get_prop (args_unstack args) ''renderer'') (js_or (current_name (with_settings style args g)) (JStr ''stack'')))
      (args_unstack args) (with_settings style args g) = Inr g3"
    and cb: "for_each (\<lambda>cb. invoke cb (args_unstack args)) (g_configureCallbacks g3) g3 = Inr g'"
    using run by (auto simp: graph_configure_split js_bind_Inr_iff)
  from setRenderer_configured [OF s inv cls args] have "configured args g g3" .
  with cb show ?thesis by (auto simp: configured_def)
qed

lemma graph_configure_ok:
  assumes run: "graph_configure invoke cls style args g = Inr g'"
    and inv: "graph_inv g" and cls: "\<forall>n. class_ok (snd (cls n))"
    and args: "args = JObj ps" and quiet: "g_configureCallbacks g = []"
  shows "graph_inv g' \<and> (\<forall>k \<in> set (keys graph_defaults). get_prop (g_this g') k = config_value args (g_this g) k)"
proof -
  obtain g3 where g3: "configured args g g3" "for_each (\<lambda>cb. invoke cb (args_unstack args)) (g_configureCallbacks g) g3 = Inr g'"
    using graph_configure_mid [OF run inv cls args] by blast
  then have "g' = g3" using quiet by simp
  with g3(1) show ?thesis by (auto simp: configured_def config_value_def)
qed

text \<open>Settings that are objects can only be configured inside; without them a renderer takes any arguments.\<close>

lemma configure_plain_returns:
  assumes "\<forall>k \<in> set ks. \<forall>d. get_prop D k = JObj d \<longrightarrow> \<not> has_prop A k"
  shows "\<exists>t. for_each (configure_key D G A) ks this = Inr t"
  using assms
proof (induction ks arbitrary: this)
  case (Cons k ks)
  have "\<exists>t. configure_key D G A k this = Inr t" using Cons.prems by (cases "get_prop D k") (auto simp: configure_key_def)
  with Cons show ?case by fastforce
qed simp

lemma configured_by_name:
  assumes inv: "graph_inv g" and args: "args = JObj ps" and name: "get_prop args ''renderer'' = JStr name" "name \<noteq> []"
    and reg: "map_of (g_registry g) name = Some i" and plain: "\<forall>k d. get_prop (r_defaults (g_objs g ! i)) k = JObj d \<longrightarrow> \<not> has_prop args k"
  shows "\<exists>g3. setRenderer cls (js_or (get_prop (args_unstack args) ''renderer'') d) (args_unstack args) (with_settings style args g) = Inr g3
    \<and> g_current g3 = Some i \<and> g_registry g3 = g_registry g \<and> g_configureCallbacks g3 = g_configureCallbacks g
    \<and> (\<forall>j. j \<noteq> i \<longrightarrow> g_objs g3 ! j = g_objs g ! j)"
proof -
  let ?a = "args_unstack args" and ?w = "with_settings style args g" and ?r = "g_objs g ! i"
  have w: "g_registry ?w = g_registry g" "g_objs ?w = g_objs g" "g_configureCallbacks ?w = g_configureCallbacks g" using with_settings_ok [OF inv, of style args] by blast+
  have a: "is_object args" "is_object ?a" using args by simp_all
  have "i < length (g_objs g) \<and> list_all renderer_ok (g_objs g)" using inv reg unfolding graph_inv_def by blast
  then have i: "i < length (g_objs g)" "renderer_ok ?r" by (simp_all add: list_all_length)
  have r: "js_or (get_prop ?a ''renderer'') d = JStr name" using a name by (simp add: args_unstack_def js_or_def)
  have "\<not> has_prop ?a k" if "get_prop (r_defaults ?r) k = JObj d" for k d
  proof -
    have "k \<noteq> ''unstack''" using i(2) that unfolding renderer_ok_def class_ok_def by blast
    moreover have "\<not> has_prop args k" using plain that by blast
    ultimately show ?thesis using a(1) by (simp add: args_unstack_def)
  qed
  then have "\<forall>k \<in> set (keys (r_defaults ?r)). \<forall>d. get_prop (r_defaults ?r) k = JObj d \<longrightarrow> \<not> has_prop ?a k" by blast
  from configure_plain_returns [OF this] obtain t where "for_each (configure_key (r_defaults ?r) (g_this ?w) ?a) (keys (r_defaults ?r))
      (if r_name ?r = ''multi'' then set_prop ''config'' ?a (r_this ?r) else r_this ?r) = Inr t" by blast
  moreover have "\<not> nullish ?a" using a(2) by (cases ?a) auto
  ultimately have "class_configure (g_this ?w) ?a ?r = Inr (?r\<lparr>r_this := t\<rparr>)"
    by (cases "r_name ?r = ''multi''") (simp_all add: class_configure_def renderer_configure_def)
  then obtain r' where r': "class_configure (g_this ?w) ?a ?r = Inr r'" by blast
  have o: "typeof_object ?a" using args by (simp add: args_unstack_def)
  define v where "v = ?w"
  have "setRenderer cls (JStr name) ?a v = Inr (v\<lparr>g_current := Some i, g_objs := (g_objs g)[i := r']\<rparr>)"
    using w reg r' o by (simp add: setRenderer_def configure_current_def flip: v_def)
  then show ?thesis unfolding r using w by (simp flip: v_def)
qed

section \<open>Properties\<close>

text \<open>
  C36. \<open>configure\<close> of a graph, whatever its callbacks are. When it reaches them, every setting has the caller's value if the caller gave one, else its
  own value if it had one, else the default; the requested renderer is current; a \<open>stack\<close> option has become the opposite \<open>unstack\<close> of that
  renderer; and the registry, the store of renderers and the settings are consistent. A renderer that is not registered is refused. A registered one is
  selected, when the arguments leave the settings alone that are objects: no other renderer changes, and only a callback can fail then.
\<close>

theorem graph_configure_settings:
  assumes inv: "graph_inv g" and cls: "\<forall>n. class_ok (snd (cls n))" and args: "args = JObj ps"
  shows "(\<forall>g'. graph_configure invoke cls style args g = Inr g' \<longrightarrow>
      (\<exists>g3. configured args g g3 \<and> for_each (\<lambda>cb. invoke cb (args_unstack args)) (g_configureCallbacks g) g3 = Inr g'))
    \<and> (\<forall>name. get_prop args ''renderer'' = JStr name \<and> name \<noteq> [] \<longrightarrow>
        (case map_of (g_registry g) name of
           None \<Rightarrow> graph_configure invoke cls style args g = Inl (Thrown (''couldn't find renderer '' @ name))
         | Some i \<Rightarrow> (\<forall>k d. get_prop (r_defaults (g_objs g ! i)) k = JObj d \<longrightarrow> \<not> has_prop args k) \<longrightarrow>
             (\<exists>g3. configured args g g3 \<and> g_current g3 = Some i \<and> (\<forall>j. j \<noteq> i \<longrightarrow> g_objs g3 ! j = g_objs g ! j)
               \<and> graph_configure invoke cls style args g = for_each (\<lambda>cb. invoke cb (args_unstack args)) (g_configureCallbacks g) g3)))"
proof (intro conjI allI impI)
  fix g' assume "graph_configure invoke cls style args g = Inr g'"
  then show "\<exists>g3. configured args g g3 \<and> for_each (\<lambda>cb. invoke cb (args_unstack args)) (g_configureCallbacks g) g3 = Inr g'"
    by (rule graph_configure_mid [OF _ inv cls args])
next
  fix name assume name: "get_prop args ''renderer'' = JStr name \<and> name \<noteq> []"
  have a: "is_object args" using args by simp
  have r: "js_or (get_prop (args_unstack args) ''renderer'') d = JStr name" for d using a name by (simp add: args_unstack_def js_or_def)
  show "case map_of (g_registry g) name of
           None \<Rightarrow> graph_configure invoke cls style args g = Inl (Thrown (''couldn't find renderer '' @ name))
         | Some i \<Rightarrow> (\<forall>k d. get_prop (r_defaults (g_objs g ! i)) k = JObj d \<longrightarrow> \<not> has_prop args k) \<longrightarrow>
             (\<exists>g3. configured args g g3 \<and> g_current g3 = Some i \<and> (\<forall>j. j \<noteq> i \<longrightarrow> g_objs g3 ! j = g_objs g ! j)
               \<and> graph_configure invoke cls style args g = for_each (\<lambda>cb. invoke cb (args_unstack args)) (g_configureCallbacks g) g3)"
  proof (cases "map_of (g_registry g) name")
    case None
    then show ?thesis using with_settings_ok [OF inv] by (simp add: graph_configure_split r) (simp add: setRenderer_def)
  next
    case (Some i)
    have "\<exists>g3. configured args g g3 \<and> g_current g3 = Some i \<and> (\<forall>j. j \<noteq> i \<longrightarrow> g_objs g3 ! j = g_objs g ! j)
        \<and> graph_configure invoke cls style args g = for_each (\<lambda>cb. invoke cb (args_unstack args)) (g_configureCallbacks g) g3"
      if plain: "\<forall>k d. get_prop (r_defaults (g_objs g ! i)) k = JObj d \<longrightarrow> \<not> has_prop args k"
    proof -
      let ?d = "js_or (current_name (with_settings style args g)) (JStr ''stack'')"
      obtain g3 where g3: "setRenderer cls (js_or (get_prop (args_unstack args) ''renderer'') ?d) (args_unstack args) (with_settings style args g) = Inr g3"
        "g_current g3 = Some i" "\<forall>j. j \<noteq> i \<longrightarrow> g_objs g3 ! j = g_objs g ! j"
        using configured_by_name [OF inv args _ _ Some plain] name by blast
      moreover from setRenderer_configured [OF g3(1) inv cls args] have "configured args g g3" .
      moreover from this have "g_configureCallbacks g3 = g_configureCallbacks g" by (simp add: configured_def)
      ultimately show ?thesis by (intro exI [of _ g3]) (simp add: graph_configure_split)
    qed
    with Some show ?thesis by simp
  qed
qed

definition line_graph :: graph where
  "line_graph = \<lparr>g_this = JObj [(''min'', JNum (Fin 3))], g_config = JObj [],
     g_objs = [\<lparr>r_name = ''line'', r_defaults = line_defaults, r_this = JObj []\<rparr>],
     g_registry = [(''line'', 0)], g_current = None, g_series = JUndef, g_updateCallbacks = [],
     g_configureCallbacks = [], g_classes = [], g_vis = None, g_scales = None\<rparr>"

lemma line_graph_inv: "graph_inv line_graph"
  by (simp add: line_graph_def graph_inv_def renderer_ok_def class_ok_def line_defaults_value keys_def get_prop_def)

lemma line_class_ok: "class_ok line_defaults"
  by (simp add: class_ok_def line_defaults_value keys_def get_prop_def)

theorem graph_configure_settings_witness:
  "(\<exists>g'. graph_configure (\<lambda>n _ g. Inr (onUpdate n g)) (\<lambda>_. (''line'', line_defaults)) (Fin 100, Fin 50)
          (JObj [(''renderer'', JStr ''line''), (''max'', JNum (Fin 9)), (''stack'', JBool True)]) (onConfigure 7 line_graph) = Inr g'
     \<and> get_prop (g_this g') ''min'' = JNum (Fin 3) \<and> get_prop (g_this g') ''max'' = JNum (Fin 9)
     \<and> get_prop (g_this g') ''interpolation'' = JStr ''cardinal'' \<and> g_current g' = Some 0
     \<and> get_prop (r_this (g_objs g' ! 0)) ''unstack'' = JBool False)
   \<and> graph_configure (\<lambda>_ _. Inr) (\<lambda>_. (''line'', line_defaults)) (Fin 100, Fin 50) (JObj [(''renderer'', JStr ''pie'')]) (onConfigure 7 line_graph)
     = Inl (Thrown ''couldn't find renderer pie'')"
proof
  define a where "a = JObj [(''renderer'', JStr ''line''), (''max'', JNum (Fin 9)), (''stack'', JBool True)]"
  define g where "g = onConfigure 7 line_graph"
  define u where "u = (\<lambda>(n :: nat) (a :: jsval) g. Inr (onUpdate n g) :: graph js)"
  have inv: "graph_inv g" using line_graph_inv by (simp add: g_def onConfigure_def graph_inv_def)
  have cls: "\<forall>n :: nat. class_ok (snd (''line'', line_defaults))" using line_class_ok by simp
  have cb: "g_configureCallbacks g = [7]" "g_this g = JObj [(''min'', JNum (Fin 3))]" by (simp_all add: g_def onConfigure_def line_graph_def)
  have reg: "map_of (g_registry g) ''line'' = Some 0" "map_of (g_registry g) ''pie'' = None" "r_defaults (g_objs g ! 0) = line_defaults"
    by (simp_all add: g_def onConfigure_def line_graph_def)
  have ren: "get_prop a ''renderer'' = JStr ''line''" "\<not> has_prop a ''min''" "has_prop a ''max''" "get_prop a ''max'' = JNum (Fin 9)"
    "\<not> has_prop a ''interpolation''" "has_prop a ''stack''" "truthy (get_prop a ''stack'')" "\<not> has_prop a ''padding''"
    by (simp_all add: a_def get_prop_def has_prop_def)
  have "k = ''padding''" if "get_prop line_defaults k = JObj d" for k d
    using that by (simp add: line_defaults_value get_prop_def split: if_splits)
  then have "\<forall>k d. get_prop (r_defaults (g_objs g ! 0)) k = JObj d \<longrightarrow> \<not> has_prop a k" using reg(3) ren(8) by metis
  then obtain g3 where g3: "configured a g g3" "g_current g3 = Some 0"
    "graph_configure u (\<lambda>_. (''line'', line_defaults)) (Fin 100, Fin 50) a g = for_each (\<lambda>cb. u cb (args_unstack a)) (g_configureCallbacks g) g3"
    using graph_configure_settings [OF inv cls a_def, of u "(Fin 100, Fin 50)"] ren(1) reg(1) by auto
  have "get_prop graph_defaults ''interpolation'' = JStr ''cardinal''" "\<not> has_prop (JObj [(''min'', JNum (Fin 3))]) ''interpolation''"
    "has_prop (JObj [(''min'', JNum (Fin 3))]) ''min''" "get_prop (JObj [(''min'', JNum (Fin 3))]) ''min'' = JNum (Fin 3)"
    by (simp_all add: graph_defaults_def get_prop_def has_prop_def)
  with g3(1,2) ren have "get_prop (g_this g3) ''min'' = JNum (Fin 3)" "get_prop (g_this g3) ''max'' = JNum (Fin 9)"
    "get_prop (g_this g3) ''interpolation'' = JStr ''cardinal''" "get_prop (r_this (g_objs g3 ! 0)) ''unstack'' = JBool False"
    unfolding configured_def keys_graph_defaults cb by simp_all
  with g3(2,3) show "\<exists>g'. graph_configure (\<lambda>n _ g. Inr (onUpdate n g)) (\<lambda>_. (''line'', line_defaults)) (Fin 100, Fin 50)
          (JObj [(''renderer'', JStr ''line''), (''max'', JNum (Fin 9)), (''stack'', JBool True)]) (onConfigure 7 line_graph) = Inr g'
     \<and> get_prop (g_this g') ''min'' = JNum (Fin 3) \<and> get_prop (g_this g') ''max'' = JNum (Fin 9)
     \<and> get_prop (g_this g') ''interpolation'' = JStr ''cardinal'' \<and> g_current g' = Some 0
     \<and> get_prop (r_this (g_objs g' ! 0)) ''unstack'' = JBool False"
    unfolding u_def a_def [symmetric] g_def [symmetric] cb by (simp add: onUpdate_def)
  have "get_prop (JObj [(''renderer'', JStr ''pie'')]) ''renderer'' = JStr ''pie''" by (simp add: get_prop_def)
  with graph_configure_settings [OF inv cls refl, of "\<lambda>_ _. Inr" "(Fin 100, Fin 50)" "[(''renderer'', JStr ''pie'')]"] reg(2)
  show "graph_configure (\<lambda>_ _. Inr) (\<lambda>_. (''line'', line_defaults)) (Fin 100, Fin 50) (JObj [(''renderer'', JStr ''pie'')]) (onConfigure 7 line_graph)
     = Inl (Thrown ''couldn't find renderer pie'')"
    unfolding g_def by auto
qed

end
