(* ===== verification/Fixtures.thy ===== *)
theory Fixtures
  imports RickshawCore SeriesData
begin

text \<open>
  The number formats \<open>Rickshaw.Fixtures.Number\<close> and the generator of test data \<open>Rickshaw.Fixtures.RandomData\<close>. The random
  numbers and the cosine are arguments.
\<close>

section \<open>Number formats\<close>

text \<open>\<open>y.toFixed(2)\<close>: two digits after the point, halves away from zero, a minus for every negative number.\<close>

definition fixed2 :: "rat \<Rightarrow> string" where
  "fixed2 r =
     (let n = nat \<lfloor>\<bar>r\<bar> * 100 + 1 / 2\<rfloor>; d = nat_str (n mod 100)
      in (if r < 0 then ''-'' else []) @ nat_str (n div 100) @ ''.'' @ (if n mod 100 < 10 then ''0'' @ d else d))"

text \<open>The formats return a text or, for numbers from one to the first unit and for what is no number, the number itself.\<close>

definition formatKMBT :: "jsnum \<Rightarrow> jsval" where
  "formatKMBT y =
     (let abs_y = js_abs y in
      if Fin 1000000000000 \<le> abs_y then JStr (num_str (y / Fin 1000000000000) @ ''T'')
      else if Fin 1000000000 \<le> abs_y then JStr (num_str (y / Fin 1000000000) @ ''B'')
      else if Fin 1000000 \<le> abs_y then JStr (num_str (y / Fin 1000000) @ ''M'')
      else if Fin 1000 \<le> abs_y then JStr (num_str (y / Fin 1000) @ ''K'')
      else if abs_y < Fin 1 \<and> Fin 0 < abs_y then JStr (fixed2 (fin_val y))
      else if js_eq abs_y (Fin 0) then JStr ''''
      else JNum y)"

definition formatBase1024KMGTP :: "jsnum \<Rightarrow> jsval" where
  "formatBase1024KMGTP y =
     (let abs_y = js_abs y in
      if Fin 1125899906842624 \<le> abs_y then JStr (num_str (y / Fin 1125899906842624) @ ''P'')
      else if Fin 1099511627776 \<le> abs_y then JStr (num_str (y / Fin 1099511627776) @ ''T'')
      else if Fin 1073741824 \<le> abs_y then JStr (num_str (y / Fin 1073741824) @ ''G'')
      else if Fin 1048576 \<le> abs_y then JStr (num_str (y / Fin 1048576) @ ''M'')
      else if Fin 1024 \<le> abs_y then JStr (num_str (y / Fin 1024) @ ''K'')
      else if abs_y < Fin 1 \<and> Fin 0 < abs_y then JStr (fixed2 (fin_val y))
      else if js_eq abs_y (Fin 0) then JStr ''''
      else JNum y)"

section \<open>Random data\<close>

record random_data =
  rd_timeInterval :: jsnum
  rd_lastRandomValue :: jsnum
  rd_timeBase :: jsnum

definition new_random_data :: "jsnum option \<Rightarrow> jsnum \<Rightarrow> random_data" where
  "new_random_data interval now =
     \<lparr>rd_timeInterval = or_opt interval (Fin 1), rd_lastRandomValue = Fin 200, rd_timeBase = js_floor (now / Fin 1000)\<rparr>"

text \<open>\<open>counter\<close> is incremented within the expression of \<open>v\<close>: the first use has the old value, the cosine the new one.\<close>

definition random_y :: "(jsnum \<Rightarrow> jsnum) \<Rightarrow> jsnum \<Rightarrow> nat \<Rightarrow> nat \<Rightarrow> jsnum \<Rightarrow> jsnum" where
  "random_y cosine randomValue index counter randomVariance =
     randomValue / Fin 25 + Fin (of_nat counter)
     + (cosine (Fin (of_nat (index * Suc counter * 11)) / Fin 960) + Fin 2) * Fin 15
     + (cosine (Fin (of_nat index) / Fin 7) + Fin 2) * Fin 7
     + (cosine (Fin (of_nat index) / Fin 17) + Fin 2) * Fin 1 + randomVariance"

fun push_all :: "(jsnum \<Rightarrow> jsnum) \<Rightarrow> (nat \<Rightarrow> jsnum) \<Rightarrow> jsnum \<Rightarrow> nat \<Rightarrow> jsnum \<Rightarrow> nat \<Rightarrow> point list list \<Rightarrow> point list list" where
  "push_all cosine random randomValue index x counter [] = []"
| "push_all cosine random randomValue index x counter (row # rows) =
     (row @ [pt x (random_y cosine randomValue index counter (random counter * Fin 20))])
     # push_all cosine random randomValue index x (Suc counter) rows"

definition random_addData :: "(jsnum \<Rightarrow> jsnum) \<Rightarrow> (nat \<Rightarrow> jsnum) \<Rightarrow> point list list \<Rightarrow> random_data \<Rightarrow> (point list list \<times> random_data) js" where
  "random_addData cosine random data rd =
     (case data of
        [] \<Rightarrow> Inl TypeError
      | row # _ \<Rightarrow>
          let randomValue = random 0 * Fin 100 + Fin 15 + rd_lastRandomValue rd; index = length row
          in Inr (push_all cosine random randomValue index (Fin (of_nat index) * rd_timeInterval rd + rd_timeBase rd) 1 data,
                  rd\<lparr>rd_lastRandomValue := randomValue * Fin (85 / 100)\<rparr>))"

definition random_removeData :: "point list list \<Rightarrow> random_data \<Rightarrow> point list list \<times> random_data" where
  "random_removeData data rd = (map tl data, rd\<lparr>rd_timeBase := rd_timeBase rd + rd_timeInterval rd\<rparr>)"

datatype feed = Add | Remove

fun feed_step :: "(jsnum \<Rightarrow> jsnum) \<Rightarrow> (nat \<Rightarrow> nat \<Rightarrow> jsnum) \<Rightarrow> nat \<times> feed \<Rightarrow> point list list \<times> random_data \<Rightarrow> (point list list \<times> random_data) js" where
  "feed_step cosine random (k, Add) s = random_addData cosine (random k) (fst s) (snd s)"
| "feed_step cosine random (k, Remove) s = Inr (random_removeData (fst s) (snd s))"

text \<open>Every row has the times of one grid that starts at the time base.\<close>

definition on_feed_grid :: "rat \<Rightarrow> point list list \<times> random_data \<Rightarrow> bool" where
  "on_feed_grid step s = (rd_timeInterval (snd s) = Fin step
     \<and> (\<exists>n b. rd_timeBase (snd s) = Fin b \<and> (\<forall>row \<in> set (fst s). map px row = map (\<lambda>i. Fin (of_nat i * step + b)) [0 ..< n])))"

lemma push_all_px: "\<forall>row \<in> set (push_all c r v i x k rows). \<exists>row' \<in> set rows. map px row = map px row' @ [x]"
  by (induction rows arbitrary: k) auto

lemma feed_add:
  assumes "on_feed_grid step s" and "fst s \<noteq> []"
  shows "\<exists>s'. random_addData cosine random (fst s) (snd s) = Inr s' \<and> on_feed_grid step s' \<and> length (fst s') = length (fst s)"
proof -
  obtain row rows where d: "fst s = row # rows" using assms(2) by (cases "fst s") auto
  obtain n b where g: "rd_timeInterval (snd s) = Fin step" "rd_timeBase (snd s) = Fin b"
    "\<forall>row \<in> set (fst s). map px row = map (\<lambda>i. Fin (of_nat i * step + b)) [0 ..< n]" using assms(1) by (auto simp: on_feed_grid_def)
  have "map px row = map (\<lambda>i. Fin (of_nat i * step + b)) [0 ..< n]" using g(3) d by simp
  then have len: "length row = n" by (metis length_map length_upt minus_nat.diff_0)
  let ?v = "random 0 * Fin 100 + Fin 15 + rd_lastRandomValue (snd s)"
  let ?r = "push_all cosine random ?v n (Fin (of_nat n * step + b)) 1 (fst s)"
  have "length (push_all c r v i x k rows') = length rows'" for c r v i x k rows' by (induction rows' arbitrary: k) auto
  moreover have "\<forall>row \<in> set ?r. map px row = map (\<lambda>i. Fin (of_nat i * step + b)) [0 ..< Suc n]"
    using push_all_px [of cosine random ?v n "Fin (of_nat n * step + b)" 1 "fst s"] g(3) by fastforce
  ultimately have "on_feed_grid step (?r, (snd s)\<lparr>rd_lastRandomValue := ?v * Fin (85 / 100)\<rparr>)" "length ?r = length (fst s)"
    using g(1,2) by (auto simp: on_feed_grid_def simp del: upt_Suc)
  moreover have "random_addData cosine random (fst s) (snd s) = Inr (?r, (snd s)\<lparr>rd_lastRandomValue := ?v * Fin (85 / 100)\<rparr>)"
    using d len g(1,2) by (simp add: random_addData_def Let_def)
  ultimately show ?thesis by simp
qed

lemma feed_remove:
  assumes "on_feed_grid step s"
  shows "on_feed_grid step (random_removeData (fst s) (snd s))"
proof -
  obtain n b where g: "rd_timeInterval (snd s) = Fin step" "rd_timeBase (snd s) = Fin b"
    "\<forall>row \<in> set (fst s). map px row = map (\<lambda>i. Fin (of_nat i * step + b)) [0 ..< n]" using assms by (auto simp: on_feed_grid_def)
  have "map px (tl row) = map (\<lambda>i. Fin (of_nat i * step + (b + step))) [0 ..< n - 1]" if "row \<in> set (fst s)" for row
  proof -
    have "map px (tl row) = tl (map (\<lambda>i. Fin (of_nat i * step + b)) [0 ..< n])" using g(3) that by (simp add: map_tl)
    also have "\<dots> = map (\<lambda>i. Fin (of_nat i * step + b)) (map Suc [0 ..< n - 1])"
      by (cases n) (simp_all only: map_Suc_upt tl_upt flip: map_tl, simp_all)
    finally show ?thesis by (simp add: algebra_simps)
  qed
  then show ?thesis using g by (auto simp: on_feed_grid_def random_removeData_def)
qed

section \<open>Properties\<close>

text \<open>
  The formats with a unit print the value in the largest unit that is not above it: the number before the letter times the unit is the
  value, and it is at least one and below the step to the next unit. Values below one are printed with two decimals, zero as
  nothing, and values between one and the first unit are returned as they are.
\<close>

theorem formats_scale_value:
  fixes y :: rat
  shows "(1000 \<le> \<bar>y\<bar> \<and> \<bar>y\<bar> < 1000 ^ 5 \<longrightarrow>
      (\<exists>k \<in> {1 ..< 5}. \<exists>q. formatKMBT (Fin y) = JStr (rat_str q @ [''?KMBT'' ! k]) \<and> q * 1000 ^ k = y \<and> 1 \<le> \<bar>q\<bar> \<and> \<bar>q\<bar> < 1000))
    \<and> (1024 \<le> \<bar>y\<bar> \<and> \<bar>y\<bar> < 1024 ^ 6 \<longrightarrow>
      (\<exists>k \<in> {1 ..< 6}. \<exists>q. formatBase1024KMGTP (Fin y) = JStr (rat_str q @ [''?KMGTP'' ! k]) \<and> q * 1024 ^ k = y \<and> 1 \<le> \<bar>q\<bar> \<and> \<bar>q\<bar> < 1024))
    \<and> (\<bar>y\<bar> < 1 \<longrightarrow> formatKMBT (Fin y) = JStr (if y = 0 then '''' else fixed2 y) \<and> formatBase1024KMGTP (Fin y) = formatKMBT (Fin y))
    \<and> (1 \<le> \<bar>y\<bar> \<and> \<bar>y\<bar> < 1000 \<longrightarrow> formatKMBT (Fin y) = JNum (Fin y) \<and> formatBase1024KMGTP (Fin y) = JNum (Fin y))"
proof (intro conjI impI)
  assume a: "1000 \<le> \<bar>y\<bar> \<and> \<bar>y\<bar> < 1000 ^ 5"
  then consider "1000 ^ 4 \<le> \<bar>y\<bar>" | "1000 ^ 3 \<le> \<bar>y\<bar>" "\<bar>y\<bar> < 1000 ^ 4" | "1000 ^ 2 \<le> \<bar>y\<bar>" "\<bar>y\<bar> < 1000 ^ 3" | "\<bar>y\<bar> < 1000 ^ 2"
    by linarith
  then show "\<exists>k \<in> {1 ..< 5}. \<exists>q. formatKMBT (Fin y) = JStr (rat_str q @ [''?KMBT'' ! k]) \<and> q * 1000 ^ k = y \<and> 1 \<le> \<bar>q\<bar> \<and> \<bar>q\<bar> < 1000"
  proof cases
    case 1
    with a show ?thesis by (intro bexI [of _ 4] exI [of _ "y / 1000 ^ 4"]) (simp_all add: formatKMBT_def abs_divide)
  next
    case 2
    with a show ?thesis by (intro bexI [of _ 3] exI [of _ "y / 1000 ^ 3"]) (simp_all add: formatKMBT_def abs_divide)
  next
    case 3
    with a show ?thesis by (intro bexI [of _ 2] exI [of _ "y / 1000 ^ 2"]) (simp_all add: formatKMBT_def abs_divide)
  next
    case 4
    with a show ?thesis by (intro bexI [of _ 1] exI [of _ "y / 1000"]) (simp_all add: formatKMBT_def abs_divide)
  qed
next
  assume a: "1024 \<le> \<bar>y\<bar> \<and> \<bar>y\<bar> < 1024 ^ 6"
  then consider "1024 ^ 5 \<le> \<bar>y\<bar>" | "1024 ^ 4 \<le> \<bar>y\<bar>" "\<bar>y\<bar> < 1024 ^ 5" | "1024 ^ 3 \<le> \<bar>y\<bar>" "\<bar>y\<bar> < 1024 ^ 4"
    | "1024 ^ 2 \<le> \<bar>y\<bar>" "\<bar>y\<bar> < 1024 ^ 3" | "\<bar>y\<bar> < 1024 ^ 2"
    by linarith
  then show "\<exists>k \<in> {1 ..< 6}. \<exists>q. formatBase1024KMGTP (Fin y) = JStr (rat_str q @ [''?KMGTP'' ! k]) \<and> q * 1024 ^ k = y \<and> 1 \<le> \<bar>q\<bar> \<and> \<bar>q\<bar> < 1024"
  proof cases
    case 1
    with a show ?thesis by (intro bexI [of _ 5] exI [of _ "y / 1024 ^ 5"]) (simp_all add: formatBase1024KMGTP_def abs_divide)
  next
    case 2
    with a show ?thesis by (intro bexI [of _ 4] exI [of _ "y / 1024 ^ 4"]) (simp_all add: formatBase1024KMGTP_def abs_divide)
  next
    case 3
    with a show ?thesis by (intro bexI [of _ 3] exI [of _ "y / 1024 ^ 3"]) (simp_all add: formatBase1024KMGTP_def abs_divide)
  next
    case 4
    with a show ?thesis by (intro bexI [of _ 2] exI [of _ "y / 1024 ^ 2"]) (simp_all add: formatBase1024KMGTP_def abs_divide)
  next
    case 5
    with a show ?thesis by (intro bexI [of _ 1] exI [of _ "y / 1024"]) (simp_all add: formatBase1024KMGTP_def abs_divide)
  qed
qed (auto simp: formatKMBT_def formatBase1024KMGTP_def Let_def)

theorem formats_scale_value_witness: "\<exists>k \<in> {1 ..< 5}. \<exists>q. formatKMBT (Fin 1500) = JStr (rat_str q @ [''?KMBT'' ! k]) \<and> q * 1000 ^ k = 1500"
  using formats_scale_value [of 1500] by auto

text \<open>
  C35. The generated test data stay on one grid of times: after any sequence of added and removed points all rows carry the times of an
  arithmetic progression from the time base in steps of the interval.
\<close>

theorem random_data_grid:
  assumes "on_feed_grid step s" and "fst s \<noteq> []"
  shows "\<exists>s'. for_each (feed_step cosine random) events s = Inr s' \<and> on_feed_grid step s' \<and> length (fst s') = length (fst s)"
  using assms
proof (induction events arbitrary: s)
  case (Cons ev events)
  obtain k f where ev: "ev = (k, f)" by fastforce
  obtain s1 where s1: "feed_step cosine random ev s = Inr s1" "on_feed_grid step s1" "length (fst s1) = length (fst s)"
  proof (cases f)
    case Add
    then show thesis using that feed_add [OF Cons.prems, of cosine "random k"] ev by auto
  next
    case Remove
    then show thesis using that feed_remove [OF Cons.prems(1)] ev by (simp add: random_removeData_def)
  qed
  then have "fst s1 \<noteq> []" using Cons.prems(2) by auto
  then show ?case using Cons.IH [OF s1(2)] s1(1,3) by simp
qed simp

theorem random_data_grid_witness:
  "\<exists>s'. for_each (feed_step (\<lambda>_. Fin 0) (\<lambda>_ _. Fin 0)) [(0, Add), (1, Add), (2, Remove)] ([[], []], new_random_data None (Fin 5000)) = Inr s' \<and> on_feed_grid 1 s'"
proof -
  have "on_feed_grid 1 ([[], []], new_random_data None (Fin 5000))"
    by (auto simp: on_feed_grid_def new_random_data_def js_floor_def intro!: exI [of _ 0])
  from random_data_grid [OF this, of "\<lambda>_. Fin 0" "\<lambda>_ _. Fin 0" "[(0, Add), (1, Add), (2, Remove)]"] show ?thesis by fastforce
qed

end
