(* ===== verification/HoverDetail.thy ===== *)
theory HoverDetail
  imports SeriesData Fixtures
begin

text \<open>
  \<open>Rickshaw.Graph.HoverDetail\<close>: which point of each row the pointer is at, which of them is nearest, and what
  is shown. The scales of the graph, the formatters and the index scale of d3 are arguments. Distances are
  compared by their squares, which the square root keeps in order.
\<close>

section \<open>The search for an index\<close>

text \<open>
  \<open>for (var i = approximateIndex; i < data.length - 1;)\<close> over the times of a row. The result is the index found,
  or \<open>None\<close> when the loop ends without one. The loop walks in both directions, so it need not end.
\<close>

partial_function (option) index_loop :: "jsnum list \<Rightarrow> jsnum \<Rightarrow> int \<Rightarrow> int option option" where
  "index_loop xs domainX i =
     (if \<not> i < int (length xs) - 1 then Some None
      else if i < 0 then Some None
      else
        let a = xs ! nat i; b = xs ! nat (i + 1) in
        if a \<le> domainX \<and> domainX < b
        then Some (Some (if js_abs (domainX - a) < js_abs (domainX - b) then i else i + 1))
        else if b \<le> domainX then index_loop xs domainX (i + 1)
        else index_loop xs domainX (i - 1))"

text \<open>
  The approximate index may be NaN or infinite; the loop body runs only for a number below the last index, and
  a negative one has no point.
\<close>

definition approximate_index :: "(jsnum \<Rightarrow> jsnum) \<Rightarrow> nat \<Rightarrow> jsnum \<Rightarrow> jsnum" where
  "approximate_index index_scale n domainX =
     (let a = js_round (index_scale domainX)
      in if js_eq a (Fin (of_nat n - 1)) then a - Fin 1 else a)"

definition start_index :: "nat \<Rightarrow> jsnum \<Rightarrow> int" where
  "start_index n a = (case js_min2 (or_num a (Fin 0)) (Fin (of_nat n - 1)) of Fin r \<Rightarrow> \<lfloor>r\<rfloor> | _ \<Rightarrow> - 1)"

definition data_index :: "(jsnum \<Rightarrow> jsnum) \<Rightarrow> jsnum list \<Rightarrow> jsnum \<Rightarrow> nat option" where
  "data_index index_scale xs domainX =
     (let a = approximate_index index_scale (length xs) domainX;
          dflt = start_index (length xs) a
      in map_option (\<lambda>r. nat (case r of Some i \<Rightarrow> i | None \<Rightarrow> dflt))
           (case a of Fin r \<Rightarrow> index_loop xs domainX \<lfloor>r\<rfloor> | _ \<Rightarrow> Some None))"

section \<open>The detail\<close>

text \<open>The default \<open>yFormatter\<close>; a null value prints as \<open>null\<close>.\<close>

definition format_y :: "jsnum option \<Rightarrow> string" where
  "format_y y = (case y of None \<Rightarrow> ''null'' | Some (Fin r) \<Rightarrow> fixed2 r | Some n \<Rightarrow> num_str n)"

record hover_series =
  hs_name :: string
  hs_color :: string
  hs_points :: "point list"
  hs_formatX :: "(jsnum \<Rightarrow> string) option"
  hs_formatY :: "(jsnum option \<Rightarrow> string) option"
  hs_invert :: "(jsnum option \<Rightarrow> jsnum option) option"

record hover_point =
  hp_formattedX :: string
  hp_formattedY :: string
  hp_name :: string
  hp_color :: string
  hp_value :: point
  hp_distance2 :: jsnum
  hp_order :: nat
  hp_active :: bool

record hover_event =
  ev_nodeName :: string
  ev_clientX :: jsnum
  ev_clientY :: jsnum

record hover_env =
  he_left :: jsnum
  he_top :: jsnum
  he_x :: "jsnum \<Rightarrow> jsnum"
  he_y :: "jsnum \<Rightarrow> jsnum"
  he_x_invert :: "jsnum \<Rightarrow> jsnum"
  he_index_scale :: "jsnum \<times> jsnum \<Rightarrow> jsnum \<times> jsnum \<Rightarrow> jsnum \<Rightarrow> jsnum"
  he_formatX :: "jsnum \<Rightarrow> string"
  he_formatY :: "jsnum option \<Rightarrow> string"

record hover =
  hv_visible :: bool
  hv_inactive :: bool
  hv_lastEvent :: "hover_event option"
  hv_left :: "jsnum option"

text \<open>\<open>value.y + value.y0\<close>, with null as zero and an undefined base as NaN.\<close>

definition point_top :: "point \<Rightarrow> jsnum" where
  "point_top p = (case py p of None \<Rightarrow> Fin 0 | Some y \<Rightarrow> y) + (case py0 p of None \<Rightarrow> NaN | Some z \<Rightarrow> z)"

definition hover_entry :: "hover_env \<Rightarrow> jsnum \<Rightarrow> jsnum \<Rightarrow> nat \<Rightarrow> hover_series \<Rightarrow> hover_point option option" where
  "hover_entry env eventX eventY order s =
     (let data = hs_points s in
      if data = [] then Some None
      else
        let domainX = he_x_invert env eventX;
            scale = he_index_scale env (px (hd data), px (last data)) (Fin 0, Fin (of_nat (length data) - 1))
        in map_option (\<lambda>i.
             let v = data ! i;
                 dx = he_x env (px v) - eventX; dy = he_y env (point_top v) - eventY
             in Some \<lparr>hp_formattedX = (case hs_formatX s of Some f \<Rightarrow> f (px v) | None \<Rightarrow> he_formatX env (px v)),
                      hp_formattedY = (let y = (case hs_invert s of Some f \<Rightarrow> f (py v) | None \<Rightarrow> py v)
                                       in case hs_formatY s of Some f \<Rightarrow> f y | None \<Rightarrow> he_formatY env y),
                      hp_name = hs_name s, hp_color = hs_color s, hp_value = v,
                      hp_distance2 = dx * dx + dy * dy, hp_order = order, hp_active = False\<rparr>)
             (data_index scale (map px data) domainX))"

text \<open>\<open>j\<close> counts the active series, the empty ones included; \<open>None\<close> is a search that does not end.\<close>

fun hover_entries ::
  "hover_env \<Rightarrow> jsnum \<Rightarrow> jsnum \<Rightarrow> nat \<Rightarrow> hover_series list \<Rightarrow> hover_point list option"
where
  "hover_entries env ex ey j [] = Some []"
| "hover_entries env ex ey j (s # ss) =
     (case hover_entry env ex ey (Suc j) s of
        None \<Rightarrow> None
      | Some p \<Rightarrow> map_option (\<lambda>ps. (case p of None \<Rightarrow> ps | Some p \<Rightarrow> p # ps)) (hover_entries env ex ey (Suc j) ss))"

fun nearest :: "nat \<Rightarrow> nat \<Rightarrow> jsnum \<Rightarrow> hover_point list \<Rightarrow> nat" where
  "nearest best i d [] = best"
| "nearest best i d (p # ps) =
     (if hp_distance2 p < d then nearest i (Suc i) (hp_distance2 p) ps else nearest best (Suc i) d ps)"

definition nearest_index :: "hover_point list \<Rightarrow> nat" where
  "nearest_index ps = nearest 0 1 (hp_distance2 (hd ps)) (tl ps)"

definition node_names :: "string list" where
  "node_names = [''path'', ''svg'', ''rect'', ''circle'']"

text \<open>
  \<open>update\<close>: the outer option is the end of the searches; the inner one holds the points handed to \<open>render\<close>, when
  it is called.
\<close>

definition hover_update ::
  "hover_env \<Rightarrow> hover_series list \<Rightarrow> hover_event option \<Rightarrow> hover \<Rightarrow> (hover \<times> hover_point list option) option"
where
  "hover_update env series e h =
     (case (if e = None then hv_lastEvent h else e) of
        None \<Rightarrow> Some (h, None)
      | Some ev \<Rightarrow>
          let h1 = h\<lparr>hv_lastEvent := Some ev\<rparr> in
          if ev_nodeName ev \<notin> set node_names then Some (h1, None)
          else
            let eventX = ev_clientX ev - he_left env; eventY = ev_clientY ev - he_top env
            in map_option (\<lambda>ps.
                 if ps = [] then (h1, None)
                 else let k = nearest_index ps;
                          h2 = h1\<lparr>hv_left := Some (he_x env (px (hp_value (ps ! k))))\<rparr>
                      in (h2, if hv_visible h2 then Some (ps[k := (ps ! k)\<lparr>hp_active := True\<rparr>]) else None))
               (hover_entries env eventX eventY 0 series))"

definition hover_hide :: "hover \<Rightarrow> hover" where
  "hover_hide h = h\<lparr>hv_visible := False, hv_inactive := True\<rparr>"

definition hover_show :: "hover \<Rightarrow> hover" where
  "hover_show h = h\<lparr>hv_visible := True, hv_inactive := False\<rparr>"

text \<open>The listeners: a move makes the detail visible and updates it; leaving the graph hides it.\<close>

definition on_mousemove ::
  "hover_env \<Rightarrow> hover_series list \<Rightarrow> hover_event \<Rightarrow> hover \<Rightarrow> (hover \<times> hover_point list option) option"
where
  "on_mousemove env series e h = hover_update env series (Some e) (h\<lparr>hv_visible := True\<rparr>)"

definition on_mouseout :: "bool option \<Rightarrow> hover \<Rightarrow> hover" where
  "on_mouseout related_inside h = (if related_inside = Some False then hover_hide h else h)"

section \<open>Layout\<close>

record box =
  bx_left :: jsnum
  bx_right :: jsnum
  bx_width :: jsnum

definition layout_error :: "box \<Rightarrow> box list \<Rightarrow> jsnum" where
  "layout_error parent els =
     fold (\<lambda>el e.
       if \<not> truthy_num (bx_width el) then e
       else
         let e1 = (if bx_right parent < bx_right el then e + (bx_right el - bx_right parent) else e)
         in if bx_left el < bx_left parent then e1 + (bx_left parent - bx_left el) else e1) els (Fin 0)"

datatype side = LeftSide | RightSide

text \<open>The alignment \<open>render\<close> settles on, from the boxes the labels have on either side.\<close>

definition align :: "box \<Rightarrow> box list \<Rightarrow> box list \<Rightarrow> side" where
  "align parent left_boxes right_boxes =
     (let leftAlignError = layout_error parent left_boxes in
      if Fin 0 < leftAlignError
      then (if leftAlignError < layout_error parent right_boxes then LeftSide else RightSide)
      else LeftSide)"

section \<open>The loop ends\<close>

text \<open>The index is the nearer end of an interval of the row that holds the value.\<close>

definition bracketed :: "jsnum list \<Rightarrow> jsnum \<Rightarrow> int \<Rightarrow> bool" where
  "bracketed xs d k =
     (\<exists>j. 0 \<le> j \<and> j < int (length xs) - 1 \<and> xs ! nat j \<le> d \<and> d < xs ! nat (j + 1)
        \<and> k = (if js_abs (d - xs ! nat j) < js_abs (d - xs ! nat (j + 1)) then j else j + 1))"

lemma search_hit:
  assumes "0 \<le> i" and "i < int (length xs) - 1" and "xs ! nat i \<le> d" and "d < xs ! nat (i + 1)"
  shows "\<exists>k. index_loop xs d i = Some (Some k) \<and> bracketed xs d k"
proof -
  have "index_loop xs d i =
      Some (Some (if js_abs (d - xs ! nat i) < js_abs (d - xs ! nat (i + 1)) then i else i + 1))"
    using assms by (subst index_loop.simps) (simp add: Let_def)
  with assms show ?thesis unfolding bracketed_def by blast
qed

lemma loop_up:
  assumes "NaN \<notin> set xs" and "0 \<le> i" and "i < int (length xs)" and "xs ! nat i \<le> d"
  shows "\<exists>r. index_loop xs d i = Some r \<and>
    (\<forall>k. r = Some k \<longrightarrow> bracketed xs d k)
    \<and> (r = None \<longrightarrow> last xs \<le> d)"
  using assms(2-4)
proof (induction "nat (int (length xs) - i)" arbitrary: i rule: less_induct)
  case less
  show ?case
  proof (cases "i < int (length xs) - 1")
    case False
    with less.prems have "nat i = length xs - 1" "xs \<noteq> []" by auto
    with less.prems(3) have "last xs \<le> d" by (simp add: last_conv_nth)
    with False show ?thesis by (subst index_loop.simps) simp
  next
    case True
    let ?b = "xs ! nat (i + 1)"
    show ?thesis
    proof (cases "d < ?b")
      case hit: True
      with search_hit [of i xs d] True less.prems show ?thesis by auto
    next
      case False
      have "?b \<in> set xs" using less.prems(1) True by (intro nth_mem) linarith
      then have "?b \<noteq> NaN" using assms(1) by auto
      moreover have "d \<noteq> NaN" using less.prems(3) by auto
      ultimately have le: "?b \<le> d" using False by (cases "?b"; cases d) auto
      have step: "index_loop xs d i = index_loop xs d (i + 1)"
        using True less.prems False le by (subst index_loop.simps) (simp add: Let_def)
      have "nat (int (length xs) - (i + 1)) < nat (int (length xs) - i)" using True by simp
      from less.hyps [OF this] True less.prems(1) le show ?thesis unfolding step by simp
    qed
  qed
qed

lemma loop_down:
  assumes "NaN \<notin> set xs" and "d \<noteq> NaN" and "i < int (length xs) - 1"
    and "0 \<le> i \<Longrightarrow> d < xs ! nat (i + 1)"
  shows "\<exists>r. index_loop xs d i = Some r \<and>
    (\<forall>k. r = Some k \<longrightarrow> bracketed xs d k)
    \<and> (r = None \<longrightarrow> 0 \<le> i \<longrightarrow> d < xs ! 0)"
  using assms(3,4)
proof (induction "nat (i + 1)" arbitrary: i rule: less_induct)
  case less
  show ?case
  proof (cases "i < 0")
    case True
    with less.prems show ?thesis by (subst index_loop.simps) simp
  next
    case False
    let ?a = "xs ! nat i"
    have b: "d < xs ! nat (i + 1)" using less.prems(2) False by simp
    show ?thesis
    proof (cases "?a \<le> d")
      case True
      with search_hit [of i xs d] False b less.prems(1) show ?thesis by auto
    next
      case above: False
      have "?a \<in> set xs" using less.prems(1) False by (intro nth_mem) linarith
      then have "?a \<noteq> NaN" using assms(1) by auto
      then have a: "d < ?a" using above assms(2) by (cases "?a"; cases d) auto
      have nb: "\<not> xs ! nat (i + 1) \<le> d" using b by (cases "xs ! nat (i + 1)"; cases d) auto
      have step: "index_loop xs d i = index_loop xs d (i - 1)"
        using False less.prems(1) above nb by (subst index_loop.simps) (simp add: Let_def)
      have "nat (i - 1 + 1) < nat (i + 1)" using False by simp
      from less.hyps [OF this] less.prems(1) a
      obtain r where r: "index_loop xs d (i - 1) = Some r"
        "\<forall>k. r = Some k \<longrightarrow> bracketed xs d k"
        "r = None \<longrightarrow> 0 \<le> i - 1 \<longrightarrow> d < xs ! 0" by auto
      have "r = None \<longrightarrow> d < xs ! 0" using r(3) a False by (cases "i = 0") auto
      with r show ?thesis unfolding step by auto
    qed
  qed
qed

lemma loop_NaN_value:
  "i < int (length xs) - 1 \<Longrightarrow> index_loop xs NaN i = Some None"
proof (induction "nat (i + 1)" arbitrary: i rule: less_induct)
  case less
  show ?case
  proof (cases "i < 0")
    case True
    then show ?thesis by (subst index_loop.simps) simp
  next
    case False
    with less have "index_loop xs NaN (i - 1) = Some None" by simp
    with False less.prems show ?thesis by (subst index_loop.simps) (simp add: Let_def)
  qed
qed

lemma loop_ends:
  assumes "NaN \<notin> set xs"
  shows "\<exists>r. index_loop xs d i = Some r \<and> (\<forall>k. r = Some k \<longrightarrow> bracketed xs d k)"
proof (cases "i < int (length xs) - 1 \<and> 0 \<le> i \<and> d \<noteq> NaN")
  case False
  have "index_loop xs d i = Some None" if "\<not> i < int (length xs) - 1 \<or> i < 0"
    using that by (subst index_loop.simps) auto
  with False loop_NaN_value [of i xs] show ?thesis by (cases "d = NaN") auto
next
  case True
  let ?b = "xs ! nat (i + 1)"
  have "?b \<in> set xs" using True by (intro nth_mem) linarith
  then have "?b \<noteq> NaN" using assms by auto
  then have "?b \<le> d \<or> d < ?b" using True by (cases "?b"; cases d) auto
  then show ?thesis
  proof
    assume 1: "?b \<le> d"
    then have "\<not> d < ?b" by (cases "?b"; cases d) auto
    with 1 True have "index_loop xs d i = index_loop xs d (i + 1)" by (subst index_loop.simps) (simp add: Let_def)
    with loop_up [OF assms, of "i + 1" d] 1 True show ?thesis by auto
  next
    assume "d < ?b"
    with loop_down [OF assms, of d i] True show ?thesis by auto
  qed
qed

lemma start_index_bound: "0 < n \<Longrightarrow> start_index n a \<le> int n - 1"
proof -
  have f: "\<lfloor>x\<rfloor> < int n" if "\<not> rat_of_nat n - 1 < x" for x
    using that by (simp add: floor_less_iff)
  assume "0 < n"
  with f show ?thesis
    by (cases a) (auto simp: start_index_def or_num_def js_min2_def min_def split: if_splits)
qed

lemma bracketed_bound: "bracketed xs d k \<Longrightarrow> 0 \<le> k \<and> k < int (length xs)"
  by (auto simp: bracketed_def)

section \<open>Nearest points\<close>

lemma bracketed_nearest:
  assumes "sorted vs" and "bracketed (map Fin vs) (Fin d) k" and "j < length vs"
  shows "\<bar>d - vs ! nat k\<bar> \<le> \<bar>d - vs ! j\<bar>"
proof -
  obtain i where i: "0 \<le> i" "i < int (length vs) - 1" "vs ! nat i \<le> d" "d < vs ! nat (i + 1)"
    and k: "k = (if \<bar>d - vs ! nat i\<bar> < \<bar>d - vs ! nat (i + 1)\<bar> then i else i + 1)"
    using assms(2) by (auto simp: bracketed_def)
  have "vs ! j \<le> vs ! nat i" if "j \<le> nat i"
    using sorted_nth_mono [OF assms(1) that] i by auto
  moreover have "vs ! nat (i + 1) \<le> vs ! j" if "\<not> j \<le> nat i"
    by (rule sorted_nth_mono [OF assms(1)]) (use that assms(3) i in auto)
  ultimately show ?thesis using i k by (cases "j \<le> nat i") (auto split: if_splits)
qed

section \<open>Properties\<close>

text \<open>
  C19. The search for the point under the pointer ends, for any times of a row that are numbers, any pointer
  position and any starting index, and gives an index of the row.
\<close>

theorem hover_search_ends:
  assumes "NaN \<notin> set xs" and "xs \<noteq> []"
  shows "\<exists>k. data_index index_scale xs domainX = Some k \<and> k < length xs"
proof -
  let ?a = "approximate_index index_scale (length xs) domainX"
  have n: "0 < length xs" using assms(2) by simp
  obtain r where r: "(case ?a of Fin q \<Rightarrow> index_loop xs domainX \<lfloor>q\<rfloor> | _ \<Rightarrow> Some None) = Some r"
    "\<forall>k. r = Some k \<longrightarrow> bracketed xs domainX k"
    using loop_ends [OF assms(1), of domainX] by (cases ?a) auto
  have "nat (case r of Some i \<Rightarrow> i | None \<Rightarrow> start_index (length xs) ?a) < length xs"
  proof (cases r)
    case None
    have "start_index (length xs) ?a < int (length xs)" using start_index_bound [OF n, of ?a] by simp
    then have "nat (start_index (length xs) ?a) < length xs" using n by linarith
    with None show ?thesis by simp
  next
    case (Some k)
    with r(2) bracketed_bound [of xs domainX k] show ?thesis by auto
  qed
  with r(1) show ?thesis by (simp add: data_index_def Let_def)
qed

theorem hover_search_ends_witness:
  "\<exists>k. data_index (\<lambda>_. NaN) [Fin 3, Fin 1, PInf] NaN = Some k \<and> k < 3"
  using hover_search_ends [of "[Fin 3, Fin 1, PInf]" "\<lambda>_. NaN" NaN] by (simp add: numeral_3_eq_3)

text \<open>
  C18. For a sorted row and a pointer between the first time and the last, the point chosen is a nearest one.
\<close>

theorem hover_picks_nearest:
  assumes "sorted vs" and "2 \<le> length vs" and "vs ! 0 \<le> d" and "d < last vs"
    and "index_scale (Fin d) = Fin s" and "0 \<le> s" and "s \<le> of_nat (length vs) - 1"
  shows "\<exists>k < length vs. data_index index_scale (map Fin vs) (Fin d) = Some k
    \<and> (\<forall>j < length vs. \<bar>d - vs ! k\<bar> \<le> \<bar>d - vs ! j\<bar>)"
proof -
  let ?n = "length vs" and ?xs = "map Fin vs" and ?q = "\<lfloor>s + 1 / 2\<rfloor>"
  let ?i = "if ?q = int ?n - 1 then ?q - 1 else ?q"
  have q: "0 \<le> ?q" "?q \<le> int ?n - 1"
  proof -
    show "0 \<le> ?q" using assms(6) by (simp add: le_floor_iff)
    have "s + 1 / 2 < of_int (int ?n - 1 + 1)" using assms(7) by simp
    then have "?q < int ?n - 1 + 1" by (simp only: floor_less_iff)
    then show "?q \<le> int ?n - 1" by simp
  qed
  have i: "0 \<le> ?i" "?i < int ?n - 1" using q assms(2) by auto
  have eq: "(rat_of_int ?q = of_nat ?n - 1) = (?q = int ?n - 1)"
    by (metis of_int_diff of_int_eq_iff of_int_of_nat_eq of_int_1)
  have a: "approximate_index index_scale (length ?xs) (Fin d) = Fin (of_int ?i)"
    using eq by (auto simp: approximate_index_def assms(5) js_round_def)
  have nan: "NaN \<notin> set ?xs" by auto
  have b: "?xs ! nat (?i + 1) = Fin (vs ! nat (?i + 1))" "?xs ! nat ?i = Fin (vs ! nat ?i)" using i by auto
  have ends: "last ?xs = Fin (last vs)" "?xs ! 0 = Fin (vs ! 0)" using assms(2) by (cases vs; simp add: last_map)+
  have "\<exists>k. index_loop ?xs (Fin d) ?i = Some (Some k) \<and> bracketed ?xs (Fin d) k"
  proof (cases "vs ! nat (?i + 1) \<le> d")
    case True
    then have step: "index_loop ?xs (Fin d) ?i = index_loop ?xs (Fin d) (?i + 1)"
      using i b by (subst index_loop.simps) (simp add: Let_def)
    have "0 \<le> ?i + 1" "?i + 1 < int (length ?xs)" "?xs ! nat (?i + 1) \<le> Fin d" using i b True by auto
    from loop_up [OF nan this] ends assms(4) show ?thesis unfolding step by (auto simp: not_le split: if_splits)
  next
    case False
    then have "Fin d < ?xs ! nat (?i + 1)" using b by simp
    with loop_down [OF nan, of "Fin d" ?i] ends assms(3) i show ?thesis by (auto simp: not_less)
  qed
  then obtain k where k: "index_loop ?xs (Fin d) ?i = Some (Some k)" "bracketed ?xs (Fin d) k" by blast
  have "data_index index_scale ?xs (Fin d) = Some (nat k)" using k(1) by (simp only: data_index_def Let_def a) simp
  moreover have "nat k < ?n" using bracketed_bound [OF k(2)] by auto
  ultimately show ?thesis using bracketed_nearest [OF assms(1) k(2)] by auto
qed

theorem hover_picks_nearest_witness:
  "\<exists>k < 3. data_index (\<lambda>x. x) [Fin 0, Fin 1, Fin 2] (Fin (3 / 4)) = Some k \<and> \<bar>3 / 4 - [0, 1, 2 :: rat] ! k\<bar> \<le> 1 / 4"
  using hover_picks_nearest [of "[0, 1, 2]" "3 / 4" "\<lambda>x. x" "3 / 4"] by (auto simp: numeral_3_eq_3)

text \<open>
  A pointer exactly at the last time of a row does not select the last point but the one before it: the
  approximate index of the last point is decremented, the loop runs past the end, and the decremented index
  is kept.
\<close>

theorem hover_misses_last_point:
  assumes "2 \<le> length vs" and "index_scale (Fin (last vs)) = Fin (of_nat (length vs) - 1)"
  shows "data_index index_scale (map Fin vs) (Fin (last vs)) = Some (length vs - 2)"
proof -
  let ?n = "length vs" and ?xs = "map Fin vs" and ?d = "Fin (last vs)"
  let ?i = "int ?n - 2"
  have "vs \<noteq> []" using assms(1) by auto
  then have nl: "vs ! (?n - 1) = last vs" by (simp add: last_conv_nth)
  have idx: "nat (?i + 1) = ?n - 1" using assms(1) by simp
  have a: "approximate_index index_scale (length ?xs) ?d = Fin (of_int ?i)"
  proof -
    have "rat_of_nat ?n - 1 + 1 / 2 = of_int (int ?n - 1) + 1 / 2" by simp
    then have "\<lfloor>rat_of_nat ?n - 1 + 1 / 2\<rfloor> = int ?n - 1" by (simp only: floor_eq_iff) simp
    then show ?thesis by (simp add: approximate_index_def assms(2) js_round_def)
  qed
  have up: "index_loop ?xs ?d (?i + 1) = Some None" by (subst index_loop.simps) simp
  have b: "?xs ! nat (?i + 1) = ?d" unfolding idx using nl \<open>vs \<noteq> []\<close> by simp
  have "index_loop ?xs ?d ?i = Some None"
    using assms(1) b up by (subst index_loop.simps) (simp add: Let_def)
  moreover have "start_index (length ?xs) (Fin (of_int ?i)) = ?i"
    using assms(1) by (auto simp: start_index_def or_num_def min_def)
  ultimately show ?thesis using assms(1) by (simp only: data_index_def Let_def a) (simp add: nat_diff_distrib)
qed

theorem hover_misses_last_point_witness:
  "data_index (\<lambda>x. x) [Fin 0, Fin 1, Fin 2] (Fin 2) = Some 1"
  using hover_misses_last_point [of "[0, 1, 2]" "\<lambda>x. x"] by simp

end
