(* ===== verification/Axis.thy ===== *)
theory Axis
  imports JsText
begin

text \<open>
  \<open>Rickshaw.Graph.Axis.X\<close>, \<open>Rickshaw.Graph.Axis.Y\<close> and \<open>Rickshaw.Graph.Axis.Y.Scaled\<close>: the size of an axis, when it
  is computed again, and what one rendering draws. Sizes that the browser reports for an element are pairs of
  numbers (width, height) as parsed from its computed style; a missing argument is \<open>None\<close>. The ticks themselves
  are laid out by d3 from the scale; a rendering records what d3 is asked for.
\<close>

section \<open>State\<close>

record axis_graph =
  ag_width :: jsnum
  ag_height :: jsnum
  ag_renderer :: string
  ag_first_row :: nat

record axis_args =
  aa_orientation :: "string option"
  aa_pixelsPerTick :: "jsnum option"
  aa_ticks :: "jsnum option"
  aa_tickSize :: "jsnum option"
  aa_ticksTreatment :: "string option"
  aa_element :: bool
  aa_width :: "jsnum option"
  aa_height :: "jsnum option"

record size_args =
  sa_width :: "jsnum option"
  sa_height :: "jsnum option"
  sa_auto :: bool

record axis =
  ax_orientation :: string
  ax_pixelsPerTick :: jsnum
  ax_staticTicks :: "jsnum option"
  ax_tickSize :: jsnum
  ax_ticksTreatment :: string
  ax_element :: bool
  ax_width :: jsnum
  ax_height :: jsnum
  ax_vis_width :: jsnum
  ax_vis_height :: jsnum
  ax_offset :: "jsnum option"
  ax_renderWidth :: "jsnum option"
  ax_renderHeight :: "jsnum option"

text \<open>What one rendering asks d3 to draw: the axis with its transformation, and the grid lines.\<close>

record drawing =
  dr_ticks :: jsnum
  dr_class :: string
  dr_transform :: "string option"
  dr_tickSize :: jsnum
  dr_gridClass :: string
  dr_gridSize :: jsnum

definition berth_rate :: jsnum where
  "berth_rate = Fin (1 / 10)"

section \<open>Axis.X\<close>

definition x_discoverSize :: "axis_graph \<Rightarrow> jsnum \<times> jsnum \<Rightarrow> size_args \<Rightarrow> axis \<Rightarrow> axis" where
  "x_discoverSize g style args a =
     (let elementWidth = (if sa_auto args then None else Some (fst style))
      in a\<lparr>ax_width := or_opt (sa_width args) (or_opt elementWidth (ag_width g)) * (Fin 1 + berth_rate),
           ax_height := or_opt (sa_height args) (or_num (snd style) (Fin 40))\<rparr>)"

definition x_setSize :: "axis_graph \<Rightarrow> jsnum \<times> jsnum \<Rightarrow> size_args \<Rightarrow> axis \<Rightarrow> axis" where
  "x_setSize g style args a =
     (if \<not> ax_element a then a
      else
        let a1 = x_discoverSize g style args a
        in a1\<lparr>ax_vis_height := ax_height a1, ax_vis_width := ax_width a1 * (Fin 1 + berth_rate),
              ax_offset := Some (Fin (- 1) * js_floor (ax_width a1 * berth_rate / Fin 2))\<rparr>)"

definition new_axis :: "string \<Rightarrow> axis_args \<Rightarrow> axis" where
  "new_axis dflt args =
     \<lparr>ax_orientation = or_str (aa_orientation args) dflt,
      ax_pixelsPerTick = or_opt (aa_pixelsPerTick args) (Fin 75),
      ax_staticTicks = (if truthy_opt (aa_ticks args) then aa_ticks args else None),
      ax_tickSize = or_opt (aa_tickSize args) (Fin 4),
      ax_ticksTreatment = or_str (aa_ticksTreatment args) ''plain'',
      ax_element = aa_element args, ax_width = NaN, ax_height = NaN, ax_vis_width = NaN, ax_vis_height = NaN,
      ax_offset = None, ax_renderWidth = None, ax_renderHeight = None\<rparr>"

definition new_axis_x :: "axis_graph \<Rightarrow> jsnum \<times> jsnum \<Rightarrow> axis_args \<Rightarrow> axis" where
  "new_axis_x g style args =
     (let a = new_axis ''top'' args; size = \<lparr>sa_width = aa_width args, sa_height = aa_height args, sa_auto = False\<rparr>
      in if aa_element args
         then let a1 = x_discoverSize g style size a
              in x_setSize g style size (a1\<lparr>ax_vis_height := ax_height a1, ax_vis_width := ax_width a1\<rparr>)
         else a)"

definition axis_ticks :: "jsnum \<Rightarrow> axis \<Rightarrow> jsnum" where
  "axis_ticks len a = or_opt (ax_staticTicks a) (js_floor (len / ax_pixelsPerTick a))"

definition x_resize :: "axis_graph \<Rightarrow> jsnum \<times> jsnum \<Rightarrow> axis \<Rightarrow> axis" where
  "x_resize g style a =
     (case ax_renderWidth a of
        Some w \<Rightarrow> (if js_eq (ag_width g) w then a
                   else x_setSize g style \<lparr>sa_width = None, sa_height = None, sa_auto = True\<rparr> a)
      | None \<Rightarrow> a)"

text \<open>An axis without an element of its own has no width, and its berth is then zero.\<close>

definition x_render :: "axis_graph \<Rightarrow> jsnum \<times> jsnum \<Rightarrow> axis \<Rightarrow> axis \<times> drawing" where
  "x_render g style a =
     (let a1 = x_resize g style a;
          ticks = axis_ticks (ag_width g) a1;
          berth = or_num (js_floor (ax_width a1 * berth_rate / Fin 2)) (Fin 0);
          bar_offset = (if ag_renderer g = ''bar''
                        then or_num (js_ceil (ag_width g * Fin (95 / 100) / Fin (of_nat (ag_first_row g)) / Fin 2)) (Fin 0)
                        else Fin 0);
          transform = (if ax_orientation a1 = ''top''
                       then ''translate('' @ num_str (berth + bar_offset) @ '','' @ num_str (or_num (ax_height a1) (ag_height g)) @ '')''
                       else ''translate('' @ num_str (berth + bar_offset) @ '', 0)'')
      in (a1\<lparr>ax_renderHeight := Some (ag_height g)\<rparr>,
          \<lparr>dr_ticks = ticks, dr_class = ''x_ticks_d3 '' @ ax_ticksTreatment a1, dr_transform = Some transform,
           dr_tickSize = ax_tickSize a1, dr_gridClass = ''x_grid_d3'',
           dr_gridSize = (if ax_orientation a1 = ''bottom'' then Fin 1 else Fin (- 1)) * ag_height g\<rparr>))"

section \<open>Axis.Y\<close>

definition y_setSize :: "axis_graph \<Rightarrow> jsnum \<times> jsnum \<Rightarrow> size_args \<Rightarrow> axis \<Rightarrow> axis" where
  "y_setSize g style args a =
     (if \<not> ax_element a then a
      else
        let elementHeight = (if sa_auto args then None else Some (snd style));
            w = or_opt (sa_width args) (or_num (fst style) (ag_width g * berth_rate));
            h = or_opt (sa_height args) (or_opt elementHeight (ag_height g))
        in a\<lparr>ax_width := w, ax_height := h, ax_vis_width := w, ax_vis_height := h * (Fin 1 + berth_rate),
             ax_offset := (if ax_orientation a = ''left'' then Some (Fin (- 1) * (h * berth_rate)) else ax_offset a)\<rparr>)"

definition new_axis_y :: "axis_graph \<Rightarrow> jsnum \<times> jsnum \<Rightarrow> axis_args \<Rightarrow> axis" where
  "new_axis_y g style args =
     (let a = new_axis ''right'' args
      in if aa_element args
         then y_setSize g style \<lparr>sa_width = aa_width args, sa_height = aa_height args, sa_auto = False\<rparr> a
         else a)"

definition y_resize :: "axis_graph \<Rightarrow> jsnum \<times> jsnum \<Rightarrow> axis \<Rightarrow> axis" where
  "y_resize g style a =
     (case ax_renderHeight a of
        Some h \<Rightarrow> (if js_eq (ag_height g) h then a
                   else y_setSize g style \<lparr>sa_width = None, sa_height = None, sa_auto = True\<rparr> a)
      | None \<Rightarrow> a)"

definition y_drawAxis :: "axis_graph \<Rightarrow> axis \<Rightarrow> drawing" where
  "y_drawAxis g a =
     \<lparr>dr_ticks = axis_ticks (ag_height g) a, dr_class = ''y_ticks '' @ ax_ticksTreatment a,
      dr_transform = (if ax_orientation a = ''left''
                      then Some (''translate('' @ (if ax_element a then num_str (ax_width a) else ''undefined'') @ '', '' @ num_str (ax_height a * berth_rate) @ '')'')
                      else None),
      dr_tickSize = ax_tickSize a, dr_gridClass = ''y_grid'',
      dr_gridSize = (if ax_orientation a = ''right'' then Fin 1 else Fin (- 1)) * ag_width g\<rparr>"

definition y_render :: "axis_graph \<Rightarrow> jsnum \<times> jsnum \<Rightarrow> axis \<Rightarrow> axis \<times> drawing" where
  "y_render g style a =
     (let a1 = y_resize g style a
      in (a1\<lparr>ax_renderHeight := Some (ag_height g)\<rparr>, y_drawAxis g a1))"

section \<open>Axis.Y.Scaled\<close>

text \<open>
  The domain of the series' own scale, adjusted by what padding did to the renderer's domain; \<open>lin\<close> is the
  linear scale of d3 from a domain to a range.
\<close>

definition adjusted_domain ::
  "(jsnum \<times> jsnum \<Rightarrow> jsnum \<times> jsnum \<Rightarrow> jsnum \<Rightarrow> jsnum) \<Rightarrow> jsnum list \<Rightarrow> jsnum \<times> jsnum \<Rightarrow> jsnum list"
where
  "adjusted_domain lin domain renderDomain =
     (let extents = (js_min domain, js_max domain);
          extentMap = lin (Fin 0, Fin 1) extents;
          adjExtents = (extentMap (fst renderDomain), extentMap (snd renderDomain))
      in map (lin extents adjExtents) domain)"

definition new_scaled :: "axis_graph \<Rightarrow> jsnum \<times> jsnum \<Rightarrow> axis_args \<Rightarrow> bool \<Rightarrow> bool option \<Rightarrow> (axis \<times> bool) js" where
  "new_scaled g style args has_scale grid =
     (if \<not> has_scale then Inl (Thrown ''Scaled requires scale'')
      else Inr (new_axis_y g style args, case grid of None \<Rightarrow> True | Some b \<Rightarrow> b))"

text \<open>The scaled axis draws the adjusted scale, and the grid only if it was asked for.\<close>

definition scaled_render ::
  "(jsnum \<times> jsnum \<Rightarrow> jsnum \<times> jsnum \<Rightarrow> jsnum \<Rightarrow> jsnum) \<Rightarrow> jsnum list \<Rightarrow> jsnum \<times> jsnum \<Rightarrow> axis_graph \<Rightarrow> jsnum \<times> jsnum \<Rightarrow>
   axis \<times> bool \<Rightarrow> (axis \<times> bool) \<times> drawing \<times> jsnum list \<times> bool"
where
  "scaled_render lin domain renderDomain g style = (\<lambda>(a, grid).
     let (a', d) = y_render g style a in ((a', grid), d, adjusted_domain lin domain renderDomain, grid))"

section \<open>Rendering again and again\<close>

fun x_renders :: "(axis_graph \<times> jsnum \<times> jsnum) list \<Rightarrow> axis \<Rightarrow> axis" where
  "x_renders [] a = a"
| "x_renders ((g, style) # gs) a = x_renders gs (fst (x_render g style a))"

fun y_renders :: "(axis_graph \<times> jsnum \<times> jsnum) list \<Rightarrow> axis \<Rightarrow> axis" where
  "y_renders [] a = a"
| "y_renders ((g, style) # gs) a = y_renders gs (fst (y_render g style a))"

lemma x_renders_size:
  "ax_renderWidth a = None \<Longrightarrow>
     ax_width (x_renders gs a) = ax_width a \<and> ax_vis_width (x_renders gs a) = ax_vis_width a
     \<and> ax_height (x_renders gs a) = ax_height a"
  by (induction gs a rule: x_renders.induct) (auto simp: x_render_def x_resize_def Let_def)

lemma new_axis_x_no_width [simp]: "ax_renderWidth (new_axis_x g style args) = None"
  by (simp add: new_axis_x_def new_axis_def x_setSize_def x_discoverSize_def Let_def)

lemma y_renders_append: "y_renders (gs @ [(g, style)]) a = fst (y_render g style (y_renders gs a))"
  by (induction gs a rule: y_renders.induct) auto

lemma y_setSize_fields [simp]:
  "ax_element (y_setSize g style args a) = ax_element a"
  "ax_renderHeight (y_setSize g style args a) = ax_renderHeight a"
  by (simp_all add: y_setSize_def Let_def)

lemma y_render_element [simp]: "ax_element (fst (y_render g style a)) = ax_element a"
  by (simp add: y_render_def y_resize_def Let_def split: option.splits)

lemma y_renders_element [simp]: "ax_element (y_renders gs a) = ax_element a"
  by (induction gs a rule: y_renders.induct) auto

lemma y_renders_height: "gs \<noteq> [] \<Longrightarrow> ax_renderHeight (y_renders gs a) = Some (ag_height (fst (last gs)))"
  by (induction gs rule: rev_induct) (auto simp: y_renders_append y_render_def Let_def)

section \<open>Properties\<close>

text \<open>
  The y axis follows the height of the graph: after a rendering at a height that differs from the one
  before, the axis has that height (the element's own height is not asked for). The x axis never follows the
  width: whatever widths the graph takes over any number of renderings, the axis keeps the size of its
  construction, because the width of the last rendering is never recorded.
\<close>

theorem axis_resizing:
  assumes "gs \<noteq> []" and "\<not> js_eq (ag_height g) (ag_height (fst (last gs)))" and "truthy_num (ag_height g)"
    and "aa_element args"
  shows "ax_height (y_renders (gs @ [(g, style)]) (new_axis_y g0 style0 args)) = ag_height g
    \<and> ax_width (x_renders (gs @ [(g, style)]) (new_axis_x g0 style0 args)) = ax_width (new_axis_x g0 style0 args)
    \<and> ax_vis_width (x_renders (gs @ [(g, style)]) (new_axis_x g0 style0 args)) = ax_vis_width (new_axis_x g0 style0 args)"
proof -
  let ?a = "y_renders gs (new_axis_y g0 style0 args)"
  have el: "ax_element ?a" using assms(4) by (simp add: new_axis_y_def new_axis_def Let_def)
  have "y_resize g style ?a = y_setSize g style \<lparr>sa_width = None, sa_height = None, sa_auto = True\<rparr> ?a"
    using assms(2) y_renders_height [OF assms(1)] by (simp add: y_resize_def)
  then have "ax_height (fst (y_render g style ?a)) = ag_height g"
    using el assms(3) by (simp add: y_render_def y_setSize_def Let_def)
  then show ?thesis using x_renders_size by (simp add: y_renders_append)
qed

definition plain_axis_args :: axis_args where
  "plain_axis_args = \<lparr>aa_orientation = Some ''left'', aa_pixelsPerTick = None, aa_ticks = None, aa_tickSize = None,
     aa_ticksTreatment = None, aa_element = True, aa_width = None, aa_height = None\<rparr>"

definition small_graph :: axis_graph where
  "small_graph = \<lparr>ag_width = Fin 560, ag_height = Fin 170, ag_renderer = ''line'', ag_first_row = 98\<rparr>"

theorem axis_resizing_witness:
  "ax_height (y_renders ([(small_graph, (Fin 40, Fin 170))] @ [(small_graph\<lparr>ag_height := Fin 300\<rparr>, (Fin 40, Fin 170))])
     (new_axis_y small_graph (Fin 40, Fin 170) plain_axis_args)) = Fin 300"
  using axis_resizing [of "[(small_graph, (Fin 40, Fin 170))]" "small_graph\<lparr>ag_height := Fin 300\<rparr>" plain_axis_args
      "(Fin 40, Fin 170)" small_graph "(Fin 40, Fin 170)"]
  by (simp add: small_graph_def plain_axis_args_def)

end
