(* ===== verification/Html.thy ===== *)
theory Html
  imports JsText
begin

text \<open>
  The functions of \<open>Common.js\<close> that print HTML: tags, canvases, buttons, images, and the blocks that
  \<open>Rickshaw_CreateDivGraph\<close> lays out for a graph. A null argument is \<open>None\<close>; the size of a button and its
  reduction factor are globals of the application and arguments here.
\<close>

section \<open>Printing\<close>

definition opt_text :: "string \<Rightarrow> ('a \<Rightarrow> string) \<Rightarrow> string \<Rightarrow> 'a option \<Rightarrow> string" where
  "opt_text pre f post x = (case x of None \<Rightarrow> [] | Some v \<Rightarrow> pre @ f v @ post)"

abbreviation nl :: string where
  "nl \<equiv> [CHR 0x0A]"

abbreviation quote :: string where
  "quote \<equiv> [CHR 0x27]"

definition OpenTag ::
  "string \<Rightarrow> string \<Rightarrow> string option \<Rightarrow> jsnum option \<Rightarrow> jsnum option \<Rightarrow> jsnum option \<Rightarrow> jsnum option \<Rightarrow>
   jsnum option \<Rightarrow> string option \<Rightarrow> string option \<Rightarrow> string option \<Rightarrow> string"
where
  "OpenTag szTag szID szSRC nX nY nWidth nHeight nZ szStyles szClass szExtra =
     ''<'' @ szTag @ '' id='' @ quote @ szID @ quote @ '' '' @ nl
     @ opt_text (''src='' @ quote) id (quote @ '' '' @ nl) szSRC
     @ (case szStyles of
          None \<Rightarrow> []
        | Some styles \<Rightarrow>
            ''style='' @ quote @ nl
            @ opt_text ''left:'' num_str (''px;'' @ nl) nX
            @ opt_text ''top:'' num_str (''px;'' @ nl) nY
            @ opt_text ''width:'' num_str (''px;'' @ nl) nWidth
            @ opt_text ''height:'' num_str (''px;'' @ nl) nHeight
            @ opt_text ''z-index:'' num_str ('';'' @ nl) nZ
            @ styles @ nl
            @ quote @ '' '' @ nl)
     @ opt_text (''class='' @ quote @ nl) id (quote @ '' '' @ nl) szClass
     @ opt_text [] id [] szExtra
     @ ''>'' @ nl"

definition CloseTag :: "string \<Rightarrow> string" where
  "CloseTag szTag = ''</'' @ szTag @ ''>'' @ nl"

definition OpenCanvas ::
  "string \<Rightarrow> jsnum option \<Rightarrow> jsnum option \<Rightarrow> jsnum option \<Rightarrow> jsnum option \<Rightarrow> jsnum option \<Rightarrow>
   string option \<Rightarrow> string option \<Rightarrow> string option \<Rightarrow> string"
where
  "OpenCanvas szID nX nY nWidth nHeight nZ szStyles szClass szExtra =
     ''<canvas id='' @ quote @ szID @ quote @ '' ''
     @ opt_text (''width='' @ quote) num_str (quote @ '' '') nWidth
     @ opt_text (''height='' @ quote) num_str (quote @ '' '') nHeight
     @ (case szStyles of
          None \<Rightarrow> []
        | Some styles \<Rightarrow>
            ''style='' @ quote
            @ opt_text ''left:'' num_str ''px; '' nX
            @ opt_text ''top:'' num_str ''px; '' nY
            @ opt_text ''z-index:'' num_str ''; '' nZ
            @ styles @ '' ''
            @ quote @ nl)
     @ opt_text (''class='' @ quote) id (quote @ '' '' @ nl) szClass
     @ opt_text [] id [] szExtra
     @ ''>'' @ nl"

definition CloseCanvas :: string where
  "CloseCanvas = ''</canvas>'' @ nl"

definition AddButton ::
  "jsnum \<Rightarrow> jsnum \<Rightarrow> jsnum \<Rightarrow> string \<Rightarrow> string option \<Rightarrow> jsnum \<Rightarrow> jsnum \<Rightarrow> jsnum option \<Rightarrow> string option \<Rightarrow> string"
where
  "AddButton size_width size_height reductionFactor szID szSRC nX nY nZ szExtra =
     (let nOffset = size_width * (Fin 1 - (Fin 1 / reductionFactor)) / Fin 2
      in OpenTag ''img'' szID szSRC (Some (nX + nOffset)) (Some (nY + nOffset))
           (Some (size_width / reductionFactor)) (Some (size_height / reductionFactor)) nZ
           (Some ''position:absolute;'') None szExtra @ CloseTag ''img'')"

text \<open>A missing \<open>szExtraStyles\<close> is printed as the word \<open>undefined\<close>.\<close>

definition AddImage ::
  "string \<Rightarrow> string option \<Rightarrow> jsnum option \<Rightarrow> jsnum option \<Rightarrow> jsnum option \<Rightarrow> jsnum option \<Rightarrow> jsnum option \<Rightarrow>
   string option \<Rightarrow> string option \<Rightarrow> string"
where
  "AddImage szID szSRC nX nY nWidth nHeight nZ szExtra szExtraStyles =
     OpenTag ''img'' szID szSRC nX nY nWidth nHeight nZ
       (Some (''position:absolute;'' @ (case szExtraStyles of None \<Rightarrow> ''undefined'' | Some s \<Rightarrow> s))) None szExtra
     @ CloseTag ''img''"

section \<open>The blocks of a graph\<close>

record graph_box =
  nX :: jsnum
  nY :: jsnum
  nGraphWidth :: jsnum
  nGraphHeight :: jsnum

definition graph_geometry :: "jsnum \<Rightarrow> jsnum \<Rightarrow> graph_box" where
  "graph_geometry nWidth nHeight =
     \<lparr>nX = Fin 40, nY = Fin 10, nGraphWidth = nWidth - Fin 40, nGraphHeight = nHeight - Fin 20 - Fin 10\<rparr>"

definition graph_block ::
  "string \<Rightarrow> string \<Rightarrow> string \<Rightarrow> jsnum \<Rightarrow> jsnum \<Rightarrow> jsnum \<Rightarrow> jsnum \<Rightarrow> jsnum \<Rightarrow> string"
where
  "graph_block szName part css x y w h z =
     OpenTag ''div'' (szName @ ''_'' @ part) None (Some x) (Some y) (Some w) (Some h) (Some z) (Some [])
       (Some (css @ ''common '' @ css @ part)) None"

definition Rickshaw_CreateDivGraph ::
  "string \<Rightarrow> string \<Rightarrow> jsnum \<Rightarrow> jsnum \<Rightarrow> jsnum \<Rightarrow> jsnum \<Rightarrow> jsnum \<Rightarrow> graph_box \<times> string"
where
  "Rickshaw_CreateDivGraph szName css x y nWidth nHeight nZIndex =
     (let g = graph_geometry nWidth nHeight in
      (g,
       graph_block szName ''container'' css x y nWidth nHeight nZIndex
       @ graph_block szName ''y_axis'' css (Fin 0) (nY g) (Fin 40) (nGraphHeight g) nZIndex @ CloseTag ''div''
       @ graph_block szName ''chart'' css (nX g) (nY g) (nGraphWidth g) (nGraphHeight g) nZIndex @ CloseTag ''div''
       @ graph_block szName ''x_axis'' css (nX g) (nY g + nGraphHeight g) (nGraphWidth g) (Fin 20) nZIndex @ CloseTag ''div''
       @ graph_block szName ''legend'' css (nX g + Fin 10) (nY g + Fin 10) (Fin 250) (Fin 40) nZIndex @ CloseTag ''div''
       @ CloseTag ''div''))"

section \<open>Reading the tags back\<close>

text \<open>
  A scanner for the printed text: from each left angle bracket to the next right one, an opening tag with its
  name and identifier or a closing tag with its name.
\<close>

datatype tag = Open string string | Close string

abbreviation lt :: char where
  "lt \<equiv> CHR 0x3C"

abbreviation gt :: char where
  "gt \<equiv> CHR 0x3E"

definition read_tag :: "string \<Rightarrow> tag" where
  "read_tag body =
     (case body of
        c # r \<Rightarrow>
          if c = CHR ''/'' then Close r
          else let name = takeWhile (\<lambda>c. c \<noteq> CHR '' '') body
               in Open name (takeWhile (\<lambda>c. c \<noteq> CHR 0x27) (drop (length name + 5) body))
      | [] \<Rightarrow> Open [] [])"

function tags :: "string \<Rightarrow> tag list" where
  "tags s =
     (case dropWhile (\<lambda>c. c \<noteq> lt) s of
        [] \<Rightarrow> []
      | _ # r \<Rightarrow> read_tag (takeWhile (\<lambda>c. c \<noteq> gt) r) # tags (drop 1 (dropWhile (\<lambda>c. c \<noteq> gt) r)))"
  by pat_completeness auto
termination
proof (relation "measure length")
  fix s :: string and c r
  assume "dropWhile (\<lambda>c. c \<noteq> lt) s = c # r"
  then have "Suc (length r) \<le> length s" by (metis length_Cons length_dropWhile_le)
  moreover have "length (drop 1 (dropWhile (\<lambda>c. c \<noteq> gt) r)) \<le> length r"
    by (metis length_drop diff_le_self le_trans length_dropWhile_le)
  ultimately show "(drop 1 (dropWhile (\<lambda>c. c \<noteq> gt) r), s) \<in> measure length" by simp
qed simp

declare tags.simps [simp del]

text \<open>Nesting: closing tags match the innermost open one.\<close>

fun nest :: "string list \<Rightarrow> tag list \<Rightarrow> string list option" where
  "nest st [] = Some st"
| "nest st (Open n i # ts) = nest (n # st) ts"
| "nest [] (Close n # ts) = None"
| "nest (m # st) (Close n # ts) = (if m = n then nest st ts else None)"

definition safe :: "string \<Rightarrow> bool" where
  "safe s = (lt \<notin> set s \<and> gt \<notin> set s)"

lemma safe_append [simp]: "safe (s @ t) \<longleftrightarrow> safe s \<and> safe t"
  by (auto simp: safe_def)

lemma safe_simps [simp]: "safe []" "safe (c # s) \<longleftrightarrow> c \<noteq> lt \<and> c \<noteq> gt \<and> safe s"
  by (auto simp: safe_def)

lemma digit_small: "d < 10 \<Longrightarrow> digit d \<noteq> lt \<and> digit d \<noteq> gt"
proof -
  assume d: "d < 10"
  then have "of_char (digit d) = 48 + d" by (simp add: of_char_digit)
  with d show ?thesis by auto
qed

lemma safe_nat_str [simp]: "safe (nat_str n)"
proof -
  have "list_all is_digit (nat_str n)" unfolding nat_str_def by (rule radix_str_digits) simp_all
  moreover have "\<not> is_digit lt" "\<not> is_digit gt" by (simp_all add: is_digit_def)
  ultimately show ?thesis by (auto simp: safe_def list_all_iff)
qed

lemma safe_frac: "0 \<le> r \<Longrightarrow> r < 1 \<Longrightarrow> safe (frac_digits k r)"
proof (induction k arbitrary: r)
  case 0
  then show ?case by simp
next
  case (Suc k)
  have f: "nat \<lfloor>10 * r\<rfloor> < 10"
  proof -
    have "\<lfloor>10 * r\<rfloor> < 10" using Suc.prems by (simp add: floor_less_iff)
    then show ?thesis by linarith
  qed
  have "0 \<le> 10 * r - of_int \<lfloor>10 * r\<rfloor>" "10 * r - of_int \<lfloor>10 * r\<rfloor> < 1" by linarith+
  with Suc.IH digit_small [of "nat \<lfloor>10 * r\<rfloor>"] f show ?case by auto
qed

lemma safe_num_str [simp]: "safe (num_str n)"
proof (cases n)
  case (Fin r)
  have "0 \<le> \<bar>r\<bar> - of_int \<lfloor>\<bar>r\<bar>\<rfloor>" "\<bar>r\<bar> - of_int \<lfloor>\<bar>r\<bar>\<rfloor> < 1" by linarith+
  then show ?thesis using Fin by (simp add: rat_str_def Let_def safe_frac)
qed simp_all

lemma safe_opt [simp]: "safe pre \<Longrightarrow> safe post \<Longrightarrow> (\<And>v. x = Some v \<Longrightarrow> safe (f v)) \<Longrightarrow> safe (opt_text pre f post x)"
  by (auto simp: opt_text_def split: option.splits)

lemma tags_step:
  assumes "safe body"
  shows "tags (lt # body @ gt # s) = read_tag body # tags s"
proof -
  have "takeWhile (\<lambda>c. c \<noteq> gt) (body @ gt # s) = body" "dropWhile (\<lambda>c. c \<noteq> gt) (body @ gt # s) = gt # s"
    using assms by (subst takeWhile_append2 dropWhile_append2; auto simp: safe_def)+
  then show ?thesis by (simp add: tags.simps [of "lt # _"])
qed

lemma tags_newline [simp]: "tags (CHR 0x0A # s) = tags s"
  by (simp add: tags.simps [of "CHR 0x0A # s"] tags.simps [of s])

text \<open>An ordinary tag name: no blank, no slash, no brackets.\<close>

definition tag_name :: "string \<Rightarrow> bool" where
  "tag_name n = (n \<noteq> [] \<and> CHR '' '' \<notin> set n \<and> CHR ''/'' \<notin> set n \<and> safe n)"

lemma tags_CloseTag: "tag_name n \<Longrightarrow> tags (CloseTag n @ s) = Close n # tags s"
  using tags_step [of "CHR ''/'' # n" "CHR 0x0A # s"]
  by (simp add: CloseTag_def tag_name_def read_tag_def)

lemma read_tag_parts:
  "body \<noteq> [] \<Longrightarrow> hd body \<noteq> CHR ''/'' \<Longrightarrow> takeWhile (\<lambda>c. c \<noteq> CHR '' '') body = n \<Longrightarrow> drop (length n + 5) body = t \<Longrightarrow>
     read_tag body = Open n (takeWhile (\<lambda>c. c \<noteq> CHR 0x27) t)"
  by (cases body) (simp_all add: read_tag_def Let_def)

lemma read_tag_open:
  assumes "tag_name n" and "CHR 0x27 \<notin> set i"
  shows "read_tag (n @ '' id='' @ quote @ i @ quote @ r) = Open n i"
proof -
  obtain c cs where n: "n = c # cs" "c \<noteq> CHR ''/''" using assms(1) by (cases n) (auto simp: tag_name_def)
  have "takeWhile (\<lambda>c. c \<noteq> CHR '' '') (n @ '' id='' @ quote @ i @ quote @ r) = n"
    using assms(1) by (subst takeWhile_append2) (auto simp: tag_name_def)
  moreover have "takeWhile (\<lambda>c. c \<noteq> CHR 0x27) (i @ quote @ r) = i"
    using assms(2) by (subst takeWhile_append2) auto
  moreover have "drop (length n + 5) (n @ '' id='' @ quote @ i @ quote @ r) = i @ quote @ r"
    by (simp add: numeral_eq_Suc)
  ultimately show ?thesis using read_tag_parts n by (metis append_Cons list.distinct(1) list.sel(1))
qed

lemma tags_OpenTag:
  assumes "tag_name n" and "CHR 0x27 \<notin> set i" and "safe i"
    and "\<And>v. src = Some v \<Longrightarrow> safe v" "\<And>v. sty = Some v \<Longrightarrow> safe v" "\<And>v. cls = Some v \<Longrightarrow> safe v"
    "\<And>v. ex = Some v \<Longrightarrow> safe v"
  shows "tags (OpenTag n i src x y w h z sty cls ex @ s) = Open n i # tags s"
proof -
  obtain r where r: "OpenTag n i src x y w h z sty cls ex = lt # (n @ '' id='' @ quote @ i @ quote @ r) @ gt # nl"
    and sr: "safe r"
  proof
    show "OpenTag n i src x y w h z sty cls ex = lt # (n @ '' id='' @ quote @ i @ quote @ ('' '' @ nl
     @ opt_text (''src='' @ quote) id (quote @ '' '' @ nl) src
     @ (case sty of
          None \<Rightarrow> []
        | Some styles \<Rightarrow>
            ''style='' @ quote @ nl
            @ opt_text ''left:'' num_str (''px;'' @ nl) x
            @ opt_text ''top:'' num_str (''px;'' @ nl) y
            @ opt_text ''width:'' num_str (''px;'' @ nl) w
            @ opt_text ''height:'' num_str (''px;'' @ nl) h
            @ opt_text ''z-index:'' num_str ('';'' @ nl) z
            @ styles @ nl
            @ quote @ '' '' @ nl)
     @ opt_text (''class='' @ quote @ nl) id (quote @ '' '' @ nl) cls
     @ opt_text [] id [] ex)) @ gt # nl"
      by (simp add: OpenTag_def)
  qed (use assms in \<open>auto split: option.splits\<close>)
  have "safe (n @ '' id='' @ quote @ i @ quote @ r)" using assms sr by (auto simp: tag_name_def)
  from tags_step [OF this] show ?thesis unfolding r
    by (simp add: read_tag_open [OF assms(1,2), simplified])
qed

section \<open>Properties\<close>

lemma tags_block:
  assumes "safe name" and "CHR 0x27 \<notin> set name" and "safe css" and "safe part" and "CHR 0x27 \<notin> set part"
  shows "tags (graph_block name part css x y w h z @ s) = Open ''div'' (name @ ''_'' @ part) # tags s"
  unfolding graph_block_def by (rule tags_OpenTag) (use assms in \<open>auto simp: tag_name_def\<close>)

text \<open>
  C30. The HTML that \<open>Rickshaw_CreateDivGraph\<close> prints opens one container and, inside it, one after the other,
  the blocks named \<open>_y_axis\<close>, \<open>_chart\<close>, \<open>_x_axis\<close> and \<open>_legend\<close> that \<open>Rickshaw_CreateGraph\<close> later looks up; every
  block is closed; and chart and axes fill the container exactly. The names must not contain brackets or
  quotes.
\<close>

theorem graph_blocks_nested:
  assumes "safe name" and "CHR 0x27 \<notin> set name" and "safe css"
    and "Rickshaw_CreateDivGraph name css x y (Fin w) (Fin h) z = (g, html)"
  shows "tags html =
      [Open ''div'' (name @ ''_container''),
       Open ''div'' (name @ ''_y_axis''), Close ''div'', Open ''div'' (name @ ''_chart''), Close ''div'',
       Open ''div'' (name @ ''_x_axis''), Close ''div'', Open ''div'' (name @ ''_legend''), Close ''div'', Close ''div'']
    \<and> nest [] (tags html) = Some []
    \<and> nX g + nGraphWidth g = Fin w \<and> nY g + nGraphHeight g + Fin 20 = Fin h"
proof -
  have d: "tag_name ''div''" by (simp add: tag_name_def)
  have nil: "tags [] = []" by (simp add: tags.simps)
  have last: "tags (CloseTag ''div'') = [Close ''div'']" using tags_CloseTag [OF d, of "[]"] nil by simp
  from assms show ?thesis
    by (auto simp: Rickshaw_CreateDivGraph_def graph_geometry_def Let_def tags_block tags_CloseTag [OF d] last)
qed

theorem graph_blocks_nested_witness:
  "nest [] (tags (snd (Rickshaw_CreateDivGraph ''PTPDelta'' ''rvSessionSinkState_Graph_''
     (Fin 0) (Fin 0) (Fin 600) (Fin 200) (Fin 10)))) = Some []"
  using graph_blocks_nested [of "''PTPDelta''" "''rvSessionSinkState_Graph_''" "Fin 0" "Fin 0" 600 200 "Fin 10",
      OF _ _ _ surjective_pairing]
  by simp

text \<open>
  Buttons and images are single, closed \<open>img\<close> elements with the identifier they were given, for every
  position and size, as long as the texts passed in contain no brackets and the identifier no quote.
\<close>

theorem images_closed:
  assumes "safe i" and "CHR 0x27 \<notin> set i" and "\<And>v. src = Some v \<Longrightarrow> safe v" and "\<And>v. ex = Some v \<Longrightarrow> safe v"
    and "\<And>v. sty = Some v \<Longrightarrow> safe v"
  shows "tags (AddButton sw sh f i src b1 b2 b3 ex) = [Open ''img'' i, Close ''img'']
    \<and> tags (AddImage i src x y w h z ex sty) = [Open ''img'' i, Close ''img'']"
proof -
  have img: "tag_name ''img''" by (simp add: tag_name_def)
  have nil: "tags [] = []" by (simp add: tags.simps)
  have last: "tags (CloseTag ''img'') = [Close ''img'']" using tags_CloseTag [OF img, of "[]"] nil by simp
  have "tags (AddButton sw sh f i src b1 b2 b3 ex) = [Open ''img'' i, Close ''img'']"
    unfolding AddButton_def Let_def
    by (subst tags_OpenTag [OF img assms(2,1)]) (use assms last in auto)
  moreover have "tags (AddImage i src x y w h z ex sty) = [Open ''img'' i, Close ''img'']"
    unfolding AddImage_def
    by (subst tags_OpenTag [OF img assms(2,1)]) (use assms last in \<open>auto split: option.splits\<close>)
  ultimately show ?thesis by blast
qed

theorem images_closed_witness:
  "tags (AddButton (Fin 64) (Fin 64) (Fin 2) ''btn'' (Some ''a.png'') (Fin 1) (Fin 2) None None) =
     [Open ''img'' ''btn'', Close ''img'']"
  using images_closed [of "''btn''" "Some ''a.png''" None None] by simp

end
