(* ===== verification/GraphPage.thy ===== *)
theory GraphPage
  imports GraphConfig GraphValid HoverDetail Axis Html Fixtures
begin

text \<open>
  \<open>Rickshaw_CreateGraph\<close> and \<open>Rickshaw_DestroyGraph\<close> of \<open>Common.js\<close>: the graph of a page, assembled from the
  fixed-duration series, the graph, its two axes and the hover detail, whose \<open>render\<close> is overridden to print the
  values into the legend block. What the page and d3 provide is the record \<open>page_env\<close>.
\<close>

section \<open>The page\<close>

text \<open>
  \<open>en_has\<close>: the document has an element of this identifier. \<open>en_styles\<close>: its computed width and height. \<open>en_lin\<close> and
  \<open>en_invert\<close>: the linear scale of d3 and its inverse. \<open>en_locale\<close>: \<open>toLocaleString\<close> of a time in milliseconds.
\<close>

record page_env =
  en_hsl :: hsl
  en_now :: jsnum
  en_has :: "string \<Rightarrow> bool"
  en_styles :: "string \<Rightarrow> jsnum \<times> jsnum"
  en_rect :: "jsnum \<times> jsnum"
  en_lin :: "scale \<Rightarrow> jsnum \<Rightarrow> jsnum"
  en_invert :: "scale \<Rightarrow> jsnum \<Rightarrow> jsnum"
  en_index_scale :: "jsnum \<times> jsnum \<Rightarrow> jsnum \<times> jsnum \<Rightarrow> jsnum \<Rightarrow> jsnum"
  en_locale :: "jsnum \<Rightarrow> string"

text \<open>The legend block (its text and its lines, each a swatch colour and a label) and the dots of the detail.\<close>

record legend_block =
  lg_text :: string
  lg_lines :: "(string \<times> string) list"

record page_graph =
  pgr_graph :: graph
  pgr_series :: fixed
  pgr_xAxis :: axis
  pgr_yAxis :: axis
  pgr_hover :: hover
  pgr_legend :: legend_block
  pgr_dots :: "(jsnum \<times> string) list"

section \<open>Formats\<close>

text \<open>The remainder of JavaScript takes the sign of the dividend.\<close>

definition js_rem :: "rat \<Rightarrow> rat \<Rightarrow> rat" where
  "js_rem a b = (let q = a / b in a - b * of_int (if 0 \<le> q then \<lfloor>q\<rfloor> else \<lceil>q\<rceil>))"

definition tick_format :: "rat \<Rightarrow> string" where
  "tick_format x = num_str (Fin (js_rem (of_int \<lfloor>x / 60\<rfloor>) 60)) @ '':'' @ num_str (Fin (js_rem x 60))"

section \<open>The domain of the page's graph\<close>

fun num_opt :: "jsval \<Rightarrow> jsnum option" where
  "num_opt (JNum n) = Some n"
| "num_opt _ = None"

definition min_setting :: "jsval \<Rightarrow> graph_min" where
  "min_setting v = (if v = JStr ''auto'' then MinAuto else MinGiven (num_opt v))"

definition pad_of :: "jsval \<Rightarrow> paddings" where
  "pad_of p =
     (let n = (\<lambda>k. case num_opt (get_prop p k) of Some v \<Rightarrow> v | None \<Rightarrow> NaN)
      in \<lparr>pad_top = n ''top'', pad_right = n ''right'', pad_bottom = n ''bottom'', pad_left = n ''left''\<rparr>)"

text \<open>The line renderer is unstacked, and the page sets no window: the rows are the series' own, based at zero.\<close>

definition page_rows :: "series_item list \<Rightarrow> point list list" where
  "page_rows its = map (\<lambda>it. map default_y0 (si_data it)) its"

definition page_domain :: "series_item list \<Rightarrow> graph \<Rightarrow> domain_xy js" where
  "page_domain its g =
     (case g_current g of
        None \<Rightarrow> Inl TypeError
      | Some i \<Rightarrow> Inr (renderer_domain (pad_of (get_prop (r_this (g_objs g ! i)) ''padding''))
          (min_setting (get_prop (g_this g) ''min'')) (num_opt (get_prop (g_this g) ''max'')) (page_rows its)))"

section \<open>The overridden detail\<close>

definition hover_series_of :: "series_item list \<Rightarrow> hover_series list" where
  "hover_series_of its =
     map (\<lambda>it. \<lparr>hs_name = si_name it, hs_color = si_color it, hs_points = map default_y0 (si_data it),
                hs_formatX = None, hs_formatY = None, hs_invert = None\<rparr>) its"

definition hover_env_of :: "page_env \<Rightarrow> graph_scales \<Rightarrow> hover_env" where
  "hover_env_of env sc =
     \<lparr>he_left = fst (en_rect env), he_top = snd (en_rect env), he_x = en_lin env (gx sc), he_y = en_lin env (gy sc),
      he_x_invert = en_invert env (gx sc), he_index_scale = en_index_scale env,
      he_formatX = (\<lambda>x. en_locale env (x * Fin 1000)), he_formatY = format_y\<rparr>"

definition legend_render :: "page_env \<Rightarrow> graph_scales \<Rightarrow> hover_point list \<Rightarrow> page_graph \<Rightarrow> page_graph" where
  "legend_render env sc points p =
     (let shown = (case filter hp_active points of [] \<Rightarrow> [] | d # _ \<Rightarrow> hp_formattedX d) in
      fold (\<lambda>d p. p\<lparr>pgr_legend := (pgr_legend p)\<lparr>lg_lines := lg_lines (pgr_legend p) @ [(hp_color d, hp_name d @ '': '' @ hp_formattedY d)]\<rparr>,
                     pgr_dots := pgr_dots p @ [(en_lin env (gy sc) (point_top (hp_value d)), hp_color d)],
                     pgr_hover := hover_show (pgr_hover p)\<rparr>)
        (sort_key hp_order points)
        (p\<lparr>pgr_legend := \<lparr>lg_text = shown, lg_lines = []\<rparr>\<rparr>))"

text \<open>
  \<open>update\<close> empties the detail before it renders; without a nearest point it leaves everything as it is. A page
  without a legend block throws when something is to be shown. \<open>None\<close> is a search that does not end.
\<close>

definition page_hover :: "page_env \<Rightarrow> bool \<Rightarrow> hover_event option \<Rightarrow> page_graph \<Rightarrow> page_graph js option" where
  "page_hover env has_legend e p =
     (case g_scales (pgr_graph p) of
        None \<Rightarrow> Some (Inr p)
      | Some sc \<Rightarrow>
          map_option (\<lambda>(h, pts).
            case pts of
              None \<Rightarrow> Inr (p\<lparr>pgr_hover := h\<rparr>)
            | Some ps \<Rightarrow> (if has_legend then Inr (legend_render env sc ps (p\<lparr>pgr_hover := h, pgr_dots := []\<rparr>)) else Inl TypeError))
            (hover_update (hover_env_of env sc) (hover_series_of (items (pgr_series p))) e (pgr_hover p)))"

section \<open>Rickshaw\_CreateGraph\<close>

definition graph_args :: "graph_box \<Rightarrow> jsval \<Rightarrow> jsval \<Rightarrow> series_item list \<Rightarrow> jsval" where
  "graph_args b value_min value_max its = JObj
     [(''width'', JNum (nGraphWidth b)), (''height'', JNum (nGraphHeight b)), (''renderer'', JStr ''line''),
      (''interpolation'', JStr ''linear''), (''min'', value_min), (''max'', value_max), (''series'', series_val its)]"

definition axis_graph_of :: "graph_box \<Rightarrow> series_item list \<Rightarrow> axis_graph" where
  "axis_graph_of b its =
     \<lparr>ag_width = nGraphWidth b, ag_height = nGraphHeight b, ag_renderer = ''line'',
      ag_first_row = (case its of [] \<Rightarrow> 0 | it # _ \<Rightarrow> length (si_data it))\<rparr>"

definition x_axis_args :: "page_env \<Rightarrow> string \<Rightarrow> graph_box \<Rightarrow> axis_args" where
  "x_axis_args env szName b =
     \<lparr>aa_orientation = Some ''bottom'', aa_pixelsPerTick = None, aa_ticks = None, aa_tickSize = None,
      aa_ticksTreatment = None, aa_element = en_has env (szName @ ''_x_axis''), aa_width = Some (nGraphWidth b), aa_height = None\<rparr>"

definition y_axis_args :: "page_env \<Rightarrow> string \<Rightarrow> axis_args" where
  "y_axis_args env szName =
     \<lparr>aa_orientation = Some ''left'', aa_pixelsPerTick = None, aa_ticks = None, aa_tickSize = None,
      aa_ticksTreatment = None, aa_element = en_has env (szName @ ''_y_axis''), aa_width = None, aa_height = None\<rparr>"

definition series_opts :: "page_env \<Rightarrow> jsnum \<Rightarrow> series_options" where
  "series_opts env time_interval =
     \<lparr>so_timeBase = Some (en_now env / Fin 1000), so_timeInterval = Some time_interval, so_maxDataPoints = Some 100\<rparr>"

text \<open>
  Axes and detail register update callbacks; the first \<open>render\<close> calls the axes (the detail has no event yet), and
  the call at the end hands the detail an event that has no client coordinates.
\<close>

definition fake_event :: hover_event where
  "fake_event = \<lparr>ev_nodeName = ''path'', ev_clientX = NaN, ev_clientY = NaN\<rparr>"

definition assemble_graph ::
  "page_env \<Rightarrow> (jsval \<Rightarrow> jsval \<Rightarrow> bool) \<Rightarrow> graph_box \<Rightarrow> string \<Rightarrow> item_args list \<Rightarrow> jsnum \<Rightarrow> jsval \<Rightarrow> jsval \<Rightarrow>
   page_graph js"
where
  "assemble_graph env cmp b szName series_info time_interval value_min value_max =
     js_bind (new_fixed (en_hsl env) (en_now env) (Some series_info) wheel_palette (series_opts env time_interval)) (\<lambda>s.
     js_bind (new_graph (\<lambda>_ _. Inr) (\<lambda>_. (''line'', line_defaults)) (en_styles env (szName @ ''_chart'')) cmp (page_domain (items s))
       (if en_has env (szName @ ''_chart'') then Some 1 else None) (graph_args b value_min value_max (items s))) (\<lambda>g.
     let ag = axis_graph_of b (items s);
         xs = en_styles env (szName @ ''_x_axis''); ys = en_styles env (szName @ ''_y_axis'');
         xa = new_axis_x ag xs (x_axis_args env szName b); ya = new_axis_y ag ys (y_axis_args env szName)
     in js_bind (page_domain (items s) g) (\<lambda>d.
        Inr \<lparr>pgr_graph = discoverRange d (onUpdate 2 (onUpdate 1 (onUpdate 0 g))), pgr_series = s,
             pgr_xAxis = fst (x_render ag xs xa), pgr_yAxis = fst (y_render ag ys ya),
             pgr_hover = \<lparr>hv_visible = True, hv_inactive = True, hv_lastEvent = None, hv_left = None\<rparr>,
             pgr_legend = \<lparr>lg_text = [], lg_lines = []\<rparr>, pgr_dots = []\<rparr>)))"

definition Rickshaw_CreateGraph ::
  "page_env \<Rightarrow> (jsval \<Rightarrow> jsval \<Rightarrow> bool) \<Rightarrow> graph_box \<Rightarrow> string \<Rightarrow> item_args list \<Rightarrow> jsnum \<Rightarrow> jsval \<Rightarrow> jsval \<Rightarrow>
   page_graph js option"
where
  "Rickshaw_CreateGraph env cmp b szName series_info time_interval value_min value_max =
     (case assemble_graph env cmp b szName series_info time_interval value_min value_max of
        Inl e \<Rightarrow> Some (Inl e)
      | Inr p \<Rightarrow> page_hover env (en_has env (szName @ ''_legend'')) (Some fake_event) p)"

text \<open>\<open>Rickshaw_DestroyGraph\<close> deletes the five fields; the blocks of the page and the update callbacks stay.\<close>

record graph_fields =
  gf_legend :: "legend_block option"
  gf_hoverDetail :: "hover option"
  gf_xAxis :: "axis option"
  gf_yAxis :: "axis option"
  gf_graph :: "graph option"

definition Rickshaw_DestroyGraph :: "graph_fields \<Rightarrow> graph_fields" where
  "Rickshaw_DestroyGraph g = g\<lparr>gf_legend := None, gf_hoverDetail := None, gf_xAxis := None, gf_yAxis := None, gf_graph := None\<rparr>"

section \<open>The rows start at zero\<close>

definition zero_points :: "series_item list \<Rightarrow> bool" where
  "zero_points its = (\<forall>it \<in> set its. \<forall>p \<in> set (si_data it). py p = Some (Fin 0) \<and> py0 p = None)"

lemma new_fixed_zero:
  assumes "new_fixed f now (Some ds) pal opts = Inr s"
    and "\<forall>item \<in> set ds. ia_name item \<noteq> None \<and> ia_data item = None"
  shows "zero_points (items s)"
proof -
  have add: "zero_points (items t') \<and> currentIndex t' = currentIndex t"
    if "for_each (addItem fixed_getIndex f) ds t = Inr t'" "items t = []" "currentIndex t = 0" for t t'
    using addItems_seed [OF assms(2) that(3), of f] that by (auto simp: zero_points_def)
  have step: "zero_points (items (zero_fill_step i t))" if "zero_points (items t)" for i t
    using that by (auto simp: zero_points_def zero_fill_step_def)
  have fold: "zero_points (items (fold zero_fill_step is t))" if "zero_points (items t)" for "is" t
    using that step by (induction "is" arbitrary: t) simp_all
  obtain ti m where o: "so_timeInterval opts = Some ti" "so_maxDataPoints opts = Some m"
    using assms(1) by (auto simp: new_fixed_def split: option.splits)
  define t where "t = setTimeInterval ti
    \<lparr>items = [], sr_palette = pal, timeBase = (case so_timeBase opts of None \<Rightarrow> js_floor (now / Fin 1000) | Some t \<Rightarrow> t),
     timeInterval = Fin 0, sr_legend = None, currentSize = 0, currentIndex = 0, maxDataPoints = m\<rparr>"
  obtain t' where t': "for_each (addItem fixed_getIndex f) ds t = Inr t'"
    and s: "s = zero_fill (t'\<lparr>currentSize := currentSize t' + 1, currentIndex := currentIndex t' + 1,
        timeBase := timeBase t' - Fin (of_int (maxDataPoints t' - (currentSize t' + 1))) * timeInterval t'\<rparr>)"
    using assms(1) unfolding new_fixed_def o Let_def option.case t_def [symmetric]
    by (auto simp: js_bind_Inr_iff)
  have "items t = []" "currentIndex t = 0" by (simp_all add: t_def setTimeInterval_def)
  with add [OF t'] have "zero_points (items t')" by simp
  then show ?thesis unfolding s zero_fill_def by (auto intro!: fold)
qed

section \<open>Configuring without renderer settings\<close>

lemma configure_quiet:
  assumes "\<forall>k \<in> set ks. \<not> has_prop A k"
  shows "\<exists>t. for_each (configure_key D G A) ks this = Inr t"
  using assms by (induction ks arbitrary: this) (auto simp: configure_key_def)

lemma configure_quiet_value:
  assumes "for_each (configure_key D G A) ks this = Inr t" and "is_object this" and "distinct ks"
    and "key \<in> set ks" and "\<forall>k \<in> set ks. \<not> has_prop A k"
  shows "get_prop t key = js_or (get_prop this key) (js_or (get_prop G key) (get_prop D key))"
  using configure_keys_value [OF assms(1-4)] assms(4,5) by (auto simp: configure_key_def)

definition base_pad_object :: jsval where
  "base_pad_object = JObj [(''top'', JNum (Fin (1 / 100))), (''right'', JNum (Fin 0)),
                          (''bottom'', JNum (Fin (1 / 100))), (''left'', JNum (Fin 0))]"

definition line_ready :: "nat \<Rightarrow> graph \<Rightarrow> bool" where
  "line_ready i g = (map_of (g_registry g) ''line'' = Some i \<and> i < length (g_objs g)
     \<and> r_name (g_objs g ! i) = ''line'' \<and> r_defaults (g_objs g ! i) = line_defaults
     \<and> get_prop (r_this (g_objs g ! i)) ''padding'' = base_pad_object)"

lemma load_renderer_step:
  assumes "graph_inv g" and "class_ok (snd c)"
  shows "\<exists>r. load_renderer c g = Inr (registerRenderer r g) \<and> renderer_ok r \<and> r_name r = fst c
    \<and> r_defaults r = snd c \<and> (g_this g = JObj [] \<and> fst c \<noteq> ''bar'' \<and> ''padding'' \<in> set (keys (snd c)) \<longrightarrow>
         get_prop (r_this r) ''padding'' = get_prop (snd c) ''padding'')"
proof -
  have "\<exists>t0. is_object t0 \<and> get_prop t0 ''padding'' = JUndef \<and>
    new_renderer (fst c) (snd c) (g_this g) (JObj []) =
       renderer_configure (g_this g) (JObj []) \<lparr>r_name = fst c, r_defaults = snd c, r_this = t0\<rparr>"
    unfolding new_renderer_def Let_def by (rule exI, intro conjI, rule_tac [3] refl) (simp_all add: get_prop_def [of "JObj _"])
  then obtain t0 where t0: "is_object t0" "get_prop t0 ''padding'' = JUndef"
    "new_renderer (fst c) (snd c) (g_this g) (JObj []) =
       renderer_configure (g_this g) (JObj []) \<lparr>r_name = fst c, r_defaults = snd c, r_this = t0\<rparr>" by blast
  have quiet: "\<forall>k \<in> set (keys (snd c)). \<not> has_prop (JObj []) k" by (simp add: has_prop_def)
  obtain t where t: "for_each (configure_key (snd c) (g_this g) (JObj [])) (keys (snd c)) t0 = Inr t"
    using configure_quiet [OF quiet] by blast
  let ?r = "\<lparr>r_name = fst c, r_defaults = snd c, r_this = t\<rparr>"
  have n: "new_renderer (fst c) (snd c) (g_this g) (JObj []) = Inr ?r"
    using t0(3) t by (simp add: renderer_configure_def)
  have "get_prop t ''padding'' = get_prop (snd c) ''padding''"
    if "g_this g = JObj []" "fst c \<noteq> ''bar''" "''padding'' \<in> set (keys (snd c))"
    using configure_quiet_value [OF t t0(1) _ that(3) quiet] assms(2) t0(2) that
    by (simp add: class_ok_def js_or_def get_prop_def [of "JObj []"])
  with n new_renderer_ok [OF n assms(2)] show ?thesis
    by (intro exI [of _ ?r]) (simp add: load_renderer_def)
qed

lemma registerRenderer_other:
  "line_ready i g \<Longrightarrow> r_name r \<noteq> ''line'' \<Longrightarrow> line_ready i (registerRenderer r g)"
  by (auto simp: line_ready_def registerRenderer_def nth_append map_of_without)

lemma load_rest:
  assumes "graph_inv g" and "line_ready i g" and "\<forall>c \<in> set cs. class_ok (snd c) \<and> fst c \<noteq> ''line''"
  shows "\<exists>g'. for_each load_renderer cs g = Inr g' \<and> graph_inv g' \<and> line_ready i g'
    \<and> g_this g' = g_this g \<and> g_configureCallbacks g' = g_configureCallbacks g"
  using assms
proof (induction cs arbitrary: g)
  case Nil
  then show ?case by simp
next
  case (Cons c cs)
  then obtain r where r: "load_renderer c g = Inr (registerRenderer r g)" "renderer_ok r" "r_name r = fst c"
    using load_renderer_step [of g c] by auto
  let ?g = "registerRenderer r g"
  have "graph_inv ?g" "line_ready i ?g"
    using Cons.prems r registerRenderer_inv registerRenderer_other by auto
  from Cons.IH [OF this] Cons.prems r show ?case by (auto simp: registerRenderer_def)
qed


lemma library_classes_ok: "c \<in> set library_renderers \<Longrightarrow> class_ok (snd c)"
  by (auto simp: library_renderers_def class_ok_def line_defaults_def stack_defaults_def bar_defaults_def
      area_defaults_def scatterplot_defaults_def multi_defaults_def lineplot_defaults_def base_defaults_def
      wide_padding_def extend_obj_def keys_def get_prop_def)

lemma loadRenderers_line:
  assumes "graph_inv g" and "g_this g = JObj []"
  shows "\<exists>i g'. loadRenderers g = Inr g' \<and> graph_inv g' \<and> line_ready i g' \<and> g_this g' = JObj []
    \<and> g_configureCallbacks g' = g_configureCallbacks g"
proof -
  let ?c = "(''line'', line_defaults)"
  obtain cs where cs: "library_renderers = ?c # cs" "\<forall>c \<in> set cs. fst c \<noteq> ''line''"
    by (simp add: library_renderers_def)
  have ok: "class_ok (snd ?c)" using line_class_ok by simp
  obtain r where r: "load_renderer ?c g = Inr (registerRenderer r g)" "renderer_ok r" "r_name r = ''line''"
    "r_defaults r = line_defaults" "get_prop (r_this r) ''padding'' = base_pad_object"
    using load_renderer_step [OF assms(1) ok] assms(2)
    by (auto simp: line_defaults_value keys_def get_prop_def [of "JObj (_ # _)"] base_pad_object_def)
  let ?g = "registerRenderer r g"
  have g: "graph_inv ?g" "line_ready (length (g_objs g)) ?g"
    using registerRenderer_inv [OF assms(1) r(2)] r(3-5) by (auto simp: line_ready_def registerRenderer_def)
  have "\<forall>c \<in> set cs. class_ok (snd c) \<and> fst c \<noteq> ''line''" using library_classes_ok cs by (metis list.set_intros(2))
  from load_rest [OF g this] obtain g' where "for_each load_renderer cs ?g = Inr g'" "graph_inv g'"
    "line_ready (length (g_objs g)) g'" "g_this g' = g_this ?g" "g_configureCallbacks g' = g_configureCallbacks ?g"
    by blast
  moreover have "g_this ?g = JObj []" "g_configureCallbacks ?g = g_configureCallbacks g"
    using assms(2) by (simp_all add: registerRenderer_def)
  ultimately show ?thesis unfolding loadRenderers_def cs(1) for_each.simps r(1) by auto
qed

lemma setSize_store [simp]:
  "g_registry (setSize st a g) = g_registry g" "g_objs (setSize st a g) = g_objs g"
  "g_configureCallbacks (setSize st a g) = g_configureCallbacks g" "g_current (setSize st a g) = g_current g"
  by (simp_all add: setSize_def Let_def split: prod.splits)

lemma graph_args_props [simp]:
  "get_prop (graph_args b lo hi its) ''width'' = JNum (nGraphWidth b)"
  "get_prop (graph_args b lo hi its) ''height'' = JNum (nGraphHeight b)"
  "get_prop (graph_args b lo hi its) ''renderer'' = JStr ''line''"
  "get_prop (graph_args b lo hi its) ''min'' = lo" "get_prop (graph_args b lo hi its) ''max'' = hi"
  "get_prop (graph_args b lo hi its) ''series'' = series_val its"
  "args_unstack (graph_args b lo hi its) = graph_args b lo hi its"
  "has_prop (graph_args b lo hi its) ''min''" "has_prop (graph_args b lo hi its) ''max''"
  "\<forall>k \<in> set (keys line_defaults). \<not> has_prop (graph_args b lo hi its) k"
  "typeof_object (graph_args b lo hi its)" "\<not> nullish (graph_args b lo hi its)"
  by (simp_all add: graph_args_def get_prop_def has_prop_def args_unstack_def line_defaults_value keys_def)

lemma page_configure:
  assumes "graph_inv g" and "line_ready i g" and "g_configureCallbacks g = []"
  shows "\<exists>g'. graph_configure invoke cls style (graph_args b lo hi its) g = Inr g' \<and> g_current g' = Some i
    \<and> get_prop (r_this (g_objs g' ! i)) ''padding'' = base_pad_object"
proof -
  let ?a = "graph_args b lo hi its"
  define g1 where "g1 = (if truthy (get_prop ?a ''width'') \<or> truthy (get_prop ?a ''height'') then setSize style ?a g else g)"
  define g2 where "g2 = g1\<lparr>g_config := config_object ?a g1, g_this := extend_obj (g_this g1) (config_object ?a g1)\<rparr>"
  let ?r = "g_objs g ! i"
  have store: "g_registry g2 = g_registry g" "g_objs g2 = g_objs g" "g_configureCallbacks g2 = []"
    using assms(3) by (simp_all add: g2_def g1_def)
  have line: "r_name ?r = ''line''" "r_defaults ?r = line_defaults" "i < length (g_objs g)"
    "map_of (g_registry g) ''line'' = Some i" "get_prop (r_this ?r) ''padding'' = base_pad_object"
    using assms(2) by (auto simp: line_ready_def)
  have obj: "is_object (r_this ?r)" using assms(1) line(3) by (simp add: graph_inv_def renderer_ok_def list_all_length)
  obtain t where t: "for_each (configure_key line_defaults (g_this g2) ?a) (keys line_defaults) (r_this ?r) = Inr t"
    using configure_quiet [OF graph_args_props(10)] by blast
  have d: "distinct (keys line_defaults)" "''padding'' \<in> set (keys line_defaults)"
    by (simp_all add: line_defaults_value keys_def)
  have pad: "get_prop t ''padding'' = base_pad_object"
    using configure_quiet_value [OF t obj d graph_args_props(10)] line(5) by (simp add: js_or_def base_pad_object_def)
  let ?g3 = "(g2\<lparr>g_current := Some i\<rparr>)\<lparr>g_objs := (g_objs g)[i := ?r\<lparr>r_this := t\<rparr>]\<rparr>"
  have "class_configure (g_this g2) ?a ?r = Inr (?r\<lparr>r_this := t\<rparr>)"
    using line(1,2) t by (simp add: class_configure_def renderer_configure_def)
  then have "setRenderer cls (JStr ''line'') ?a g2 = Inr ?g3"
    using store(2) line(4) by (simp add: setRenderer_def store(1) configure_current_def)
  moreover have "js_or (JStr ''line'') v = JStr ''line''" for v by (simp add: js_or_def)
  ultimately have "graph_configure invoke cls style ?a g = Inr ?g3"
    using store(3) unfolding graph_configure_def Let_def g1_def [symmetric] g2_def [symmetric] graph_args_props(3,7) by simp
  with pad line(3) show ?thesis by auto
qed

section \<open>What the detail shows first\<close>

lemma data_index_NaN: "sc NaN = NaN \<Longrightarrow> xs \<noteq> [] \<Longrightarrow> data_index sc xs NaN = Some 0"
  by (cases xs) (auto simp: data_index_def approximate_index_def js_round_def start_index_def Let_def)

definition first_entry :: "hover_env \<Rightarrow> jsnum \<Rightarrow> jsnum \<Rightarrow> nat \<Rightarrow> hover_series \<Rightarrow> hover_point" where
  "first_entry env ex ey j s =
     (let v = hd (hs_points s); dx = he_x env (px v) - ex; dy = he_y env (point_top v) - ey
      in \<lparr>hp_formattedX = he_formatX env (px v), hp_formattedY = he_formatY env (py v), hp_name = hs_name s,
          hp_color = hs_color s, hp_value = v, hp_distance2 = dx * dx + dy * dy, hp_order = j, hp_active = False\<rparr>)"

definition plain_series :: "hover_series \<Rightarrow> bool" where
  "plain_series s = (hs_points s \<noteq> [] \<and> hs_formatX s = None \<and> hs_formatY s = None \<and> hs_invert s = None)"

lemma hover_entry_first:
  assumes "he_x_invert env ex = NaN" and "\<forall>d r. he_index_scale env d r NaN = NaN" and "plain_series s"
  shows "hover_entry env ex ey j s = Some (Some (first_entry env ex ey j s))"
  using assms by (simp add: hover_entry_def plain_series_def data_index_NaN first_entry_def hd_conv_nth Let_def)

lemma hover_entries_first:
  assumes "he_x_invert env ex = NaN" and "\<forall>d r. he_index_scale env d r NaN = NaN" and "\<forall>s \<in> set ss. plain_series s"
  shows "hover_entries env ex ey j ss = Some (map2 (first_entry env ex ey) [Suc j..<Suc j + length ss] ss)"
  using assms(3)
proof (induction ss arbitrary: j)
  case Nil
  then show ?case by simp
next
  case (Cons s ss)
  have "[Suc j..<Suc j + length (s # ss)] = Suc j # [Suc (Suc j)..<Suc (Suc j) + length ss]"
    by (simp add: upt_rec)
  with Cons hover_entry_first [OF assms(1,2), of s ey "Suc j"] show ?case by simp
qed

lemma legend_fold:
  "lg_lines (pgr_legend (fold (\<lambda>d p. p\<lparr>pgr_legend := (pgr_legend p)\<lparr>lg_lines := lg_lines (pgr_legend p) @ [l d]\<rparr>,
        pgr_dots := pgr_dots p @ [t d], pgr_hover := hover_show (pgr_hover p)\<rparr>) ds p)) =
     lg_lines (pgr_legend p) @ map l ds"
  "pgr_graph (fold (\<lambda>d p. p\<lparr>pgr_legend := (pgr_legend p)\<lparr>lg_lines := lg_lines (pgr_legend p) @ [l d]\<rparr>,
        pgr_dots := pgr_dots p @ [t d], pgr_hover := hover_show (pgr_hover p)\<rparr>) ds p) = pgr_graph p"
  "pgr_series (fold (\<lambda>d p. p\<lparr>pgr_legend := (pgr_legend p)\<lparr>lg_lines := lg_lines (pgr_legend p) @ [l d]\<rparr>,
        pgr_dots := pgr_dots p @ [t d], pgr_hover := hover_show (pgr_hover p)\<rparr>) ds p) = pgr_series p"
  by (induction ds arbitrary: p) simp_all

lemma legend_render_lines:
  "lg_lines (pgr_legend (legend_render env sc ps p)) =
     map (\<lambda>d. (hp_color d, hp_name d @ '': '' @ hp_formattedY d)) (sort_key hp_order ps)"
  "pgr_graph (legend_render env sc ps p) = pgr_graph p" "pgr_series (legend_render env sc ps p) = pgr_series p"
  by (simp_all add: legend_render_def Let_def legend_fold)

lemma map_update_same: "f y = f (xs ! k) \<Longrightarrow> map f (xs[k := y]) = map f xs"
  by (cases "k < length xs") (simp_all add: map_update list_update_same_conv list_update_beyond)

lemma first_entry_fields [simp]:
  "hp_order (first_entry E ex ey j s) = j" "hp_name (first_entry E ex ey j s) = hs_name s"
  "hp_color (first_entry E ex ey j s) = hs_color s"
  "hp_formattedY (first_entry E ex ey j s) = he_formatY E (py (hd (hs_points s)))"
  by (simp_all add: first_entry_def Let_def)

lemma map2_second: "length js = length ss \<Longrightarrow> (\<And>j s. f (g j s) = h s) \<Longrightarrow> map f (map2 g js ss) = map h ss"
  by (induction js ss rule: list_induct2) auto

lemma map2_first: "length js = length ss \<Longrightarrow> (\<And>j s. f (g j s) = j) \<Longrightarrow> map f (map2 g js ss) = js"
  by (induction js ss rule: list_induct2) auto

lemma zero_label: "fixed2 0 = ''0.00''"
proof -
  have "nat_str 0 = ''0''" by code_simp
  then show ?thesis by (simp add: fixed2_def Let_def)
qed

lemma hover_series_plain:
  assumes "\<forall>it \<in> set its. si_data it \<noteq> []"
  shows "\<forall>s \<in> set (hover_series_of its). plain_series s"
  using assms by (auto simp: hover_series_of_def plain_series_def)

lemma first_hover:
  assumes sc: "g_scales (pgr_graph p) = Some sc" and vis: "hv_visible (pgr_hover p)"
    and nan: "\<forall>s. en_invert env s NaN = NaN" "\<forall>d r. en_index_scale env d r NaN = NaN"
    and rows: "zero_points (items (pgr_series p))" "items (pgr_series p) \<noteq> []"
      "\<forall>it \<in> set (items (pgr_series p)). si_data it \<noteq> []"
  shows "\<exists>p'. page_hover env True (Some fake_event) p = Some (Inr p')
    \<and> pgr_graph p' = pgr_graph p \<and> pgr_series p' = pgr_series p
    \<and> lg_lines (pgr_legend p') = map (\<lambda>it. (si_color it, si_name it @ '': 0.00'')) (items (pgr_series p))"
proof -
  let ?its = "items (pgr_series p)" and ?E = "hover_env_of env sc"
  let ?ss = "hover_series_of ?its"
  let ?js = "[Suc 0..<Suc 0 + length ?ss]"
  let ?ex = "NaN - he_left ?E" and ?ey = "NaN - he_top ?E"
  define ps where "ps = map2 (first_entry ?E ?ex ?ey) ?js ?ss"
  define k where "k = nearest_index ps"
  define qs where "qs = ps[k := (ps ! k)\<lparr>hp_active := True\<rparr>]"
  have "he_x_invert ?E ?ex = NaN" "\<forall>d r. he_index_scale ?E d r NaN = NaN"
    using nan by (simp_all add: hover_env_of_def)
  from hover_entries_first [OF this hover_series_plain [OF rows(3)], of ?ey 0]
  have ent: "hover_entries ?E ?ex ?ey 0 ?ss = Some ps" by (simp add: ps_def)
  have len: "length ?js = length ?ss" by (simp only: length_upt)
  have ne: "ps \<noteq> []" using rows(2) by (simp add: ps_def hover_series_of_def Suc_le_eq)
  have "map hp_order ps = ?js" unfolding ps_def by (rule map2_first [OF len]) simp
  then have "map hp_order qs = ?js" by (simp add: qs_def map_update_same)
  then have sorted: "sort_key hp_order qs = qs" by (intro sort_key_id_if_sorted) (simp only: sorted_upt)
  let ?l = "\<lambda>d. (hp_color d, hp_name d @ '': '' @ hp_formattedY d)"
  have "map ?l qs = map ?l ps" unfolding qs_def by (rule map_update_same) simp
  also have "\<dots> = map (\<lambda>s. (hs_color s, hs_name s @ '': '' @ he_formatY ?E (py (hd (hs_points s))))) ?ss"
    unfolding ps_def by (rule map2_second [OF len]) simp
  also have "\<dots> = map (\<lambda>it. (si_color it, si_name it @ '': 0.00'')) ?its"
    using rows(1,3)
    by (auto simp: hover_series_of_def hover_env_of_def format_y_def zero_points_def default_y0_def hd_map zero_label)
  finally have lines: "map ?l qs = map (\<lambda>it. (si_color it, si_name it @ '': 0.00'')) ?its" .
  have "\<exists>h. hover_update ?E ?ss (Some fake_event) (pgr_hover p) = Some (h, Some qs)"
    using ent ne vis by (simp add: hover_update_def fake_event_def node_names_def qs_def k_def Let_def)
  then obtain h where "hover_update ?E ?ss (Some fake_event) (pgr_hover p) = Some (h, Some qs)" by blast
  then have "page_hover env True (Some fake_event) p =
      Some (Inr (legend_render env sc qs (p\<lparr>pgr_hover := h, pgr_dots := []\<rparr>)))"
    using sc by (simp add: page_hover_def)
  then show ?thesis using lines sorted by (simp add: legend_render_lines)
qed

section \<open>The graph of the page\<close>

lemma fold_same: "0 < n \<Longrightarrow> fold track_min (replicate n (Fin a)) PInf = Fin a"
  "0 < n \<Longrightarrow> fold track_max (replicate n (Fin a)) NInf = Fin a"
proof -
  have "fold track_min (replicate n (Fin a)) (Fin a) = Fin a" "fold track_max (replicate n (Fin a)) (Fin a) = Fin a" for n
    by (induction n) (simp_all add: track_min_def track_max_def)
  then show "0 < n \<Longrightarrow> fold track_min (replicate n (Fin a)) PInf = Fin a"
    "0 < n \<Longrightarrow> fold track_max (replicate n (Fin a)) NInf = Fin a"
    by (cases n; simp add: track_min_def track_max_def)+
qed

lemma page_rows_ends:
  assumes "\<forall>it \<in> set its. map px (si_data it) = xs" and "xs \<noteq> []"
  shows "filter (\<lambda>a. a \<noteq> []) (page_rows its) = page_rows its"
    "map (\<lambda>r. px (hd r)) (page_rows its) = replicate (length its) (hd xs)"
    "map (\<lambda>r. px (last r)) (page_rows its) = replicate (length its) (last xs)"
proof -
  have "si_data it \<noteq> [] \<and> px (hd (si_data it)) = hd xs \<and> px (last (si_data it)) = last xs" if "it \<in> set its" for it
    using assms that by (metis hd_map last_map list.map_disc_iff)
  note row = this
  then show "filter (\<lambda>a. a \<noteq> []) (page_rows its) = page_rows its"
    by (auto simp: page_rows_def filter_id_conv)
  show "map (\<lambda>r. px (hd r)) (page_rows its) = replicate (length its) (hd xs)"
    using row by (intro nth_equalityI) (auto simp: page_rows_def hd_map default_y0_def)
  show "map (\<lambda>r. px (last r)) (page_rows its) = replicate (length its) (last xs)"
    using row by (intro nth_equalityI) (auto simp: page_rows_def last_map default_y0_def)
qed

lemma page_domain_value:
  assumes "g_current g = Some i" and "get_prop (r_this (g_objs g ! i)) ''padding'' = base_pad_object"
    and "get_prop (g_this g) ''min'' = JNum (Fin lo)" and "get_prop (g_this g) ''max'' = JNum (Fin hi)"
    and "\<forall>it \<in> set its. map px (si_data it) = xs" and "xs \<noteq> []" and "its \<noteq> []"
    and "hd xs = Fin a" and "last xs = Fin c"
  shows "page_domain its g = Inr \<lparr>dom_x = (Fin a, Fin c),
    dom_y = (Fin (if lo < 0 then lo - (hi - lo) / 100 else lo), Fin hi)\<rparr>"
proof -
  have pad: "pad_of base_pad_object = base_padding"
    by (simp add: pad_of_def base_pad_object_def get_prop_def Let_def)
  have l: "0 < length its" using assms(7) by simp
  have "or_opt (Some (Fin lo)) (Fin 0) = Fin lo" by (cases "lo = 0") simp_all
  then have "renderer_domain base_padding (MinGiven (Some (Fin lo))) (Some (Fin hi)) (page_rows its) =
      \<lparr>dom_x = (Fin a, Fin c), dom_y = (Fin (if lo < 0 then lo - (hi - lo) / 100 else lo), Fin hi)\<rparr>"
    unfolding renderer_domain_def Let_def page_rows_ends [OF assms(5,6)] assms(8,9) fold_same [OF l]
    by (simp del: or_opt.simps)
  then show ?thesis using assms(1-4) pad by (simp add: page_domain_def min_setting_def)
qed

lemma page_graph_built:
  assumes b: "nGraphWidth b = Fin w" "nGraphHeight b = Fin h" "w \<noteq> 0" "h \<noteq> 0"
    and rows: "\<forall>it \<in> set its. map px (si_data it) = xs" "xs \<noteq> []" "its \<noteq> []" "hd xs = Fin a" "last xs = Fin c"
    and valid: "validateSeries cmp (series_val its) = Inr ()"
  shows "\<exists>g d. new_graph (\<lambda>_ _. Inr) (\<lambda>_. (''line'', line_defaults)) style cmp (page_domain its) (Some 1)
        (graph_args b (JNum (Fin lo)) (JNum (Fin hi)) its) = Inr g
    \<and> page_domain its g = Inr d \<and> dom_x d = (Fin a, Fin c)
    \<and> dom_y d = (Fin (if lo < 0 then lo - (hi - lo) / 100 else lo), Fin hi)
    \<and> get_prop (g_this g) ''width'' = JNum (Fin w) \<and> get_prop (g_this g) ''height'' = JNum (Fin h)"
proof -
  let ?a = "graph_args b (JNum (Fin lo)) (JNum (Fin hi)) its" and ?cls = "\<lambda>_. (''line'', line_defaults)"
  define g0 where "g0 = \<lparr>g_this = JObj [], g_config = JObj [], g_objs = [], g_registry = [], g_current = None,
    g_series = get_prop ?a ''series'', g_updateCallbacks = [], g_configureCallbacks = [],
    g_classes = [], g_vis = None, g_scales = None\<rparr>"
  have "graph_inv g0" "g_this g0 = JObj []" by (simp_all add: g0_def graph_inv_def keys_def)
  from loadRenderers_line [OF this] obtain i g1 where g1: "loadRenderers g0 = Inr g1" "graph_inv g1" "line_ready i g1"
    "g_this g1 = JObj []" "g_configureCallbacks g1 = []" by (auto simp: g0_def)
  obtain g2 where g2: "graph_configure (\<lambda>_ _. Inr) ?cls style ?a g1 = Inr g2" "g_current g2 = Some i"
    "get_prop (r_this (g_objs g2 ! i)) ''padding'' = base_pad_object"
    using page_configure [OF g1(2,3,5)] by blast
  have "\<exists>ps. ?a = JObj ps" by (simp add: graph_args_def)
  then obtain ps where ps: "?a = JObj ps" by blast
  have cls: "\<forall>n. class_ok (snd (?cls n))" using line_class_ok by simp
  note conf = graph_configure_ok [OF g2(1) g1(2) cls ps g1(5)]
  have set: "get_prop (g_this g2) ''min'' = JNum (Fin lo)" "get_prop (g_this g2) ''max'' = JNum (Fin hi)"
    using conf by (auto simp: keys_graph_defaults config_value_def)
  have obj: "is_object (g_this g2)" using conf by (auto simp: graph_inv_def)
  let ?size = "JObj [(''width'', get_prop ?a ''width''), (''height'', get_prop ?a ''height'')]"
  define g4 where "g4 = setSize style ?size (g2\<lparr>g_series := series_val its\<rparr>)"
  have g4: "g_this g4 = set_prop ''height'' (JNum (Fin h)) (set_prop ''width'' (JNum (Fin w)) (g_this g2))"
    "g_current g4 = Some i" "g_objs g4 = g_objs g2"
    using b g2(2) by (simp_all add: g4_def setSize_def Let_def get_prop_def [of "JObj [(''width'', _), _]"])
  define g5 where "g5 = g4\<lparr>g_classes := g_classes g4 @ [''rickshaw_graph''],
    g_vis := Some (get_prop (g_this g4) ''width'', get_prop (g_this g4) ''height'')\<rparr>"
  have g5: "g_current g5 = Some i" "get_prop (r_this (g_objs g5 ! i)) ''padding'' = base_pad_object"
    "get_prop (g_this g5) ''min'' = JNum (Fin lo)" "get_prop (g_this g5) ''max'' = JNum (Fin hi)"
    "get_prop (g_this g5) ''width'' = JNum (Fin w)" "get_prop (g_this g5) ''height'' = JNum (Fin h)"
    using g4 g2(3) set obj by (simp_all add: g5_def)
  note dom = page_domain_value [OF g5(1-4) rows]
  let ?d = "\<lparr>dom_x = (Fin a, Fin c), dom_y = (Fin (if lo < 0 then lo - (hi - lo) / 100 else lo), Fin hi)\<rparr>"
  let ?g = "discoverRange ?d g5"
  have keep: "g_this ?g = g_this g5" "g_current ?g = g_current g5" "g_objs ?g = g_objs g5"
    by (simp_all add: discoverRange_def Let_def)
  have "setSeries cmp (get_prop ?a ''series'') g2 = Inr (g2\<lparr>g_series := series_val its\<rparr>)"
    using valid by (simp add: setSeries_def)
  then have "new_graph (\<lambda>_ _. Inr) ?cls style cmp (page_domain its) (Some 1) ?a = Inr ?g"
    unfolding new_graph_def option.case Let_def g0_def [symmetric] g1(1)
    by (simp only: js_bind_simps g2(1) g4_def [symmetric] g5_def [symmetric] dom) simp
  moreover have "page_domain its ?g = Inr ?d" using dom by (simp only: page_domain_def keep)
  ultimately show ?thesis using keep(1) g5(5,6) by (intro exI [of _ ?g] exI [of _ ?d]) simp
qed

section \<open>Properties\<close>

text \<open>
  C2. On a page with the graph's elements, \<open>Rickshaw_CreateGraph\<close> of named rows without data returns. Every row of
  the series holds the 98 instants before the creation, one interval apart, at value zero; the graph spans exactly
  these instants and the requested value range, which a negative minimum extends downwards by one percent; and the
  legend, filled by the call at the end, shows each row's colour and name with the value 0.00.
\<close>

theorem create_graph_ok:
  assumes "en_has env (szName @ ''_chart'')" and "en_has env (szName @ ''_legend'')"
    and "nGraphWidth b = Fin w" and "nGraphHeight b = Fin h" and "w \<noteq> 0" and "h \<noteq> 0"
    and "en_now env = Fin now" and "0 < iv"
    and "series_info \<noteq> []" and "\<forall>item \<in> set series_info. ia_name item \<noteq> None \<and> ia_data item = None"
    and nan: "\<forall>s. en_invert env s NaN = NaN" "\<forall>d r. en_index_scale env d r NaN = NaN"
  shows "\<exists>p sc. Rickshaw_CreateGraph env cmp b szName series_info (Fin iv) (JNum (Fin lo)) (JNum (Fin hi)) = Some (Inr p)
    \<and> map (Some \<circ> si_name) (items (pgr_series p)) = map ia_name series_info
    \<and> (\<forall>it \<in> set (items (pgr_series p)). map px (si_data it) = map (grid_at (now / 1000) (iv / 1000)) [-98..-1])
    \<and> zero_points (items (pgr_series p))
    \<and> g_scales (pgr_graph p) = Some sc
    \<and> sc_domain (gx sc) = (grid_at (now / 1000) (iv / 1000) (-98), grid_at (now / 1000) (iv / 1000) (-1))
    \<and> sc_domain (gy sc) = (Fin (if lo < 0 then lo - (hi - lo) / 100 else lo), Fin hi)
    \<and> sc_range (gx sc) = (JNum (Fin 0), JNum (Fin w)) \<and> sc_range (gy sc) = (JNum (Fin h), JNum (Fin 0))
    \<and> lg_lines (pgr_legend p) = map (\<lambda>it. (si_color it, si_name it @ '': 0.00'')) (items (pgr_series p))"
proof -
  define ks where "ks = [-98..-1 :: int]"
  let ?xs = "map (grid_at (now / 1000) (iv / 1000)) ks" and ?o = "series_opts env (Fin iv)"
  let ?args = "JNum (Fin lo)" and ?max = "JNum (Fin hi)"
  have o: "so_timeInterval ?o = Some (Fin iv)" "iv \<noteq> 0" "so_maxDataPoints ?o = Some 100" "(3::int) \<le> 100"
    "so_timeBase ?o = Some (Fin (now / 1000))" using assms(7,8) by (simp_all add: series_opts_def)
  obtain s where s: "new_fixed (en_hsl env) (en_now env) (Some series_info) wheel_palette ?o = Inr s" "fixed_inv s ?xs"
    "map (Some \<circ> si_name) (items s) = map ia_name series_info"
    using new_fixed_grid [OF o assms(9,10), of "en_hsl env" "en_now env" wheel_palette]
    unfolding ks_def by (auto simp del: upto_rec_numeral)
  have zero: "zero_points (items s)" by (rule new_fixed_zero [OF s(1) assms(10)])
  have grid: "\<forall>it \<in> set (items s). map px (si_data it) = ?xs" "items s \<noteq> []"
    using s(2) by (auto simp: fixed_inv_def aligned_def)
  have up: "ks = - 98 # [- 97..- 1]" "ks = [- 98..- 2] @ [- 1]" "sorted ks" "length ks \<le> 100"
    using upto_rec1 [of "- 98" "- 1"] upto_rec2 [of "- 98" "- 1"]
    by (simp_all add: ks_def del: upto_rec_numeral)
  have ends: "?xs \<noteq> []" "hd ?xs = Fin (now / 1000 + of_int (- 98) * (iv / 1000))"
    by (simp_all only: up(1) list.map list.sel list.distinct grid_at_def) simp
  have "last ?xs = Fin (now / 1000 + of_int (- 1) * (iv / 1000))"
    by (simp only: up(2) map_append list.map last_snoc grid_at_def)
  note ends = ends this
  have last: "last_n 100 ?xs = ?xs" using up(4) by (simp add: last_n_def)
  have valid: "validateSeries cmp (series_val (items s)) = Inr ()"
    using fixed_grid_valid [of s 100 "now / 1000" "iv / 1000" ks] s(2) last up(3) assms(8) by simp
  obtain g d where g: "new_graph (\<lambda>_ _. Inr) (\<lambda>_. (''line'', line_defaults)) (en_styles env (szName @ ''_chart'')) cmp
        (page_domain (items s)) (Some 1) (graph_args b ?args ?max (items s)) = Inr g"
    "page_domain (items s) g = Inr d" "dom_x d = (hd ?xs, last ?xs)"
    "dom_y d = (Fin (if lo < 0 then lo - (hi - lo) / 100 else lo), Fin hi)"
    "get_prop (g_this g) ''width'' = JNum (Fin w)" "get_prop (g_this g) ''height'' = JNum (Fin h)"
    unfolding ends using page_graph_built [OF assms(3-6) grid(1) ends(1) grid(2) ends(2,3) valid] by blast
  obtain p where p: "assemble_graph env cmp b szName series_info (Fin iv) ?args ?max = Inr p"
    "pgr_series p = s" "hv_visible (pgr_hover p)"
    "pgr_graph p = discoverRange d (onUpdate 2 (onUpdate 1 (onUpdate 0 g)))"
    using assms(1) s(1) g(1,2) by (simp add: assemble_graph_def Let_def)
  obtain sc where sc: "g_scales (pgr_graph p) = Some sc" "sc_domain (gx sc) = (hd ?xs, last ?xs)"
    "sc_domain (gy sc) = (Fin (if lo < 0 then lo - (hi - lo) / 100 else lo), Fin hi)"
    "sc_range (gx sc) = (JNum (Fin 0), JNum (Fin w))" "sc_range (gy sc) = (JNum (Fin h), JNum (Fin 0))"
    unfolding p(4) using g(3-6) by (simp add: discoverRange_def onUpdate_def Let_def)
  have ne: "\<forall>it \<in> set (items s). si_data it \<noteq> []" using grid(1) ends(1) by fastforce
  obtain p' where "page_hover env True (Some fake_event) p = Some (Inr p')" "pgr_graph p' = pgr_graph p"
    "pgr_series p' = s" "lg_lines (pgr_legend p') = map (\<lambda>it. (si_color it, si_name it @ '': 0.00'')) (items s)"
    using first_hover [OF sc(1) p(3) nan, unfolded p(2), OF zero grid(2) ne] by blast
  moreover have "hd ?xs = grid_at (now / 1000) (iv / 1000) (- 98)" "last ?xs = grid_at (now / 1000) (iv / 1000) (- 1)"
    using ends by (simp_all add: grid_at_def)
  ultimately show ?thesis unfolding ks_def [symmetric]
    using p(1) assms(2) s(3) grid(1) zero sc
    by (intro exI [of _ p'] exI [of _ sc]) (simp add: Rickshaw_CreateGraph_def)
qed

definition demo_env :: page_env where
  "demo_env = \<lparr>en_hsl = blend_text, en_now = Fin 1000000, en_has = (\<lambda>_. True), en_styles = (\<lambda>_. (Fin 300, Fin 200)),
     en_rect = (Fin 0, Fin 0), en_lin = (\<lambda>_ x. x), en_invert = (\<lambda>_ x. x), en_index_scale = (\<lambda>_ _ x. x),
     en_locale = (\<lambda>_. ''now'')\<rparr>"

definition demo_box :: graph_box where
  "demo_box = \<lparr>nX = Fin 0, nY = Fin 0, nGraphWidth = Fin 300, nGraphHeight = Fin 200\<rparr>"

theorem create_graph_ok_witness:
  "\<exists>p sc. Rickshaw_CreateGraph demo_env (\<lambda>_ _. False) demo_box ''g'' [plain_item ''Delta''] (Fin 2000)
        (JNum (Fin (- 2000))) (JNum (Fin 2000)) = Some (Inr p)
     \<and> g_scales (pgr_graph p) = Some sc \<and> sc_domain (gx sc) = (Fin 804, Fin 998)
     \<and> sc_domain (gy sc) = (Fin (- 2040), Fin 2000)"
proof -
  obtain p sc where "Rickshaw_CreateGraph demo_env (\<lambda>_ _. False) demo_box ''g'' [plain_item ''Delta''] (Fin 2000)
        (JNum (Fin (- 2000))) (JNum (Fin 2000)) = Some (Inr p)" "g_scales (pgr_graph p) = Some sc"
    "sc_domain (gx sc) = (grid_at (1000000 / 1000) (2000 / 1000) (-98), grid_at (1000000 / 1000) (2000 / 1000) (-1))"
    "sc_domain (gy sc) = (Fin (if (- 2000 :: rat) < 0 then - 2000 - (2000 - - 2000) / 100 else - 2000), Fin 2000)"
    using create_graph_ok [of demo_env "''g''" demo_box 300 200 1000000 2000 "[plain_item ''Delta'']"
        "\<lambda>_ _. False" "- 2000" 2000]
    by (auto simp: demo_env_def demo_box_def plain_item_def simp del: upto_rec_numeral)
  then show ?thesis by (simp add: grid_at_def)
qed

end
