(* ===== verification/TimeFixture.thy ===== *)
theory TimeFixture
  imports JsText
begin

text \<open>
  \<open>Rickshaw.Fixtures.Time\<close>: the units of the time axis, their label formats, and \<open>ceil\<close>, the next boundary of a
  unit. Dates follow the definitions of the language standard: a date is a count of milliseconds, or \<open>None\<close> when
  invalid; its calendar fields come from day numbers. The format \<open>%b %e\<close> of d3 is an argument.
\<close>

section \<open>Dates of the language\<close>

definition trunc :: "rat \<Rightarrow> int" where
  "trunc r = (if 0 \<le> r then \<lfloor>r\<rfloor> else \<lceil>r\<rceil>)"

definition max_date :: int where
  "max_date = 8640000000000000"

definition time_clip :: "rat \<Rightarrow> int option" where
  "time_clip t = (if \<bar>t\<bar> \<le> of_int max_date then Some (trunc t) else None)"

fun date_of :: "jsnum \<Rightarrow> int option" where
  "date_of (Fin t) = time_clip t"
| "date_of _ = None"

fun get_time :: "int option \<Rightarrow> jsnum" where
  "get_time (Some v) = Fin (of_int v)"
| "get_time None = NaN"

abbreviation ms_per_day :: int where
  "ms_per_day \<equiv> 86400000"

definition day_from_year :: "int \<Rightarrow> int" where
  "day_from_year y = 365 * (y - 1970) + (y - 1969) div 4 - (y - 1901) div 100 + (y - 1601) div 400"

definition leap :: "int \<Rightarrow> bool" where
  "leap y = (4 dvd y \<and> (\<not> 100 dvd y \<or> 400 dvd y))"

lemma div_next:
  assumes "0 < n"
  shows "(a + 1) div n = a div n + (if n dvd (a + 1) then 1 else (0::int))"
proof -
  define q r where "q = a div n" and "r = a mod n"
  have a: "a = n * q + r" "0 \<le> r" "r < n" using assms by (simp_all add: q_def r_def)
  show ?thesis
  proof (cases "r = n - 1")
    case True
    then have "a + 1 = n * (q + 1)" using a by (simp add: algebra_simps)
    then show ?thesis using assms by (simp add: q_def [symmetric])
  next
    case False
    then have r: "0 \<le> r + 1" "r + 1 < n" using a by linarith+
    have e: "a + 1 = n * q + (r + 1)" using a by simp
    have "(a + 1) div n = q" by (rule int_div_pos_eq [OF e r])
    moreover have "(a + 1) mod n = r + 1" by (rule int_mod_pos_eq [OF e r])
    ultimately show ?thesis using a(2) by (simp add: dvd_eq_mod_eq_0 q_def)
  qed
qed

lemma div_next_year:
  assumes "0 < n" and "n dvd c"
  shows "(y + 1 - (c + 1)) div n = (y - (c + 1)) div n + (if n dvd y then 1 else (0::int))"
proof -
  have "n dvd (y - (c + 1) + 1) \<longleftrightarrow> n dvd y" using dvd_diff_left_iff [OF assms(2), of y] by simp
  moreover have "y + 1 - (c + 1) = y - (c + 1) + 1" by simp
  ultimately show ?thesis using div_next [OF assms(1), of "y - (c + 1)"] by metis
qed

lemma leap_cases: "400 dvd y \<Longrightarrow> 100 dvd y" "100 dvd y \<Longrightarrow> 4 dvd (y::int)"
  using dvd_trans [of 100 400 y] dvd_trans [of 4 100 y] by simp_all

lemma day_from_year_next: "day_from_year (y + 1) = day_from_year y + (if leap y then 366 else 365)"
proof -
  define p q r where "p \<longleftrightarrow> 4 dvd y" and "q \<longleftrightarrow> 100 dvd y" and "r \<longleftrightarrow> 400 dvd y"
  define a b c where "a = (y - (1968 + 1)) div 4" and "b = (y - (1900 + 1)) div 100" and "c = (y - (1600 + 1)) div 400"
  have e: "(y + 1 - (1968 + 1)) div 4 = a + (if p then 1 else 0)"
    "(y + 1 - (1900 + 1)) div 100 = b + (if q then 1 else 0)"
    "(y + 1 - (1600 + 1)) div 400 = c + (if r then 1 else 0)"
    unfolding a_def b_def c_def p_def q_def r_def by (rule div_next_year; simp)+
  have form: "day_from_year z = 365 * (z - 1970) + (z - (1968 + 1)) div 4 - (z - (1900 + 1)) div 100 + (z - (1600 + 1)) div 400" for z
    by (simp add: day_from_year_def)
  have "day_from_year (y + 1) = 365 * (y - 1970) + 365 + (a + (if p then 1 else 0)) - (b + (if q then 1 else 0)) + (c + (if r then 1 else 0))"
    unfolding form e by (simp only: right_diff_distrib distrib_left)
  moreover have "day_from_year y = 365 * (y - 1970) + a - b + c" unfolding form a_def b_def c_def ..
  moreover have "leap y \<longleftrightarrow> p \<and> (\<not> q \<or> r)" "r \<longrightarrow> q" "q \<longrightarrow> p"
    using leap_cases [of y] by (auto simp only: leap_def p_def q_def r_def)
  ultimately show ?thesis by (cases p; cases q; cases r) simp_all
qed

lemma day_from_year_less: "day_from_year y < day_from_year (y + 1)"
  by (simp add: day_from_year_next)

text \<open>The year of a day is the last one that begins no later; the search starts from an estimate below it.\<close>

function year_search :: "int \<Rightarrow> int \<Rightarrow> int" where
  "year_search d y = (if day_from_year (y + 1) \<le> d then year_search d (y + 1) else y)"
  by pat_completeness auto
termination
  by (relation "measure (\<lambda>(d, y). nat (d + 1 - day_from_year y))") (auto simp: day_from_year_next split: if_splits)

declare year_search.simps [simp del]

definition year_of_day :: "int \<Rightarrow> int" where
  "year_of_day d = year_search d (1970 + d * 400 div 146097 - 1)"

definition month_starts :: "bool \<Rightarrow> int list" where
  "month_starts l = (let k = (if l then 1 else 0) in
     [0, 31, 59 + k, 90 + k, 120 + k, 151 + k, 181 + k, 212 + k, 243 + k, 273 + k, 304 + k, 334 + k])"

definition day_in_year :: "int \<Rightarrow> int" where
  "day_in_year d = d - day_from_year (year_of_day d)"

definition month_of_day :: "int \<Rightarrow> int" where
  "month_of_day d = int (length (filter (\<lambda>s. s \<le> day_in_year d) (month_starts (leap (year_of_day d))))) - 1"

definition date_of_day :: "int \<Rightarrow> int" where
  "date_of_day d = day_in_year d - month_starts (leap (year_of_day d)) ! nat (month_of_day d) + 1"

text \<open>The day on which a month begins, and \<open>Date.UTC(year, month)\<close>, which takes the years 0 to 99 as 1900 to 1999.\<close>

definition month_day :: "int \<Rightarrow> int \<Rightarrow> int" where
  "month_day y m = day_from_year y + month_starts (leap y) ! nat m"

definition date_UTC :: "int \<Rightarrow> int \<Rightarrow> int option" where
  "date_UTC y m = (let yr = (if 0 \<le> y \<and> y \<le> 99 then 1900 + y else y)
     in time_clip (of_int (month_day yr m * ms_per_day)))"

definition getUTCFullYear :: "int \<Rightarrow> int" where
  "getUTCFullYear v = year_of_day (v div ms_per_day)"

definition getUTCMonth :: "int \<Rightarrow> int" where
  "getUTCMonth v = month_of_day (v div ms_per_day)"

definition getUTCDate :: "int \<Rightarrow> int" where
  "getUTCDate v = date_of_day (v div ms_per_day)"

definition getUTCHours :: "int \<Rightarrow> int" where
  "getUTCHours v = v div 3600000 mod 24"

definition getUTCMinutes :: "int \<Rightarrow> int" where
  "getUTCMinutes v = v div 60000 mod 60"

definition getUTCSeconds :: "int \<Rightarrow> int" where
  "getUTCSeconds v = v div 1000 mod 60"

definition getUTCMilliseconds :: "int \<Rightarrow> int" where
  "getUTCMilliseconds v = v mod 1000"

section \<open>The units\<close>

text \<open>A formatter gives the text of a label; a failed \<open>match\<close> throws.\<close>

record time_unit =
  tu_name :: string
  tu_seconds :: rat
  tu_formatter :: "int option \<Rightarrow> string js"

definition months :: "string list" where
  "months = [''Jan'', ''Feb'', ''Mar'', ''Apr'', ''May'', ''Jun'', ''Jul'', ''Aug'', ''Sep'', ''Oct'', ''Nov'', ''Dec'']"

definition pad2 :: "int \<Rightarrow> string" where
  "pad2 n = (if n < 10 then ''0'' else []) @ int_str n"

text \<open>The first \<open>digits:digits:\<close> of \<open>toUTCString\<close> is the hour and minute of its time of day.\<close>

fun formatTime :: "int option \<Rightarrow> string js" where
  "formatTime (Some v) = Inr (pad2 (getUTCHours v) @ '':'' @ pad2 (getUTCMinutes v))"
| "formatTime None = Inl TypeError"

definition field :: "(int \<Rightarrow> int) \<Rightarrow> string \<Rightarrow> int option \<Rightarrow> string js" where
  "field f sfx d = Inr ((case d of Some v \<Rightarrow> int_str (f v) | None \<Rightarrow> ''NaN'') @ sfx)"

definition format_decade :: "int option \<Rightarrow> string js" where
  "format_decade = field (\<lambda>v. trunc (of_int (getUTCFullYear v) / 10) * 10) []"

fun format_month :: "int option \<Rightarrow> string js" where
  "format_month (Some v) = Inr (months ! nat (getUTCMonth v))"
| "format_month None = Inr ''undefined''"

definition units :: "(int option \<Rightarrow> string) \<Rightarrow> time_unit list" where
  "units formatDate =
     [\<lparr>tu_name = ''decade'', tu_seconds = 86400 * (36525 / 100) * 10, tu_formatter = format_decade\<rparr>,
      \<lparr>tu_name = ''year'', tu_seconds = 86400 * (36525 / 100), tu_formatter = field getUTCFullYear []\<rparr>,
      \<lparr>tu_name = ''month'', tu_seconds = 86400 * (305 / 10), tu_formatter = format_month\<rparr>,
      \<lparr>tu_name = ''week'', tu_seconds = 86400 * 7, tu_formatter = (\<lambda>d. Inr (formatDate d))\<rparr>,
      \<lparr>tu_name = ''day'', tu_seconds = 86400, tu_formatter = field getUTCDate []\<rparr>,
      \<lparr>tu_name = ''6 hour'', tu_seconds = 3600 * 6, tu_formatter = formatTime\<rparr>,
      \<lparr>tu_name = ''hour'', tu_seconds = 3600, tu_formatter = formatTime\<rparr>,
      \<lparr>tu_name = ''15 minute'', tu_seconds = 60 * 15, tu_formatter = formatTime\<rparr>,
      \<lparr>tu_name = ''minute'', tu_seconds = 60, tu_formatter = field getUTCMinutes ''m''\<rparr>,
      \<lparr>tu_name = ''15 second'', tu_seconds = 15, tu_formatter = field getUTCSeconds ''s''\<rparr>,
      \<lparr>tu_name = ''second'', tu_seconds = 1, tu_formatter = field getUTCSeconds ''s''\<rparr>,
      \<lparr>tu_name = ''decisecond'', tu_seconds = 1 / 10, tu_formatter = field getUTCMilliseconds ''ms''\<rparr>,
      \<lparr>tu_name = ''centisecond'', tu_seconds = 1 / 100, tu_formatter = field getUTCMilliseconds ''ms''\<rparr>]"

definition unit_named :: "string \<Rightarrow> time_unit list \<Rightarrow> time_unit option" where
  "unit_named unitName us = find (\<lambda>u. unitName = tu_name u) us"

section \<open>ceil\<close>

definition ceil_month :: "jsnum \<Rightarrow> jsnum" where
  "ceil_month time =
     (case date_of (time * Fin 1000) of
        None \<Rightarrow> NaN
      | Some v \<Rightarrow>
          let year = getUTCFullYear v; month = getUTCMonth v;
              floor = get_time (date_UTC year month) / Fin 1000
          in if js_eq floor time then time
             else if month = 11 then get_time (date_UTC (year + 1) 0) / Fin 1000
             else get_time (date_UTC year (month + 1)) / Fin 1000)"

definition ceil_year :: "jsnum \<Rightarrow> jsnum" where
  "ceil_year time =
     (case date_of (time * Fin 1000) of
        None \<Rightarrow> NaN
      | Some v \<Rightarrow>
          let floor = get_time (date_UTC (getUTCFullYear v) 0) / Fin 1000
          in if js_eq floor time then time
             else get_time (date_UTC (getUTCFullYear v + 1) 0) / Fin 1000)"

definition time_ceil :: "jsnum \<Rightarrow> time_unit \<Rightarrow> jsnum" where
  "time_ceil time u =
     (if tu_name u = ''month'' then ceil_month time
      else if tu_name u = ''year'' then ceil_year time
      else js_ceil (time / Fin (tu_seconds u)) * Fin (tu_seconds u))"

section \<open>Years and months tile the days\<close>

lemma int_chain:
  fixes f :: "int \<Rightarrow> int"
  assumes "\<And>n. f n + c \<le> f (n + 1)" and "a \<le> b"
  shows "f a + (b - a) * c \<le> f b"
  using assms(2)
proof (induction rule: int_ge_induct)
  case base
  then show ?case by simp
next
  case (step n)
  then show ?case using assms(1) [of n] by (simp add: algebra_simps)
qed

lemma day_from_year_chain: "a \<le> b \<Longrightarrow> day_from_year a + (b - a) * 365 \<le> day_from_year b"
  by (rule int_chain) (simp_all add: day_from_year_next)

lemma year_estimate: "day_from_year (1970 + d * 400 div 146097 - 1) \<le> d"
proof -
  define k where "k = d * 400 div 146097 - 1"
  have k: "(k + 1) * 146097 \<le> d * 400" by (simp add: k_def)
  define a b c where "a = (k + 1) div 4" and "b = (k + 69) div 100" and "c = (k + 369) div 400"
  have q: "4 * a \<le> k + 1" "k + 69 < 100 * b + 100" "400 * c \<le> k + 369"
    by (simp_all add: a_def b_def c_def)
  have "400 * day_from_year (1970 + k) = 146000 * k + 400 * a - 400 * b + 400 * c"
    by (simp add: day_from_year_def a_def b_def c_def algebra_simps)
  also have "\<dots> \<le> 146097 * k + 589" using q by linarith
  also have "\<dots> \<le> d * 400" using k by (simp add: algebra_simps)
  finally have "day_from_year (1970 + k) \<le> d" by linarith
  then show ?thesis by (simp add: k_def algebra_simps)
qed

lemma year_search_spec:
  "day_from_year y \<le> d \<Longrightarrow> day_from_year (year_search d y) \<le> d \<and> d < day_from_year (year_search d y + 1)"
proof (induction d y rule: year_search.induct)
  case (1 d y)
  then show ?case by (subst (1 2) year_search.simps) auto
qed

lemma year_of_day_spec: "day_from_year (year_of_day d) \<le> d" "d < day_from_year (year_of_day d + 1)"
  using year_search_spec [OF year_estimate] by (simp_all add: year_of_day_def)

lemma year_of_day_unique:
  assumes "day_from_year y \<le> d" and "d < day_from_year (y + 1)"
  shows "year_of_day d = y"
proof -
  have "\<not> year_of_day d < y"
    using day_from_year_chain [of "year_of_day d + 1" y] year_of_day_spec [of d] assms by fastforce
  moreover have "\<not> y < year_of_day d"
    using day_from_year_chain [of "y + 1" "year_of_day d"] year_of_day_spec [of d] assms by fastforce
  ultimately show ?thesis by simp
qed

text \<open>Months are numbered through: month \<open>m\<close> of year \<open>y\<close> is number \<open>12 y + m\<close>.\<close>

definition month_number :: "int \<Rightarrow> int" where
  "month_number n = month_day (n div 12) (n mod 12)"

lemma month_of_year [simp]: "0 \<le> m \<Longrightarrow> m < 12 \<Longrightarrow> month_number (12 * y + m) = month_day y m"
  by (simp add: month_number_def)

lemma months_of_year:
  assumes "0 \<le> m" and "m < (12::int)"
  shows "m \<in> {0, 1, 2, 3, 4, 5, 6, 7, 8, 9, 10, 11}"
proof -
  have "m = 0 \<or> m = 1 \<or> m = 2 \<or> m = 3 \<or> m = 4 \<or> m = 5 \<or> m = 6 \<or> m = 7 \<or> m = 8 \<or> m = 9 \<or> m = 10 \<or> m = 11"
    using assms by presburger
  then show ?thesis by simp
qed

lemma month_day_next:
  assumes "0 \<le> m" and "m < 12"
  shows "month_day y m + 28 \<le> month_number (12 * y + m + 1)" "month_number (12 * y + m + 1) \<le> month_day y m + 31"
proof -
  have dec: "month_number (12 + 12 * y) = month_day (y + 1) 0" by (simp add: month_number_def add.commute)
  have nxt: "month_number (12 * y + m + 1) = month_day y (m + 1)" if "m < 11"
    using that assms month_of_year [of "m + 1" y] by (simp add: add.assoc)
  show "month_day y m + 28 \<le> month_number (12 * y + m + 1)"
    using months_of_year [OF assms] nxt dec
    by (auto simp: month_day_def month_starts_def Let_def day_from_year_next eval_nat_numeral)
  show "month_number (12 * y + m + 1) \<le> month_day y m + 31"
    using months_of_year [OF assms] nxt dec
    by (auto simp: month_day_def month_starts_def Let_def day_from_year_next eval_nat_numeral)
qed

lemma filter_le_sorted:
  fixes xs :: "int list"
  assumes "sorted xs" and "xs \<noteq> []" and "hd xs \<le> w" and "n = length (filter (\<lambda>s. s \<le> w) xs)"
  shows "0 < n" "n \<le> length xs" "xs ! (n - 1) \<le> w" "n < length xs \<Longrightarrow> w < xs ! n"
proof -
  have "filter (\<lambda>s. s \<le> w) xs = takeWhile (\<lambda>s. s \<le> w) xs"
    using assms(1)
  proof (induction xs)
    case (Cons a xs)
    then show ?case by (cases "a \<le> w"; cases xs) auto
  qed simp
  then have n: "n = length (takeWhile (\<lambda>s. s \<le> w) xs)" using assms(4) by simp
  show "0 < n" using assms(2,3) n by (cases xs) auto
  show "n \<le> length xs" by (simp add: n length_takeWhile_le)
  show "n < length xs \<Longrightarrow> w < xs ! n" using nth_length_takeWhile [of "\<lambda>s. s \<le> w" xs] by (simp add: n)
  have "takeWhile (\<lambda>s. s \<le> w) xs ! (n - 1) \<in> set (takeWhile (\<lambda>s. s \<le> w) xs)"
    using \<open>0 < n\<close> n by (intro nth_mem) simp
  then have "takeWhile (\<lambda>s. s \<le> w) xs ! (n - 1) \<le> w" by (rule set_takeWhileD [THEN conjunct2])
  then show "xs ! (n - 1) \<le> w" using \<open>0 < n\<close> n by (metis diff_less less_numeral_extra(1) takeWhile_nth)
qed

lemma month_of_day_spec:
  fixes d :: int
  defines "y \<equiv> year_of_day d" and "m \<equiv> month_of_day d"
  shows "0 \<le> m" "m < 12" "month_day y m \<le> d" "d < month_number (12 * y + m + 1)"
proof -
  let ?xs = "month_starts (leap y)" and ?w = "day_in_year d"
  let ?n = "length (filter (\<lambda>s. s \<le> ?w) ?xs)"
  have w: "0 \<le> ?w" "d = day_from_year y + ?w" "d < day_from_year (y + 1)"
    using year_of_day_spec [of d] by (simp_all add: day_in_year_def y_def)
  have xs: "sorted ?xs" "?xs \<noteq> []" "hd ?xs \<le> ?w" "length ?xs = 12"
    using w(1) by (simp_all add: month_starts_def Let_def)
  note f = filter_le_sorted [OF xs(1-3) refl]
  have m: "m = int ?n - 1" by (simp add: m_def month_of_day_def y_def)
  show mb: "0 \<le> m" "m < 12" using f(1,2) xs(4) m by linarith+
  have nat: "nat m = ?n - 1" using m f(1) by simp
  show "month_day y m \<le> d" unfolding month_day_def nat using f(3) w(2) by simp
  show "d < month_number (12 * y + m + 1)"
  proof (cases "m = 11")
    case True
    then have "month_number (12 * y + m + 1) = month_day (y + 1) 0" by (simp add: month_number_def add.commute)
    also have "\<dots> = day_from_year (y + 1)" by (simp add: month_day_def month_starts_def Let_def)
    finally show ?thesis using w(3) by simp
  next
    case False
    then have "month_number (12 * y + m + 1) = month_day y (m + 1)"
      using month_of_year [of "m + 1" y] mb by (simp add: add.assoc)
    moreover have "nat (m + 1) = ?n" using m by simp
    moreover have "?n < length ?xs" using False m mb xs(4) by simp
    ultimately show ?thesis using f(4) w(2) by (simp add: month_day_def)
  qed
qed

lemma month_number_step: "month_number n + 28 \<le> month_number (n + 1)" "month_number (n + 1) \<le> month_number n + 31"
  using month_day_next [of "n mod 12" "n div 12"] by (simp_all add: month_number_def)

lemma month_number_chain: "a \<le> b \<Longrightarrow> month_number a + (b - a) * 28 \<le> month_number b"
  by (rule int_chain) (simp_all add: month_number_step)

section \<open>The next boundary\<close>

definition boundary :: "time_unit \<Rightarrow> rat \<Rightarrow> bool" where
  "boundary u r =
     (if tu_name u = ''month'' then \<exists>n. r = 86400 * of_int (month_number n)
      else if tu_name u = ''year'' then \<exists>y. r = 86400 * of_int (day_from_year y)
      else \<exists>k. r = of_int k * tu_seconds u)"

definition least_boundary :: "(rat \<Rightarrow> bool) \<Rightarrow> rat \<Rightarrow> rat \<Rightarrow> bool" where
  "least_boundary P t r = (P r \<and> t \<le> r \<and> (\<forall>b. P b \<and> t \<le> b \<longrightarrow> r \<le> b))"

text \<open>The dates that \<open>ceil\<close> handles: from 1970 on, a leap year before the end of the range of dates.\<close>

definition datable :: "rat \<Rightarrow> bool" where
  "datable t = (0 \<le> t \<and> t \<le> 8640000000000 - 366 * 86400)"

definition day_of :: "rat \<Rightarrow> int" where
  "day_of t = \<lfloor>t * 1000\<rfloor> div ms_per_day"

lemma day_of_bounds: "86400 * of_int (day_of t) \<le> t" "t < 86400 * of_int (day_of t + 1)"
proof -
  define v where "v = \<lfloor>t * 1000\<rfloor>"
  have v: "of_int v \<le> t * 1000" "t * 1000 < of_int v + 1" unfolding v_def by linarith+
  define r where "r = v mod ms_per_day"
  have "v = day_of t * ms_per_day + r" "0 \<le> r" "r < ms_per_day" by (simp_all add: r_def day_of_def v_def)
  then have "day_of t * ms_per_day \<le> v" "v + 1 \<le> (day_of t + 1) * ms_per_day" by (simp_all add: algebra_simps)
  then have "rat_of_int (day_of t * ms_per_day) \<le> of_int v" "rat_of_int (v + 1) \<le> of_int ((day_of t + 1) * ms_per_day)"
    by (simp_all only: of_int_le_iff)
  then show "86400 * of_int (day_of t) \<le> t" "t < 86400 * of_int (day_of t + 1)" using v by simp_all
qed

lemma datable_date:
  assumes "datable t"
  shows "date_of (Fin t * Fin 1000) = Some \<lfloor>t * 1000\<rfloor>" "0 \<le> day_of t"
proof -
  have "0 \<le> t * 1000" "t * 1000 \<le> 8640000000000000" using assms by (simp_all add: datable_def)
  then show "date_of (Fin t * Fin 1000) = Some \<lfloor>t * 1000\<rfloor>"
    by (simp add: time_clip_def trunc_def max_date_def)
  show "0 \<le> day_of t" using assms by (simp add: day_of_def datable_def pos_imp_zdiv_nonneg_iff)
qed

text \<open>Between two neighbours of an increasing sequence of days the next boundary is the later one.\<close>

lemma least_of_sequence:
  fixes f :: "int \<Rightarrow> int"
  assumes mono: "\<And>a b. a \<le> b \<Longrightarrow> f a \<le> f b" and day: "f n \<le> day_of t" "day_of t < f (n + 1)"
  shows "least_boundary (\<lambda>r. \<exists>n. r = 86400 * of_int (f n)) t
      (if t = 86400 * of_int (f n) then t else 86400 * of_int (f (n + 1)))"
    and "86400 * of_int (f n) \<le> t"
proof -
  note d = day_of_bounds [of t]
  have "rat_of_int (f n) \<le> of_int (day_of t)" using day(1) by simp
  then show lo: "86400 * of_int (f n) \<le> t" using d(1) by linarith
  have "rat_of_int (day_of t + 1) \<le> of_int (f (n + 1))" using day(2) by (simp only: of_int_le_iff)
  then have "86400 * rat_of_int (day_of t + 1) \<le> 86400 * of_int (f (n + 1))" by (rule mult_left_mono) simp
  with d(2) have hi: "t < 86400 * of_int (f (n + 1))" by (rule less_le_trans)
  have "86400 * rat_of_int (f (n + 1)) \<le> 86400 * of_int (f k)" if "t \<le> 86400 * of_int (f k)" "t \<noteq> 86400 * of_int (f n)" for k
  proof -
    have "rat_of_int (f n) < of_int (f k)" using lo that by linarith
    then have "n < k" using mono [of k n] by (meson not_le of_int_le_iff)
    then show ?thesis using mono [of "n + 1" k] by simp
  qed
  then show "least_boundary (\<lambda>r. \<exists>n. r = 86400 * of_int (f n)) t
      (if t = 86400 * of_int (f n) then t else 86400 * of_int (f (n + 1)))"
    using hi by (auto simp: least_boundary_def)
qed

lemma year_from_1970: "datable t \<Longrightarrow> 1970 \<le> year_of_day (day_of t)"
proof (rule ccontr)
  assume t: "datable t" and "\<not> 1970 \<le> year_of_day (day_of t)"
  then have "day_from_year (year_of_day (day_of t) + 1) \<le> day_from_year 1970"
    using day_from_year_chain [of "year_of_day (day_of t) + 1" 1970] by simp
  also have "day_from_year 1970 = 0" by (simp add: day_from_year_def)
  finally show False using year_of_day_spec(2) [of "day_of t"] datable_date(2) [OF t] by linarith
qed

lemma trunc_of_int [simp]: "trunc (of_int k) = k"
  by (simp add: trunc_def)

lemma date_UTC_Some:
  assumes "1970 \<le> y" and "0 \<le> month_day y m" and "of_int (month_day y m) * 86400 \<le> (8640000000000 :: rat)"
  shows "get_time (date_UTC y m) / Fin 1000 = Fin (86400 * of_int (month_day y m))"
proof -
  have "rat_of_int (month_day y m * ms_per_day) \<le> 8640000000000000" "0 \<le> rat_of_int (month_day y m * ms_per_day)"
    using assms(2,3) by simp_all
  then have "time_clip (of_int (month_day y m * ms_per_day)) = Some (month_day y m * ms_per_day)"
    unfolding time_clip_def trunc_of_int max_date_def by simp
  with assms(1) show ?thesis by (simp add: date_UTC_def Let_def)
qed

lemma ceil_month_least:
  assumes t: "datable t"
  shows "\<exists>r. ceil_month (Fin t) = Fin r \<and> least_boundary (\<lambda>r. \<exists>n. r = 86400 * of_int (month_number n)) t r"
proof -
  define y m where "y = year_of_day (day_of t)" and "m = month_of_day (day_of t)"
  note mo = month_of_day_spec [of "day_of t", folded y_def m_def]
  have y: "1970 \<le> y" using year_from_1970 [OF t] by (simp add: y_def)
  have mono: "month_number a \<le> month_number b" if "a \<le> b" for a b using month_number_chain [OF that] that by simp
  have cur: "month_number (12 * y + m) = month_day y m" using mo(1,2) by simp
  note least = least_of_sequence [of month_number "12 * y + m" t, OF mono, unfolded cur, OF _ mo(3,4)]
  have nxt: "month_number (12 * y + m + 1) = (if m = 11 then month_day (y + 1) 0 else month_day y (m + 1))"
    using mo(1,2) month_of_year [of "m + 1" y] month_of_year [of 0 "y + 1"] by (auto simp: add.assoc distrib_left)
  have "0 \<le> month_day 1970 0" by (simp add: month_day_def day_from_year_def month_starts_def Let_def)
  then have pos: "0 \<le> month_day y m" using mono [of "12 * 1970" "12 * y + m"] y mo(1) cur month_of_year [of 0 1970] by simp
  have b: "86400 * of_int (month_day y m) \<le> t" using least(2) by simp
  have "of_int (month_number (12 * y + m + 1)) \<le> rat_of_int (month_day y m) + 31"
    using month_number_step(2) [of "12 * y + m"] cur by (metis of_int_add of_int_le_iff of_int_numeral)
  then have hi: "of_int (month_number (12 * y + m + 1)) * 86400 \<le> (8640000000000 :: rat)"
    using b t unfolding datable_def by linarith
  have up: "0 \<le> month_number (12 * y + m + 1)" using month_number_step(1) [of "12 * y + m"] pos cur by linarith
  have f1: "get_time (date_UTC y m) / Fin 1000 = Fin (86400 * of_int (month_day y m))"
    by (rule date_UTC_Some [OF y pos]) (use b t in \<open>simp add: datable_def\<close>)
  have f2: "get_time (date_UTC (y + 1) 0) / Fin 1000 = Fin (86400 * of_int (month_day (y + 1) 0))" if "m = 11"
    by (rule date_UTC_Some) (use y up hi nxt that in auto)
  have f3: "get_time (date_UTC y (m + 1)) / Fin 1000 = Fin (86400 * of_int (month_day y (m + 1)))" if "m \<noteq> 11"
    by (rule date_UTC_Some) (use y up hi nxt that in auto)
  have "getUTCFullYear \<lfloor>t * 1000\<rfloor> = y" "getUTCMonth \<lfloor>t * 1000\<rfloor> = m"
    by (simp_all add: getUTCFullYear_def getUTCMonth_def y_def m_def day_of_def)
  then have "ceil_month (Fin t) = Fin (if t = 86400 * of_int (month_day y m) then t else 86400 * of_int (month_number (12 * y + m + 1)))"
    using f1 f2 f3 nxt unfolding ceil_month_def datable_date(1) [OF t] by auto
  with least(1) show ?thesis by blast
qed

lemma ceil_year_least:
  assumes t: "datable t"
  shows "\<exists>r. ceil_year (Fin t) = Fin r \<and> least_boundary (\<lambda>r. \<exists>y. r = 86400 * of_int (day_from_year y)) t r"
proof -
  define y where "y = year_of_day (day_of t)"
  note sp = year_of_day_spec [of "day_of t", folded y_def]
  have y: "1970 \<le> y" using year_from_1970 [OF t] by (simp add: y_def)
  have mono: "day_from_year a \<le> day_from_year b" if "a \<le> b" for a b using day_from_year_chain [OF that] that by simp
  note least = least_of_sequence [of day_from_year y t, OF mono sp]
  have jan: "month_day z 0 = day_from_year z" for z by (simp add: month_day_def month_starts_def Let_def)
  have "day_from_year 1970 = 0" by (simp add: day_from_year_def)
  then have pos: "0 \<le> day_from_year y" using mono [OF y] by simp
  have b: "86400 * of_int (day_from_year y) \<le> t" using least(2) by simp
  have "of_int (day_from_year (y + 1)) \<le> rat_of_int (day_from_year y) + 366"
    using day_from_year_next [of y] by simp
  then have hi: "of_int (day_from_year (y + 1)) * 86400 \<le> (8640000000000 :: rat)"
    using b t unfolding datable_def by linarith
  have f1: "get_time (date_UTC y 0) / Fin 1000 = Fin (86400 * of_int (day_from_year y))"
    using date_UTC_Some [of y 0] y pos b t by (simp add: jan datable_def)
  have f2: "get_time (date_UTC (y + 1) 0) / Fin 1000 = Fin (86400 * of_int (day_from_year (y + 1)))"
    using date_UTC_Some [of "y + 1" 0] y pos hi day_from_year_less [of y] by (simp add: jan)
  have "getUTCFullYear \<lfloor>t * 1000\<rfloor> = y" by (simp add: getUTCFullYear_def y_def day_of_def)
  then have "ceil_year (Fin t) = Fin (if t = 86400 * of_int (day_from_year y) then t else 86400 * of_int (day_from_year (y + 1)))"
    using f1 f2 unfolding ceil_year_def datable_date(1) [OF t] by auto
  with least(1) show ?thesis by blast
qed

lemma ceil_multiple_least:
  assumes "0 < s"
  shows "least_boundary (\<lambda>r. \<exists>k. r = of_int k * s) t (of_int \<lceil>t / s\<rceil> * s)"
proof -
  have "t / s \<le> of_int \<lceil>t / s\<rceil>" by simp
  then have "t \<le> of_int \<lceil>t / s\<rceil> * s" using assms by (simp only: pos_divide_le_eq)
  moreover have "of_int \<lceil>t / s\<rceil> * s \<le> of_int k * s" if "t \<le> of_int k * s" for k
  proof -
    have "t / s \<le> of_int k" using that assms by (simp add: divide_le_eq)
    then have "\<lceil>t / s\<rceil> \<le> k" by (simp add: ceiling_le_iff)
    then show ?thesis using assms by simp
  qed
  ultimately show ?thesis by (auto simp: least_boundary_def)
qed

lemma time_ceil_least:
  assumes "datable t" and "0 < tu_seconds u"
  shows "\<exists>r. time_ceil (Fin t) u = Fin r \<and> least_boundary (boundary u) t r"
proof -
  have "time_ceil (Fin t) u = Fin (of_int \<lceil>t / tu_seconds u\<rceil> * tu_seconds u)" if "tu_name u \<noteq> ''month''" "tu_name u \<noteq> ''year''"
    using that assms(2) by (simp add: time_ceil_def js_ceil_def)
  then show ?thesis
    using ceil_month_least [OF assms(1)] ceil_year_least [OF assms(1)] ceil_multiple_least [OF assms(2), of t]
    by (cases "tu_name u = ''month''"; cases "tu_name u = ''year''") (auto simp: time_ceil_def boundary_def [abs_def])
qed

lemma units_positive: "u \<in> set (units fd) \<Longrightarrow> 0 < tu_seconds u"
  by (auto simp: units_def)

section \<open>Properties\<close>

text \<open>
  C8. \<open>ceil\<close> of the time fixture gives, for every unit and every time from 1970 on, the first boundary of the unit
  that is not before the time: the first instant of a month or of a year in the Gregorian calendar, or a multiple
  of the seconds of any other unit.
\<close>

theorem time_ceil_first_boundary:
  assumes "datable t" and "u \<in> set (units formatDate)"
  shows "\<exists>r. time_ceil (Fin t) u = Fin r \<and> boundary u r \<and> t \<le> r \<and> (\<forall>b. boundary u b \<and> t \<le> b \<longrightarrow> r \<le> b)"
  using time_ceil_least [OF assms(1) units_positive [OF assms(2)]] by (simp add: least_boundary_def)

text \<open>Half past five on 29 February 2016 lies before March.\<close>

definition month_unit :: time_unit where
  "month_unit = \<lparr>tu_name = ''month'', tu_seconds = 86400 * (305 / 10), tu_formatter = format_month\<rparr>"

theorem time_ceil_first_boundary_witness:
  "\<exists>r. time_ceil (Fin 1456767000) month_unit = Fin r \<and> boundary month_unit r \<and> r \<le> 1456790400"
proof -
  have "month_number (12 * 2016 + 2) = month_day 2016 2" by (rule month_of_year) simp_all
  also have "\<dots> = 16861" by code_simp
  finally have "1456790400 = 86400 * rat_of_int (month_number (12 * 2016 + 2))" by simp
  then have "boundary month_unit 1456790400" unfolding boundary_def month_unit_def by auto
  moreover have "month_unit \<in> set (units (\<lambda>_. []))" by (simp add: units_def month_unit_def)
  ultimately show ?thesis
    using time_ceil_first_boundary [of 1456767000 month_unit "\<lambda>_. []"] by (auto simp: datable_def)
qed

end
