(* ===== verification/AxisTime.thy ===== *)
theory AxisTime
  imports TimeFixture
begin

text \<open>
  \<open>Rickshaw.Graph.Axis.Time\<close>: the unit that fits the visible range, the ticks, and their labels. The time fixture is
  an argument (the caller may pass another one), and so are the scale and the range of the graph.
\<close>

section \<open>The ticks\<close>

definition appropriateTimeUnit :: "time_unit list \<Rightarrow> jsnum \<times> jsnum \<Rightarrow> time_unit" where
  "appropriateTimeUnit us domain =
     (let rangeSeconds = snd domain - fst domain;
          u = fold (\<lambda>u best. if Fin 2 \<le> js_floor (rangeSeconds / Fin (tu_seconds u))
                             then (case best of None \<Rightarrow> Some u | Some b \<Rightarrow> Some b) else best) us None
      in case u of Some u \<Rightarrow> u | None \<Rightarrow> last us)"

fun tick_loop :: "(jsnum \<Rightarrow> jsnum) \<Rightarrow> rat \<Rightarrow> nat \<Rightarrow> jsnum \<Rightarrow> jsnum list" where
  "tick_loop ceil s 0 runningTick = []"
| "tick_loop ceil s (Suc n) runningTick =
     (let tickValue = ceil runningTick in tickValue # tick_loop ceil s n (tickValue + Fin (s / 2)))"

text \<open>\<open>None\<close>: an infinite range of ticks, for which the loop does not end.\<close>

definition tickOffsets ::
  "(jsnum \<Rightarrow> time_unit \<Rightarrow> jsnum) \<Rightarrow> time_unit list \<Rightarrow> time_unit option \<Rightarrow> jsnum \<times> jsnum \<Rightarrow>
   (jsnum \<times> time_unit) list option"
where
  "tickOffsets ceil us fixedTimeUnit domain =
     (let u = (case fixedTimeUnit of Some u \<Rightarrow> u | None \<Rightarrow> appropriateTimeUnit us domain);
          ticks = (\<lambda>n. map (\<lambda>v. (v, u)) (tick_loop (\<lambda>t. ceil t u) (tu_seconds u) n (fst domain)))
      in case js_ceil ((snd domain - fst domain) / Fin (tu_seconds u)) of
           Fin c \<Rightarrow> Some (ticks (nat \<lfloor>c\<rfloor>))
         | PInf \<Rightarrow> None
         | _ \<Rightarrow> Some [])"

record tick_element =
  te_left :: jsnum
  te_classes :: "string list"
  te_title :: string

text \<open>
  \<open>render\<close> takes the elements of the last rendering out of the graph's element and appends one for each tick up to
  the right end; a formatter may throw, and what is already appended then stays.
\<close>

definition tick_render ::
  "(jsnum \<Rightarrow> jsnum) \<Rightarrow> jsnum \<Rightarrow> string \<Rightarrow> jsnum \<times> time_unit \<Rightarrow> tick_element list \<Rightarrow> tick_element list js"
where
  "tick_render x range1 treatment off es =
     (if range1 < x (fst off) then Inr es
      else js_bind (tu_formatter (snd off) (date_of (fst off * Fin 1000)))
             (\<lambda>title. Inr (es @ [\<lparr>te_left = x (fst off), te_classes = [''x_tick'', treatment], te_title = title\<rparr>])))"

definition time_render ::
  "(jsnum \<Rightarrow> time_unit \<Rightarrow> jsnum) \<Rightarrow> time_unit list \<Rightarrow> time_unit option \<Rightarrow> (jsnum \<Rightarrow> jsnum) \<Rightarrow> jsnum \<times> jsnum \<Rightarrow>
   jsnum \<Rightarrow> string \<Rightarrow> tick_element list js option"
where
  "time_render ceil us fixedTimeUnit x domain range1 treatment =
     map_option (\<lambda>os. for_each (tick_render x range1 treatment) os []) (tickOffsets ceil us fixedTimeUnit domain)"

text \<open>The axis itself: what the arguments leave open is filled in; rendering replaces the elements of the last rendering.\<close>

record time_axis =
  ta_ticksTreatment :: string
  ta_fixedTimeUnit :: "time_unit option"
  ta_ceil :: "jsnum \<Rightarrow> time_unit \<Rightarrow> jsnum"
  ta_units :: "time_unit list"
  ta_elements :: "tick_element list"

definition new_time_axis ::
  "(jsnum \<Rightarrow> time_unit \<Rightarrow> jsnum) \<times> time_unit list \<Rightarrow> string option \<Rightarrow> time_unit option \<Rightarrow> ((jsnum \<Rightarrow> time_unit \<Rightarrow> jsnum) \<times> time_unit list) option \<Rightarrow> time_axis"
where
  "new_time_axis default_time ticksTreatment timeUnit timeFixture =
     (let time = (case timeFixture of Some t \<Rightarrow> t | None \<Rightarrow> default_time)
      in \<lparr>ta_ticksTreatment = or_str ticksTreatment ''plain'', ta_fixedTimeUnit = timeUnit, ta_ceil = fst time, ta_units = snd time,
          ta_elements = []\<rparr>)"

definition time_axis_render :: "(jsnum \<Rightarrow> jsnum) \<Rightarrow> jsnum \<times> jsnum \<Rightarrow> jsnum \<Rightarrow> time_axis \<Rightarrow> time_axis js option" where
  "time_axis_render x domain range1 ta =
     map_option (\<lambda>r. js_bind r (\<lambda>es. Inr (ta\<lparr>ta_elements := es\<rparr>)))
       (time_render (ta_ceil ta) (ta_units ta) (ta_fixedTimeUnit ta) x domain range1 (ta_ticksTreatment ta))"

section \<open>Ticks run through the boundaries\<close>

text \<open>
  What the loop needs of \<open>ceil\<close>: between \<open>lo\<close> and \<open>hi\<close> it gives the first boundary not before a time, and neighbouring
  boundaries are more than half a unit and at most two units apart.
\<close>

locale tick_scale =
  fixes ceil :: "jsnum \<Rightarrow> jsnum" and b :: "int \<Rightarrow> rat" and s :: rat and lo hi :: rat
  assumes near: "b n + s / 2 < b (n + 1)" and far: "b (n + 1) \<le> b n + 2 * s" and pos: "0 < s"
    and ceil_first: "lo \<le> t \<Longrightarrow> t \<le> hi \<Longrightarrow> \<exists>r. ceil (Fin t) = Fin r \<and> least_boundary (\<lambda>r. \<exists>n. r = b n) t r"
begin

lemma increasing: "b n < b (n + 1)"
  using near [of n] pos by (meson dual_order.strict_trans less_add_same_cancel1 half_gt_zero)

lemma mono: "m \<le> n \<Longrightarrow> b m \<le> b n"
proof (induction rule: int_ge_induct)
  case base
  then show ?case by simp
next
  case (step i)
  then show ?case using increasing [of i] by linarith
qed

lemma ceil_between:
  assumes "b (n - 1) < t" and "t \<le> b n" and "lo \<le> t" and "t \<le> hi"
  shows "ceil (Fin t) = Fin (b n)"
proof -
  obtain r k where r: "ceil (Fin t) = Fin r" "r = b k" "t \<le> r" "\<forall>c. (\<exists>n. c = b n) \<and> t \<le> c \<longrightarrow> r \<le> c"
    using ceil_first [OF assms(3,4)] by (auto simp: least_boundary_def)
  have "r \<le> b n" using r(4) assms(2) by blast
  moreover have "\<not> k \<le> n - 1" using mono [of k "n - 1"] r(2,3) assms(1) by linarith
  then have "b n \<le> r" using mono [of n k] r(2) by simp
  ultimately show ?thesis using r(1) by simp
qed

lemma first_boundary:
  assumes "lo \<le> t" and "t \<le> hi"
  shows "\<exists>n. b (n - 1) < t \<and> t \<le> b n"
proof -
  obtain r n where r: "r = b n" "t \<le> r" "\<forall>c. (\<exists>n. c = b n) \<and> t \<le> c \<longrightarrow> r \<le> c"
    using ceil_first [OF assms] by (auto simp: least_boundary_def)
  have "\<not> t \<le> b (n - 1)" using r(1,3) increasing [of "n - 1"] by force
  with r(1,2) show ?thesis by (meson not_le)
qed

lemma ticks_run:
  assumes "b (n - 1) < t" and "t \<le> b n" and "lo \<le> t" and "t + 3 * s * (of_nat c + 1) \<le> hi"
  shows "tick_loop ceil s c (Fin t) = map (\<lambda>i. Fin (b (n + int i))) [0..<c]"
  using assms
proof (induction c arbitrary: n t)
  case 0
  then show ?case by simp
next
  case (Suc c)
  have bn: "b n < t + 2 * s" using far [of "n - 1"] Suc.prems(1) by simp
  have "0 \<le> s * (of_nat c * 3)" using pos by simp
  moreover have "t + (s * 6 + s * (of_nat c * 3)) \<le> hi" using Suc.prems(4) by (simp add: algebra_simps)
  ultimately have "t \<le> hi" using pos by linarith
  then have v: "ceil (Fin t) = Fin (b n)" using ceil_between Suc.prems by blast
  let ?t = "b n + s / 2"
  have "b (n + 1 - 1) < ?t" "?t \<le> b (n + 1)" "lo \<le> ?t" using near [of n] pos Suc.prems by simp_all
  moreover have "?t + 3 * s * (of_nat c + 1) \<le> hi" using bn Suc.prems(4) pos by (simp add: algebra_simps)
  ultimately have "tick_loop ceil s c (Fin ?t) = map (\<lambda>i. Fin (b (n + 1 + int i))) [0..<c]" by (rule Suc.IH)
  moreover have "[0..<Suc c] = 0 # map Suc [0..<c]" by (simp add: upt_conv_Cons map_Suc_upt)
  ultimately show ?case using v by (simp add: algebra_simps)
qed

end

lemma tick_scale_multiples:
  assumes "0 < s" and "\<And>t. ceil (Fin t) = js_ceil (Fin t / Fin s) * Fin s"
  shows "tick_scale ceil (\<lambda>k. of_int k * s) s lo hi"
proof
  fix n t
  show "of_int n * s + s / 2 < of_int (n + 1) * s" "of_int (n + 1) * s \<le> of_int n * s + 2 * s" "0 < s"
    using assms(1) by (simp_all add: algebra_simps)
  show "\<exists>r. ceil (Fin t) = Fin r \<and> least_boundary (\<lambda>r. \<exists>n. r = of_int n * s) t r"
    using ceil_multiple_least [OF assms(1)] assms by (auto simp: js_ceil_def)
qed

abbreviation last_datable :: rat where
  "last_datable \<equiv> 8640000000000 - 366 * 86400"

interpretation month_ticks: tick_scale ceil_month "\<lambda>n. 86400 * of_int (month_number n)" "86400 * (305 / 10)" 0 last_datable
proof
  fix n :: int and t :: rat
  have "rat_of_int (month_number n + 28) \<le> of_int (month_number (n + 1))"
    "rat_of_int (month_number (n + 1)) \<le> of_int (month_number n + 31)"
    using month_number_step [of n] by (simp_all only: of_int_le_iff)
  then show "86400 * rat_of_int (month_number n) + 86400 * (305 / 10) / 2 < 86400 * of_int (month_number (n + 1))"
    "86400 * rat_of_int (month_number (n + 1)) \<le> 86400 * of_int (month_number n) + 2 * (86400 * (305 / 10))"
    by simp_all
  show "0 \<le> t \<Longrightarrow> t \<le> last_datable \<Longrightarrow>
      \<exists>r. ceil_month (Fin t) = Fin r \<and> least_boundary (\<lambda>r. \<exists>n. r = 86400 * rat_of_int (month_number n)) t r"
    by (rule ceil_month_least) (simp add: datable_def)
qed simp

interpretation year_ticks: tick_scale ceil_year "\<lambda>y. 86400 * of_int (day_from_year y)" "86400 * (36525 / 100)" 0 last_datable
proof
  fix n :: int and t :: rat
  have "rat_of_int (day_from_year n + 365) \<le> of_int (day_from_year (n + 1))"
    "rat_of_int (day_from_year (n + 1)) \<le> of_int (day_from_year n + 366)"
    using day_from_year_next [of n] by (simp_all only: of_int_le_iff) simp_all
  then show "86400 * rat_of_int (day_from_year n) + 86400 * (36525 / 100) / 2 < 86400 * of_int (day_from_year (n + 1))"
    "86400 * rat_of_int (day_from_year (n + 1)) \<le> 86400 * of_int (day_from_year n) + 2 * (86400 * (36525 / 100))"
    by simp_all
  show "0 \<le> t \<Longrightarrow> t \<le> last_datable \<Longrightarrow>
      \<exists>r. ceil_year (Fin t) = Fin r \<and> least_boundary (\<lambda>r. \<exists>n. r = 86400 * rat_of_int (day_from_year n)) t r"
    by (rule ceil_year_least) (simp add: datable_def)
qed simp

section \<open>The units of the fixture\<close>

definition unit_boundary :: "time_unit \<Rightarrow> int \<Rightarrow> rat" where
  "unit_boundary u k =
     (if tu_name u = ''month'' then 86400 * of_int (month_number k)
      else if tu_name u = ''year'' then 86400 * of_int (day_from_year k)
      else of_int k * tu_seconds u)"

lemma tick_scale_unit:
  assumes "u \<in> set (units fd)"
  shows "tick_scale (\<lambda>t. time_ceil t u) (unit_boundary u) (tu_seconds u) 0 last_datable"
proof -
  consider "tu_name u = ''month''" | "tu_name u = ''year''" | "tu_name u \<noteq> ''month''" "tu_name u \<noteq> ''year''" by blast
  then show ?thesis
  proof cases
    case 1
    then have "tu_seconds u = 86400 * (305 / 10)" using assms by (auto simp: units_def)
    with 1 month_ticks.tick_scale_axioms show ?thesis by (simp add: unit_boundary_def [abs_def] time_ceil_def)
  next
    case 2
    then have "tu_seconds u = 86400 * (36525 / 100)" using assms by (auto simp: units_def)
    with 2 year_ticks.tick_scale_axioms show ?thesis by (simp add: unit_boundary_def [abs_def] time_ceil_def)
  next
    case 3
    have "tick_scale (\<lambda>t. time_ceil t u) (\<lambda>k. of_int k * tu_seconds u) (tu_seconds u) 0 last_datable"
      by (rule tick_scale_multiples [OF units_positive [OF assms]]) (use 3 in \<open>simp add: time_ceil_def\<close>)
    with 3 show ?thesis by (simp add: unit_boundary_def [abs_def])
  qed
qed

lemma fold_first:
  "fold (\<lambda>u best. if P u then (case best of None \<Rightarrow> Some u | Some b \<Rightarrow> Some b) else best) us best =
     (case best of Some b \<Rightarrow> Some b | None \<Rightarrow> find P us)"
  by (induction us arbitrary: best) (auto split: option.splits)

lemma appropriate_unit:
  assumes "\<forall>u \<in> set us. 0 < tu_seconds u"
  shows "appropriateTimeUnit us (Fin d0, Fin d1) =
    (case find (\<lambda>u. 2 * tu_seconds u \<le> d1 - d0) us of Some u \<Rightarrow> u | None \<Rightarrow> last us)"
proof -
  have "(Fin 2 \<le> js_floor (Fin (d1 - d0) / Fin (tu_seconds u))) = (2 * tu_seconds u \<le> d1 - d0)" if "0 < tu_seconds u" for u
    using that by (simp add: js_floor_def le_divide_eq)
  then have "find (\<lambda>u. Fin 2 \<le> js_floor (Fin (d1 - d0) / Fin (tu_seconds u))) us = find (\<lambda>u. 2 * tu_seconds u \<le> d1 - d0) us"
    using assms by (intro find_cong) blast+
  then show ?thesis by (simp only: appropriateTimeUnit_def fold_first Let_def fst_conv snd_conv jsnum_arith option.case)
qed

lemma ticks_of_unit:
  assumes "0 \<le> d0" and "d0 \<le> d1" and "d1 \<le> 2000000000000" and u: "u \<in> set (units fd)"
  shows "\<exists>n. unit_boundary u (n - 1) < d0 \<and> d0 \<le> unit_boundary u n
    \<and> tick_loop (\<lambda>t. time_ceil t u) (tu_seconds u) (nat \<lceil>(d1 - d0) / tu_seconds u\<rceil>) (Fin d0) =
        map (\<lambda>i. Fin (unit_boundary u (n + int i))) [0..<nat \<lceil>(d1 - d0) / tu_seconds u\<rceil>]"
proof -
  let ?s = "tu_seconds u" and ?c = "nat \<lceil>(d1 - d0) / tu_seconds u\<rceil>"
  have s: "0 < ?s" by (rule units_positive [OF u])
  note scale = tick_scale_unit [OF u]
  have small: "?s \<le> 86400 * 3653" using u by (auto simp: units_def)
  have "of_int \<lceil>(d1 - d0) / ?s\<rceil> \<le> (d1 - d0) / ?s + 1" by (rule of_int_ceiling_le_add_one)
  then have "of_nat ?c \<le> (d1 - d0) / ?s + 1" using assms(2) s by simp
  then have "?s * of_nat ?c \<le> ?s * ((d1 - d0) / ?s + 1)" using s by (intro mult_left_mono) simp_all
  also have "\<dots> = d1 - d0 + ?s" using s by (simp add: distrib_left)
  finally have "d0 + 3 * ?s * (of_nat ?c + 1) \<le> last_datable"
    using small assms(1-3) by (simp add: distrib_left)
  moreover have "d0 \<le> last_datable" using assms(2,3) by simp
  ultimately show ?thesis
    using tick_scale.first_boundary [OF scale assms(1)] tick_scale.ticks_run [OF scale _ _ assms(1)] by blast
qed

lemma tickOffsets_loop:
  assumes "u = (case fixedTimeUnit of Some u \<Rightarrow> u | None \<Rightarrow> appropriateTimeUnit us (Fin d0, Fin d1))" and "0 < tu_seconds u"
  shows "tickOffsets ceil us fixedTimeUnit (Fin d0, Fin d1) =
    Some (map (\<lambda>v. (v, u)) (tick_loop (\<lambda>t. ceil t u) (tu_seconds u) (nat \<lceil>(d1 - d0) / tu_seconds u\<rceil>) (Fin d0)))"
  using assms(2) unfolding tickOffsets_def assms(1) [symmetric] Let_def by (simp add: js_ceil_def)

section \<open>Properties\<close>

text \<open>
  C9. The ticks of the time axis, for a visible range between 1970 and the year 60000 and the units of the time
  fixture: they are consecutive boundaries of the unit, beginning with the first one that is not before the left
  end, as many as units fit into the range, rounded up. Without a fixed unit, the unit is the longest of the table
  that fits at least twice, or else the shortest.
\<close>

theorem ticks_consecutive:
  fixes formatDate
  defines "us \<equiv> units formatDate"
  assumes "0 \<le> d0" and "d0 \<le> d1" and "d1 \<le> 2000000000000" and "\<forall>u. fixedTimeUnit = Some u \<longrightarrow> u \<in> set us"
  shows "\<exists>u n. u \<in> set us
    \<and> u = (case fixedTimeUnit of Some u \<Rightarrow> u
           | None \<Rightarrow> (case find (\<lambda>u. 2 * tu_seconds u \<le> d1 - d0) us of Some u \<Rightarrow> u | None \<Rightarrow> last us))
    \<and> unit_boundary u (n - 1) < d0 \<and> d0 \<le> unit_boundary u n
    \<and> tickOffsets time_ceil us fixedTimeUnit (Fin d0, Fin d1) =
        Some (map (\<lambda>i. (Fin (unit_boundary u (n + int i)), u)) [0..<nat \<lceil>(d1 - d0) / tu_seconds u\<rceil>])"
proof -
  define u where "u = (case fixedTimeUnit of Some u \<Rightarrow> u | None \<Rightarrow> appropriateTimeUnit us (Fin d0, Fin d1))"
  have pos: "\<forall>u \<in> set us. 0 < tu_seconds u" using units_positive by (auto simp: us_def)
  have ne: "us \<noteq> []" by (simp add: us_def units_def)
  have u': "u = (case fixedTimeUnit of Some u \<Rightarrow> u
      | None \<Rightarrow> (case find (\<lambda>u. 2 * tu_seconds u \<le> d1 - d0) us of Some u \<Rightarrow> u | None \<Rightarrow> last us))"
    unfolding u_def appropriate_unit [OF pos] ..
  have "u \<in> set us"
    unfolding u' using assms(5) last_in_set [OF ne] by (auto simp: find_Some_iff split: option.splits)
  note u = this pos [rule_format, OF this]
  obtain n where n: "unit_boundary u (n - 1) < d0" "d0 \<le> unit_boundary u n"
    "tick_loop (\<lambda>t. time_ceil t u) (tu_seconds u) (nat \<lceil>(d1 - d0) / tu_seconds u\<rceil>) (Fin d0) =
       map (\<lambda>i. Fin (unit_boundary u (n + int i))) [0..<nat \<lceil>(d1 - d0) / tu_seconds u\<rceil>]"
    using ticks_of_unit [OF assms(2-4) u(1) [unfolded us_def]] by blast
  have "tickOffsets time_ceil us fixedTimeUnit (Fin d0, Fin d1) =
      Some (map (\<lambda>i. (Fin (unit_boundary u (n + int i)), u)) [0..<nat \<lceil>(d1 - d0) / tu_seconds u\<rceil>])"
    using tickOffsets_loop [OF u_def u(2)] n(3) by (simp add: comp_def)
  with u(1) u' n(1,2) show ?thesis by blast
qed

theorem ticks_consecutive_witness:
  "\<exists>u n. tu_name u = ''6 hour'' \<and> unit_boundary u (n - 1) < 1000 \<and> 1000 \<le> unit_boundary u n
    \<and> tickOffsets time_ceil (units (\<lambda>_. [])) None (Fin 1000, Fin 65800) =
        Some [(Fin (unit_boundary u n), u), (Fin (unit_boundary u (n + 1)), u), (Fin (unit_boundary u (n + 2)), u)]"
proof -
  obtain u n where u: "u = (case find (\<lambda>u. 2 * tu_seconds u \<le> 65800 - 1000) (units (\<lambda>_. [])) of Some u \<Rightarrow> u | None \<Rightarrow> last (units (\<lambda>_. [])))"
    and n: "unit_boundary u (n - 1) < 1000" "1000 \<le> unit_boundary u n"
    and t: "tickOffsets time_ceil (units (\<lambda>_. [])) None (Fin 1000, Fin 65800) =
      Some (map (\<lambda>i. (Fin (unit_boundary u (n + int i)), u)) [0..<nat \<lceil>(65800 - 1000) / tu_seconds u\<rceil>])"
    using ticks_consecutive [of 1000 65800 None "\<lambda>_. []"] by auto
  have us: "tu_name u = ''6 hour''" "tu_seconds u = 21600" unfolding u by (simp_all add: units_def)
  have "[0..<nat \<lceil>(65800 - 1000) / tu_seconds u\<rceil>] = [0, 1, 2]" by (simp add: us(2) upt_rec)
  from t [unfolded this] n us(1) show ?thesis by auto
qed

text \<open>
  Every boundary inside the visible range gets a tick when the unit is neither the month nor the year.
\<close>

theorem ticks_complete:
  assumes "0 \<le> d0" and "d1 \<le> 2000000000000" and "u \<in> set (units formatDate)"
    and "tu_name u \<noteq> ''month''" and "tu_name u \<noteq> ''year''" and "boundary u t" and "d0 \<le> t" and "t < d1"
  shows "\<exists>os. tickOffsets time_ceil (units formatDate) (Some u) (Fin d0, Fin d1) = Some os \<and> (Fin t, u) \<in> set os"
proof -
  let ?s = "tu_seconds u" and ?c = "nat \<lceil>(d1 - d0) / tu_seconds u\<rceil>"
  have s: "0 < ?s" using units_positive [OF assms(3)] .
  obtain k where k: "t = of_int k * ?s" using assms(4-6) by (auto simp: boundary_def)
  obtain n where n: "of_int (n - 1) * ?s < d0" "d0 \<le> of_int n * ?s"
    and ticks: "tick_loop (\<lambda>t. time_ceil t u) ?s ?c (Fin d0) = map (\<lambda>i. Fin (of_int (n + int i) * ?s)) [0..<?c]"
    using ticks_of_unit [OF assms(1) _ assms(2,3)] assms(4,5,7,8) by (auto simp: unit_boundary_def)
  have "of_int (n - 1) * ?s < of_int k * ?s" using n(1) assms(7) k by linarith
  then have nk: "n \<le> k" using s by simp
  have "of_int (k - n) * ?s < d1 - d0" using n(2) assms(8) k by (simp add: left_diff_distrib)
  then have "of_int (k - n) < (d1 - d0) / ?s" using s by (simp add: pos_less_divide_eq)
  then have "k - n < \<lceil>(d1 - d0) / ?s\<rceil>" by (simp only: less_ceiling_iff)
  moreover have "0 < (d1 - d0) / ?s" using assms(7,8) s by simp
  ultimately have i: "nat (k - n) < ?c" "n + int (nat (k - n)) = k" using nk by simp_all
  then have "Fin t \<in> set (map (\<lambda>i. Fin (of_int (n + int i) * ?s)) [0..<?c])"
    using k unfolding set_map by (intro image_eqI [of _ _ "nat (k - n)"]) (simp_all only: set_upt atLeastLessThan_iff, simp)
  then show ?thesis using tickOffsets_loop [of u "units formatDate" d0 d1 "Some u" time_ceil] s ticks by auto
qed

theorem ticks_complete_witness:
  "\<exists>os. tickOffsets time_ceil (units (\<lambda>_. [])) (Some (units (\<lambda>_. []) ! 6)) (Fin 1000, Fin 20000) = Some os
    \<and> (Fin 7200, units (\<lambda>_. []) ! 6) \<in> set os"
  by (rule ticks_complete) (auto simp: units_def boundary_def intro: exI [of _ 2])

text \<open>
  With the month as unit a boundary can be missed, because the months are counted as 30.5 days each: between 1 February and
  3 April 2014 the axis chooses months, and the first of April has no tick.
\<close>

theorem month_tick_missed:
  "\<exists>u. tickOffsets time_ceil (units formatDate) None (Fin 1391212800, Fin 1396483200) =
      Some [(Fin 1391212800, u), (Fin 1393632000, u)]
    \<and> tu_name u = ''month'' \<and> boundary u 1396310400 \<and> 1396310400 < (1396483200 :: rat)"
proof -
  let ?n = "12 * 2014 + 1 :: int"
  have mn: "month_number ?n = 16102" "month_number (?n + 1) = 16130" "month_number (?n - 1) = 16071" "month_number (?n + 2) = 16161"
    by code_simp+
  let ?u = "appropriateTimeUnit (units formatDate) (Fin 1391212800, Fin 1396483200)"
  have u: "?u = month_unit"
    by (subst appropriate_unit) (auto simp: units_def month_unit_def)
  have in_us: "month_unit \<in> set (units formatDate)" by (simp add: units_def month_unit_def)
  have b: "unit_boundary month_unit k = 86400 * of_int (month_number k)" for k
    by (simp add: unit_boundary_def month_unit_def)
  obtain n where n: "unit_boundary month_unit (n - 1) < 1391212800" "1391212800 \<le> unit_boundary month_unit n"
    "tick_loop (\<lambda>t. time_ceil t month_unit) (tu_seconds month_unit) 2 (Fin 1391212800) =
       map (\<lambda>i. Fin (unit_boundary month_unit (n + int i))) [0..<2]"
    using ticks_of_unit [of 1391212800 1396483200, OF _ _ _ in_us] by (auto simp: month_unit_def)
  have mono: "month_number i \<le> month_number j" if "i \<le> j" for i j using month_number_chain [OF that] that by simp
  have "month_number (n - 1) < month_number ?n" "month_number (?n - 1) < month_number n"
    using n(1,2) unfolding b mn by simp_all
  then have "n - 1 < ?n" "?n - 1 < n" using mono [of ?n "n - 1"] mono [of n "?n - 1"] by linarith+
  then have "n = ?n" by simp
  then have loop: "tick_loop (\<lambda>t. time_ceil t month_unit) (tu_seconds month_unit) 2 (Fin 1391212800) = [Fin 1391212800, Fin 1393632000]"
    unfolding n(3) using mn(1,2) by (simp add: b upt_rec numeral_2_eq_2)
  have "nat \<lceil>(1396483200 - 1391212800) / tu_seconds month_unit\<rceil> = 2" by (simp add: month_unit_def)
  moreover have "0 < tu_seconds month_unit" by (simp add: month_unit_def)
  ultimately have "tickOffsets time_ceil (units formatDate) None (Fin 1391212800, Fin 1396483200) =
      Some [(Fin 1391212800, month_unit), (Fin 1393632000, month_unit)]"
    using tickOffsets_loop [of month_unit "units formatDate" 1391212800 1396483200 None time_ceil] u loop by simp
  moreover have "boundary month_unit 1396310400"
    unfolding boundary_def using mn(4) by (auto simp: month_unit_def intro!: exI [of _ "?n + 2"])
  ultimately show ?thesis by (intro exI [of _ month_unit]) (simp add: month_unit_def)
qed

end
