(* ===== verification/TimeLocal.thy ===== *)
theory TimeLocal
  imports AxisTime
begin

text \<open>
  \<open>Rickshaw.Fixtures.Time.Local\<close>: the time fixture in the time zone of the browser. A zone is the pair of
  conversions of the language standard, from time values to local time and back; the setters of a date work on
  local time.
\<close>

section \<open>Local dates\<close>

record zone =
  tz_local :: "int \<Rightarrow> int"
  tz_utc :: "int \<Rightarrow> int"

definition clip_int :: "int \<Rightarrow> int option" where
  "clip_int v = time_clip (of_int v)"

definition make_day :: "int \<Rightarrow> int \<Rightarrow> int \<Rightarrow> int" where
  "make_day y m dt = month_number (12 * y + m) + dt - 1"

definition getFullYear :: "zone \<Rightarrow> int \<Rightarrow> int" where
  "getFullYear z v = year_of_day (tz_local z v div ms_per_day)"

definition getMonth :: "zone \<Rightarrow> int \<Rightarrow> int" where
  "getMonth z v = month_of_day (tz_local z v div ms_per_day)"

definition getDate :: "zone \<Rightarrow> int \<Rightarrow> int" where
  "getDate z v = date_of_day (tz_local z v div ms_per_day)"

definition getTimezoneOffset :: "zone \<Rightarrow> int \<Rightarrow> rat" where
  "getTimezoneOffset z v = of_int (v - tz_local z v) / 60000"

text \<open>\<open>new Date(year, month)\<close>\<close>

definition date_local :: "zone \<Rightarrow> int \<Rightarrow> int \<Rightarrow> int option" where
  "date_local z y m = (let yr = (if 0 \<le> y \<and> y \<le> 99 then 1900 + y else y)
     in clip_int (tz_utc z (month_day yr m * ms_per_day)))"

text \<open>Each setter replaces fields of the local time \<open>t\<close> and converts back.\<close>

definition set_local :: "zone \<Rightarrow> (int \<Rightarrow> int) \<Rightarrow> int \<Rightarrow> int option" where
  "set_local z f v = clip_int (tz_utc z (f (tz_local z v)))"

definition setFullYear :: "zone \<Rightarrow> int \<Rightarrow> int \<Rightarrow> int option" where
  "setFullYear z y = set_local z (\<lambda>t. let d = t div ms_per_day
     in make_day y (month_of_day d) (date_of_day d) * ms_per_day + t mod ms_per_day)"

definition setMonth :: "zone \<Rightarrow> int \<Rightarrow> int \<Rightarrow> int option" where
  "setMonth z m = set_local z (\<lambda>t. let d = t div ms_per_day
     in make_day (year_of_day d) m (date_of_day d) * ms_per_day + t mod ms_per_day)"

definition setDate :: "zone \<Rightarrow> int \<Rightarrow> int \<Rightarrow> int option" where
  "setDate z dt = set_local z (\<lambda>t. let d = t div ms_per_day
     in make_day (year_of_day d) (month_of_day d) dt * ms_per_day + t mod ms_per_day)"

definition clear_below :: "int \<Rightarrow> int \<Rightarrow> int \<Rightarrow> int" where
  "clear_below unit_ms part_ms t = t - t mod unit_ms + t mod part_ms"

definition setMilliseconds0 :: "zone \<Rightarrow> int \<Rightarrow> int option" where
  "setMilliseconds0 z = set_local z (clear_below 1000 1)"

definition setSeconds0 :: "zone \<Rightarrow> int \<Rightarrow> int option" where
  "setSeconds0 z = set_local z (clear_below 60000 1000)"

definition setMinutes0 :: "zone \<Rightarrow> int \<Rightarrow> int option" where
  "setMinutes0 z = set_local z (clear_below 3600000 60000)"

definition setHours0 :: "zone \<Rightarrow> int \<Rightarrow> int option" where
  "setHours0 z = set_local z (clear_below 86400000 3600000)"

section \<open>The units\<close>

fun formatTime_local :: "zone \<Rightarrow> int option \<Rightarrow> string js" where
  "formatTime_local z (Some v) = Inr (pad2 (getUTCHours (tz_local z v)) @ '':'' @ pad2 (getUTCMinutes (tz_local z v)))"
| "formatTime_local z None = Inl TypeError"

fun format_month_local :: "zone \<Rightarrow> int option \<Rightarrow> string js" where
  "format_month_local z (Some v) = Inr (months ! nat (getMonth z v))"
| "format_month_local z None = Inr ''undefined''"

definition units_local :: "zone \<Rightarrow> (int option \<Rightarrow> string) \<Rightarrow> time_unit list" where
  "units_local z formatDate =
     [\<lparr>tu_name = ''decade'', tu_seconds = 86400 * (36525 / 100) * 10,
       tu_formatter = field (\<lambda>v. trunc (of_int (getFullYear z v) / 10) * 10) []\<rparr>,
      \<lparr>tu_name = ''year'', tu_seconds = 86400 * (36525 / 100), tu_formatter = field (getFullYear z) []\<rparr>,
      \<lparr>tu_name = ''month'', tu_seconds = 86400 * (305 / 10), tu_formatter = format_month_local z\<rparr>,
      \<lparr>tu_name = ''week'', tu_seconds = 86400 * 7, tu_formatter = (\<lambda>d. Inr (formatDate d))\<rparr>,
      \<lparr>tu_name = ''day'', tu_seconds = 86400, tu_formatter = field (getDate z) []\<rparr>,
      \<lparr>tu_name = ''6 hour'', tu_seconds = 3600 * 6, tu_formatter = formatTime_local z\<rparr>,
      \<lparr>tu_name = ''hour'', tu_seconds = 3600, tu_formatter = formatTime_local z\<rparr>,
      \<lparr>tu_name = ''15 minute'', tu_seconds = 60 * 15, tu_formatter = formatTime_local z\<rparr>,
      \<lparr>tu_name = ''minute'', tu_seconds = 60, tu_formatter = field (\<lambda>v. getUTCMinutes (tz_local z v)) []\<rparr>,
      \<lparr>tu_name = ''15 second'', tu_seconds = 15, tu_formatter = field (\<lambda>v. getUTCSeconds (tz_local z v)) ''s''\<rparr>,
      \<lparr>tu_name = ''second'', tu_seconds = 1, tu_formatter = field (\<lambda>v. getUTCSeconds (tz_local z v)) ''s''\<rparr>,
      \<lparr>tu_name = ''decisecond'', tu_seconds = 1 / 10, tu_formatter = field (\<lambda>v. getUTCMilliseconds (tz_local z v)) ''ms''\<rparr>,
      \<lparr>tu_name = ''centisecond'', tu_seconds = 1 / 100, tu_formatter = field (\<lambda>v. getUTCMilliseconds (tz_local z v)) ''ms''\<rparr>]"

section \<open>ceil\<close>

text \<open>\<open>new Date(0)\<close>, with its fields set one after the other to those of the date a day, less one second, later.\<close>

definition ceil_day_local :: "zone \<Rightarrow> jsnum \<Rightarrow> rat \<Rightarrow> jsnum" where
  "ceil_day_local z time seconds =
     (case date_of ((time + Fin seconds - Fin 1) * Fin 1000) of
        None \<Rightarrow> NaN
      | Some v \<Rightarrow>
          get_time
            (Option.bind (setFullYear z (getFullYear z v) 0) (\<lambda>v1.
             Option.bind (setMonth z (getMonth z v) v1) (\<lambda>v2.
             Option.bind (setDate z (getDate z v) v2) (\<lambda>v3.
             Option.bind (setMilliseconds0 z v3) (\<lambda>v4.
             Option.bind (setSeconds0 z v4) (\<lambda>v5.
             Option.bind (setMinutes0 z v5) (setHours0 z))))))) / Fin 1000)"

definition ceil_month_local :: "zone \<Rightarrow> jsnum \<Rightarrow> jsnum" where
  "ceil_month_local z time =
     (case date_of (time * Fin 1000) of
        None \<Rightarrow> NaN
      | Some v \<Rightarrow>
          let year = getFullYear z v; month = getMonth z v;
              floor = get_time (date_local z year month) / Fin 1000
          in if js_eq floor time then time
             else if month = 11 then get_time (date_local z (year + 1) 0) / Fin 1000
             else get_time (date_local z year (month + 1)) / Fin 1000)"

text \<open>The year before the time is taken in universal time, the year after it in local time.\<close>

definition ceil_year_local :: "zone \<Rightarrow> jsnum \<Rightarrow> jsnum" where
  "ceil_year_local z time =
     (case date_of (time * Fin 1000) of
        None \<Rightarrow> NaN
      | Some v \<Rightarrow>
          let floor = get_time (date_local z (getUTCFullYear v) 0) / Fin 1000
          in if js_eq floor time then time
             else get_time (date_local z (getFullYear z v + 1) 0) / Fin 1000)"

definition time_ceil_local :: "zone \<Rightarrow> jsnum \<Rightarrow> time_unit \<Rightarrow> jsnum" where
  "time_ceil_local z time u =
     (if tu_name u = ''day'' then ceil_day_local z time (tu_seconds u)
      else if tu_name u = ''month'' then ceil_month_local z time
      else if tu_name u = ''year'' then ceil_year_local z time
      else
        let offset = (case date_of (time * Fin 1000) of None \<Rightarrow> NaN | Some v \<Rightarrow> Fin (getTimezoneOffset z v * 60))
        in js_ceil ((time - offset) / Fin (tu_seconds u)) * Fin (tu_seconds u) + offset)"

section \<open>Zones with a fixed offset\<close>

definition fixed_zone :: "int \<Rightarrow> zone" where
  "fixed_zone o_ms = \<lparr>tz_local = (\<lambda>v. v + o_ms), tz_utc = (\<lambda>t. t - o_ms)\<rparr>"

lemma fixed_zone_simps [simp]: "tz_local (fixed_zone k) v = v + k" "tz_utc (fixed_zone k) t = t - k"
  by (simp_all add: fixed_zone_def)

lemma calendar_unique:
  assumes "0 \<le> m" and "m < 12" and "month_day y m \<le> d" and "d < month_number (12 * y + m + 1)"
  shows "year_of_day d = y" "month_of_day d = m" "date_of_day d = d - month_day y m + 1"
proof -
  have chain: "month_number a \<le> month_number b" if "a \<le> b" for a b using month_number_chain [OF that] that by simp
  have jan: "month_number (12 * k) = day_from_year k" for k
    by (simp add: month_number_def month_day_def month_starts_def Let_def)
  have "day_from_year y \<le> d" using chain [of "12 * y" "12 * y + m"] jan assms by simp
  moreover have "d < day_from_year (y + 1)" using chain [of "12 * y + m + 1" "12 * (y + 1)", unfolded jan] assms by simp
  ultimately show y: "year_of_day d = y" by (rule year_of_day_unique)
  note sp = month_of_day_spec [of d, unfolded y]
  let ?m = "month_of_day d"
  have e: "month_number (12 * y + m) = month_day y m" "month_number (12 * y + ?m) = month_day y ?m"
    using assms(1,2) sp(1,2) by simp_all
  have "\<not> m + 1 \<le> ?m" using chain [of "12 * y + m + 1" "12 * y + ?m"] e(2) assms(4) sp(3) by linarith
  moreover have "\<not> ?m + 1 \<le> m" using chain [of "12 * y + ?m + 1" "12 * y + m"] e(1) assms(3) sp(4) by linarith
  ultimately show m: "?m = m" by linarith
  show "date_of_day d = d - month_day y m + 1"
    unfolding date_of_day_def day_in_year_def y m by (simp add: month_day_def)
qed

text \<open>Clearing the fields from the milliseconds upwards leaves the beginning of the day.\<close>

lemma clear_step:
  assumes "0 < k" and "0 < l"
  shows "clear_below (k * l) k (k * (t div k)) = k * l * (t div (k * l))"
proof -
  define q where "q = t div k"
  have "k * q mod (k * l) = k * (q mod l)" by (rule mod_mult_mult1)
  moreover have "q - q mod l = l * (q div l)" by (rule minus_mod_eq_mult_div)
  moreover have "t div (k * l) = q div l" unfolding q_def using assms(1,2) by (simp only: zdiv_zmult2_eq less_imp_le)
  moreover have "k * q mod k = 0" by simp
  ultimately show ?thesis unfolding q_def [symmetric] clear_below_def by (simp add: right_diff_distrib [symmetric])
qed

text \<open>Dates well inside the range of dates are valid.\<close>

lemma clip_day:
  assumes "\<bar>d\<bar> < 99999999" and "\<bar>r\<bar> < 2 * ms_per_day"
  shows "clip_int (d * ms_per_day + r) = Some (d * ms_per_day + r)"
proof -
  have "\<bar>d * ms_per_day + r\<bar> \<le> max_date" using assms by (simp add: max_date_def)
  then have "\<bar>rat_of_int (d * ms_per_day + r)\<bar> \<le> of_int max_date" by (simp only: of_int_abs [symmetric] of_int_le_iff)
  then show ?thesis by (simp only: clip_int_def time_clip_def trunc_of_int if_True)
qed

lemma set_local_fixed:
  assumes "\<bar>f (v + k) div ms_per_day\<bar> < 99999999" and "\<bar>k\<bar> < ms_per_day"
  shows "set_local (fixed_zone k) f v = Some (f (v + k) - k)"
proof -
  define d r where "d = f (v + k) div ms_per_day" and "r = f (v + k) mod ms_per_day"
  have f: "f (v + k) = d * ms_per_day + r" "0 \<le> r" "r < ms_per_day" by (simp_all add: d_def r_def)
  have "clip_int (d * ms_per_day + (r - k)) = Some (d * ms_per_day + (r - k))"
    by (rule clip_day) (use assms f(2,3) d_def in linarith)+
  with f(1) show ?thesis by (simp add: set_local_def add_diff_eq)
qed

lemma same_day:
  assumes "0 < c" and "0 < l" and "c * l = ms_per_day"
  shows "c * (t div c) div ms_per_day = t div ms_per_day"
proof -
  have "c * (t div c) div (c * l) = t div c div l" using assms(1) by simp
  also have "\<dots> = t div (c * l)" using assms(1,2) by (simp only: zdiv_zmult2_eq less_imp_le)
  finally show ?thesis by (simp only: assms(3))
qed

lemma clear_fields:
  assumes "\<bar>t div ms_per_day\<bar> < 99999999" and "\<bar>k\<bar> < ms_per_day"
  shows "Option.bind (setMilliseconds0 (fixed_zone k) (t - k)) (\<lambda>v4. Option.bind (setSeconds0 (fixed_zone k) v4) (\<lambda>v5.
      Option.bind (setMinutes0 (fixed_zone k) v5) (setHours0 (fixed_zone k)))) = Some (ms_per_day * (t div ms_per_day) - k)"
proof -
  have c: "clear_below 1000 1 t = 1000 * (t div 1000)" "clear_below 60000 1000 (1000 * (t div 1000)) = 60000 * (t div 60000)"
    "clear_below 3600000 60000 (60000 * (t div 60000)) = 3600000 * (t div 3600000)"
    "clear_below 86400000 3600000 (3600000 * (t div 3600000)) = 86400000 * (t div 86400000)"
    using clear_step [of 1 1000 t] clear_step [of 1000 60 t] clear_step [of 60000 60 t] clear_step [of 3600000 24 t] by simp_all
  have d: "1000 * (t div 1000) div ms_per_day = t div ms_per_day" "60000 * (t div 60000) div ms_per_day = t div ms_per_day"
    "3600000 * (t div 3600000) div ms_per_day = t div ms_per_day"
    using same_day [of 1000 86400 t] same_day [of 60000 1440 t] same_day [of 3600000 24 t] by simp_all
  have set: "set_local (fixed_zone k) f (s - k) = Some (f s - k)" if "\<bar>f s div ms_per_day\<bar> < 99999999" for f s
    using set_local_fixed [of f "s - k" k] that assms(2) by simp
  show ?thesis
    unfolding setMilliseconds0_def setSeconds0_def setMinutes0_def setHours0_def
    using assms(1) by (simp add: set c d)
qed

lemma start_fields:
  assumes "\<bar>k\<bar> < ms_per_day"
  shows "month_of_day (k div ms_per_day) = (if k < 0 then 11 else 0)" "date_of_day (k div ms_per_day) = (if k < 0 then 31 else 1)"
proof -
  have "k div ms_per_day = (if k < 0 then - 1 else 0)" using assms by (auto simp: div_pos_neg_trivial div_eq_minus1)
  moreover have "month_of_day 0 = 0" "date_of_day 0 = 1" "month_of_day (- 1) = 11" "date_of_day (- 1) = 31" by code_simp+
  ultimately show "month_of_day (k div ms_per_day) = (if k < 0 then 11 else 0)"
    "date_of_day (k div ms_per_day) = (if k < 0 then 31 else 1)" by simp_all
qed

lemma day_part [simp]: "(q * ms_per_day + k mod ms_per_day) div ms_per_day = q"
  "(q * ms_per_day + k mod ms_per_day) mod ms_per_day = k mod ms_per_day"
  by simp_all

definition slips :: "int \<Rightarrow> int \<Rightarrow> int \<Rightarrow> bool" where
  "slips k y m = (k < 0 \<and> month_number (12 * y + m + 1) < month_number (12 * y + m) + 31)"

lemma december: "month_number (12 * y + 12) = month_number (12 * y + 11) + 31" "month_number (12 * y + 11) = month_day y 11"
  "month_number (12 * y) = month_day y 0" "month_number (12 * y) + 334 \<le> month_number (12 * y + 11)"
  "month_number (12 + 12 * y) = month_day y 11 + 31"
proof -
  have "month_number (12 * y + 12) = month_day (y + 1) 0" "month_number (12 + 12 * y) = month_day (y + 1) 0"
    by (simp_all add: month_number_def add.commute)
  then show "month_number (12 * y + 12) = month_number (12 * y + 11) + 31" "month_number (12 * y + 11) = month_day y 11"
    "month_number (12 * y) = month_day y 0" "month_number (12 * y) + 334 \<le> month_number (12 * y + 11)"
    "month_number (12 + 12 * y) = month_day y 11 + 31"
    by (simp_all add: month_number_def month_day_def month_starts_def Let_def day_from_year_next eval_nat_numeral)
qed

text \<open>The day of \<open>new Date(0)\<close> with its year and then its month set, in a zone with offset \<open>k\<close>.\<close>

lemma year_set_day:
  fixes y k :: int
  defines "e \<equiv> make_day y (if k < 0 then 11 else 0) (if k < 0 then 31 else 1)"
  shows "year_of_day e = y" "date_of_day e = (if k < 0 then 31 else 1)"
  using calendar_unique [of 11 y "month_day y 11 + 30"] calendar_unique [of 0 y "month_day y 0"] december [of y]
    month_number_step(1) [of "12 * y"]
  by (auto simp: e_def make_day_def add.commute [of 30])

lemma month_set_day:
  fixes y m k :: int
  defines "e \<equiv> make_day y m (if k < 0 then 31 else 1)"
  assumes m: "0 \<le> m" "m < 12"
  shows "12 * year_of_day e + month_of_day e = 12 * y + m + (if slips k y m then 1 else 0)"
proof (cases "slips k y m")
  case False
  have cur: "month_number (12 * y + m) = month_day y m" using m by simp
  have "month_day y m \<le> e" "e < month_number (12 * y + m + 1)"
    using False month_number_step [of "12 * y + m"] by (auto simp: e_def make_day_def slips_def cur)
  from calendar_unique [OF m this] False show ?thesis by simp
next
  case True
  then have "m \<noteq> 11" using december(5) [of y] by (auto simp: slips_def)
  then have m1: "0 \<le> m + 1" "m + 1 < 12" using m by auto
  have nxt: "month_number (12 * y + m + 1) = month_day y (m + 1)" using month_of_year [OF m1, of y] by (simp add: add.assoc)
  have e: "e = month_number (12 * y + m) + 30" using True by (simp add: e_def make_day_def slips_def)
  have "month_day y (m + 1) \<le> e" using True e nxt by (simp add: slips_def)
  moreover have "e < month_number (12 * y + (m + 1) + 1)"
    using e month_number_step(1) [of "12 * y + m"] month_number_step(1) [of "12 * y + m + 1"] by (simp add: add.assoc)
  ultimately show ?thesis using calendar_unique(1,2) [OF m1] True by simp
qed

lemma month_number_bound:
  assumes "12 * y \<le> j" and "j \<le> 12 * y + 12" and "0 \<le> day_from_year y" and "day_from_year y < 99990000"
  shows "0 \<le> month_number j" "month_number j \<le> 99990366"
proof -
  have mono: "month_number a \<le> month_number b" if "a \<le> b" for a b using month_number_chain [OF that] that by simp
  have "month_number (12 * y) = day_from_year y" "month_number (12 * y + 12) = day_from_year (y + 1)"
    by (simp_all add: month_number_def month_day_def month_starts_def Let_def add.commute)
  then show "0 \<le> month_number j" "month_number j \<le> 99990366"
    using mono [OF assms(1)] mono [OF assms(2)] assms(3,4) day_from_year_next [of y] by (auto split: if_splits)
qed

lemma fields_set:
  assumes k: "\<bar>k\<bar> < ms_per_day" and m: "0 \<le> m" "m < 12" and dt: "1 \<le> dt" "dt \<le> 31"
    and y: "0 \<le> day_from_year y" "day_from_year y < 99990000"
  shows "Option.bind (setFullYear (fixed_zone k) y 0) (\<lambda>v1. Option.bind (setMonth (fixed_zone k) m v1) (setDate (fixed_zone k) dt)) =
    Some ((month_number (12 * y + m + (if slips k y m then 1 else 0)) + dt - 1) * ms_per_day + k mod ms_per_day - k)"
proof -
  note b = month_number_bound [OF _ _ y]
  have set: "set_local (fixed_zone k) f (t - k) = Some (f t - k)" if "\<bar>f t div ms_per_day\<bar> < 99999999" for f t
    using set_local_fixed [of f "t - k" k] that k by simp
  let ?d1 = "make_day y (if k < 0 then 11 else 0) (if k < 0 then 31 else 1)"
  let ?d2 = "make_day y m (if k < 0 then 31 else 1)"
  have "0 \<le> ?d1" "?d1 < 99999999" using b [of "12 * y"] b [of "12 * y + 11"] december(3) [of y] by (auto simp: make_day_def)
  then have v1: "setFullYear (fixed_zone k) y 0 = Some (?d1 * ms_per_day + k mod ms_per_day - k)"
    using set [of _ k] start_fields [OF k] by (simp add: setFullYear_def Let_def)
  have "0 \<le> ?d2" "?d2 < 99999999" using b [of "12 * y + m"] m by (auto simp: make_day_def)
  then have v2: "setMonth (fixed_zone k) m (?d1 * ms_per_day + k mod ms_per_day - k) =
      Some (?d2 * ms_per_day + k mod ms_per_day - k)"
    unfolding setMonth_def by (subst set) (simp_all add: Let_def year_set_day)
  let ?d3 = "make_day (year_of_day ?d2) (month_of_day ?d2) dt"
  have d3: "?d3 = month_number (12 * y + m + (if slips k y m then 1 else 0)) + dt - 1"
    unfolding make_day_def [of "year_of_day ?d2"] month_set_day [OF m] ..
  have "0 \<le> ?d3" "?d3 < 99999999" unfolding d3 using b [of "12 * y + m"] b [of "12 * y + m + 1"] m dt by auto
  then have "setDate (fixed_zone k) dt (?d2 * ms_per_day + k mod ms_per_day - k) = Some (?d3 * ms_per_day + k mod ms_per_day - k)"
    unfolding setDate_def by (subst set) (simp_all add: Let_def)
  with v1 v2 d3 show ?thesis by simp
qed

lemma date_of_int:
  assumes "\<bar>v\<bar> \<le> max_date"
  shows "date_of (Fin (of_int v)) = Some v"
proof -
  have "\<bar>rat_of_int v\<bar> \<le> of_int max_date" using assms by (simp only: of_int_abs [symmetric] of_int_le_iff)
  then show ?thesis by (simp only: date_of.simps time_clip_def trunc_of_int if_True)
qed

lemma ceil_day_fixed:
  assumes k: "\<bar>k\<bar> < ms_per_day" and n: "0 \<le> n" "n \<le> 8000000000000"
    and d: "d = ((n + 86399) * 1000 + k) div ms_per_day" "0 \<le> d"
  shows "ceil_day_local (fixed_zone k) (Fin (of_int n)) 86400 =
    Fin (of_int ((d + (if slips k (year_of_day d) (month_of_day d) then month_number (12 * year_of_day d + month_of_day d + 1)
                         - month_number (12 * year_of_day d + month_of_day d) else 0)) * ms_per_day - k) / 1000)"
proof -
  define v where "v = (n + 86399) * 1000"
  define y m dt where "y = year_of_day d" and "m = month_of_day d" and "dt = date_of_day d"
  note mo = month_of_day_spec [of d, folded y_def m_def]
  have cur: "month_number (12 * y + m) = month_day y m" using mo(1,2) by simp
  have dt: "dt = d - month_day y m + 1"
    using calendar_unique(3) [OF mo] by (simp add: dt_def)
  have dtb: "1 \<le> dt" "dt \<le> 31" using dt mo(3,4) month_number_step(2) [of "12 * y + m"] cur by linarith+
  have "d * ms_per_day \<le> v + k" using d(1) by (simp add: v_def)
  then have dhi: "d < 99990000" using n(2) k by (simp add: v_def)
  have "day_from_year 1970 = 0" by (simp add: day_from_year_def)
  moreover have "\<not> y + 1 \<le> 1970"
    using day_from_year_chain [of "y + 1" 1970] year_of_day_spec(2) [of d, folded y_def] d(2) calculation by fastforce
  ultimately have "0 \<le> day_from_year y" using day_from_year_chain [of 1970 y] by simp
  moreover have "day_from_year y < 99990000" using year_of_day_spec(1) [of d, folded y_def] dhi by simp
  ultimately have yb: "0 \<le> day_from_year y" "day_from_year y < 99990000" .
  let ?e = "month_number (12 * y + m + (if slips k y m then 1 else 0)) + dt - 1"
  have e: "?e = d + (if slips k y m then month_number (12 * y + m + 1) - month_number (12 * y + m) else 0)"
    using dt cur by simp
  have "0 \<le> ?e" "?e < 99999999" using e d(2) dhi month_number_step [of "12 * y + m"] by auto
  moreover have "(?e * ms_per_day + k mod ms_per_day) div ms_per_day = ?e" by simp
  ultimately have "\<bar>(?e * ms_per_day + k mod ms_per_day) div ms_per_day\<bar> < 99999999" by simp
  note clear = clear_fields [OF this k, unfolded day_part]
  have "(Fin (of_int n) + Fin 86400 - Fin 1) * Fin 1000 = Fin (of_int v)" by (simp add: v_def algebra_simps)
  moreover have "\<bar>v\<bar> \<le> max_date" using n by (simp add: v_def max_date_def)
  ultimately have date: "date_of ((Fin (of_int n) + Fin 86400 - Fin 1) * Fin 1000) = Some v" using date_of_int by simp
  have f: "getFullYear (fixed_zone k) v = y" "getMonth (fixed_zone k) v = m" "getDate (fixed_zone k) v = dt"
    by (simp_all add: getFullYear_def getMonth_def getDate_def y_def m_def dt_def d(1) v_def)
  obtain v1 v2 where "setFullYear (fixed_zone k) y 0 = Some v1" "setMonth (fixed_zone k) m v1 = Some v2"
    "setDate (fixed_zone k) dt v2 = Some (?e * ms_per_day + k mod ms_per_day - k)"
    using fields_set [OF k mo(1,2) dtb yb] by (auto simp: bind_eq_Some_conv)
  then have "ceil_day_local (fixed_zone k) (Fin (of_int n)) 86400 = Fin (of_int (ms_per_day * ?e - k)) / Fin 1000"
    unfolding ceil_day_local_def date option.case f using clear by simp
  also have "\<dots> = Fin (of_int (?e * ms_per_day - k) / 1000)" by (simp only: mult.commute [of ms_per_day] jsnum_divide)
  finally show ?thesis unfolding e by (simp only: y_def m_def)
qed

section \<open>Properties\<close>

text \<open>
  The next midnight in a zone with a fixed offset, for a whole second: \<open>ceil\<close> gives the first local midnight that is
  not before the time when the zone is east of Greenwich or the month of that midnight has 31 days; in the other
  cases it gives the midnight one month too late, because the day of month 31 that \<open>new Date(0)\<close> has there overflows
  when the month is set before the day.
\<close>

theorem local_day_ceil:
  assumes "\<bar>j\<bar> < 86400" and "86400 \<le> n" and "n \<le> 8000000000000"
  shows "\<exists>d. n \<le> d * 86400 - j \<and> d * 86400 - j < n + 86400
    \<and> ceil_day_local (fixed_zone (1000 * j)) (Fin (of_int n)) 86400 =
        Fin (of_int ((if j < 0 \<and> month_number (12 * year_of_day d + month_of_day d + 1)
                             < month_number (12 * year_of_day d + month_of_day d) + 31
                      then d + (month_number (12 * year_of_day d + month_of_day d + 1)
                                - month_number (12 * year_of_day d + month_of_day d))
                      else d) * 86400 - j))"
proof -
  define d where "d = ((n + 86399) * 1000 + 1000 * j) div ms_per_day"
  have "d = (1000 * (n + 86399 + j)) div (1000 * 86400)" by (simp add: d_def algebra_simps)
  also have "\<dots> = (n + 86399 + j) div 86400" by (rule div_mult_mult1) simp
  finally have d: "d = (n + 86399 + j) div 86400" .
  define r where "r = (n + 86399 + j) mod 86400"
  have r: "n + 86399 + j = d * 86400 + r" "0 \<le> r" "r < 86400" by (simp_all add: d r_def)
  then have bounds: "n \<le> d * 86400 - j" "d * 86400 - j < n + 86400" by linarith+
  have d0: "0 \<le> d" unfolding d using assms(1,2) by (intro pos_imp_zdiv_nonneg_iff [THEN iffD2]) auto
  let ?s = "month_number (12 * year_of_day d + month_of_day d + 1) - month_number (12 * year_of_day d + month_of_day d)"
  have sl: "slips (1000 * j) (year_of_day d) (month_of_day d) \<longleftrightarrow> j < 0 \<and> month_number (12 * year_of_day d + month_of_day d + 1)
      < month_number (12 * year_of_day d + month_of_day d) + 31" by (simp add: slips_def)
  have scale: "rat_of_int (x * ms_per_day - 1000 * j) / 1000 = of_int (x * 86400 - j)" for x by (simp add: field_simps)
  have "ceil_day_local (fixed_zone (1000 * j)) (Fin (of_int n)) 86400 =
      Fin (of_int ((d + (if slips (1000 * j) (year_of_day d) (month_of_day d) then ?s else 0)) * 86400 - j))"
    using ceil_day_fixed [of "1000 * j" n d] assms d_def d0 unfolding scale by simp
  with bounds show ?thesis unfolding sl by (intro exI [of _ d]) (auto split: if_splits)
qed

text \<open>New York, 10 April 2014, five in the afternoon: the next midnight is that of 11 April; the result is 11 May.\<close>

theorem local_day_ceil_witness:
  "ceil_day_local (fixed_zone (1000 * - 14400)) (Fin (of_int 1397163600)) 86400 = Fin (of_int 1399780800)"
proof -
  obtain d where d: "1397163600 \<le> d * 86400 - - 14400" "d * 86400 - - 14400 < 1397163600 + 86400"
    and r: "ceil_day_local (fixed_zone (1000 * - 14400)) (Fin (of_int 1397163600)) 86400 =
        Fin (of_int ((if (- 14400 :: int) < 0 \<and> month_number (12 * year_of_day d + month_of_day d + 1)
                             < month_number (12 * year_of_day d + month_of_day d) + 31
                      then d + (month_number (12 * year_of_day d + month_of_day d + 1)
                                - month_number (12 * year_of_day d + month_of_day d))
                      else d) * 86400 - - 14400))"
    using local_day_ceil [of "- 14400" 1397163600] by auto
  have "d = 16171" using d by simp
  moreover have "year_of_day 16171 = 2014" "month_of_day 16171 = 3" "month_number (12 * 2014 + 3 + 1) = 16191" "month_number (12 * 2014 + 3) = 16161"
    by code_simp+
  ultimately show ?thesis using r by simp
qed

text \<open>
  In every zone east of Greenwich, \<open>ceil\<close> to the year skips a whole year when the time is exactly the local new year:
  the year whose beginning is compared is taken in universal time, where the new year has not come yet.
\<close>

theorem local_year_skipped:
  assumes "0 < j" and "j < 86400" and "1971 \<le> y" and "day_from_year y < 99990000"
  shows "ceil_year_local (fixed_zone (1000 * j)) (Fin (of_int (day_from_year y * 86400 - j))) =
    Fin (of_int (day_from_year (y + 1) * 86400 - j))"
proof -
  let ?k = "1000 * j" and ?t = "day_from_year y * 86400 - j"
  define v where "v = 1000 * ?t"
  have jan: "month_day z 0 = day_from_year z" for z by (simp add: month_day_def month_starts_def Let_def)
  have "day_from_year 1970 = 0" by (simp add: day_from_year_def)
  then have pos: "0 \<le> day_from_year (y - 1)" using day_from_year_chain [of 1970 "y - 1"] assms(3) by simp
  have nx: "day_from_year (y + 1) \<le> day_from_year y + 366" "day_from_year y < day_from_year (y + 1)" "day_from_year (y - 1) + 365 \<le> day_from_year y"
    using day_from_year_next [of y] day_from_year_next [of "y - 1"] by simp_all
  have date: "date_of (Fin (of_int ?t) * Fin 1000) = Some v"
  proof -
    have "\<bar>v\<bar> \<le> max_date" using assms(1,2,4) pos nx by (simp add: v_def max_date_def)
    moreover have "Fin (of_int ?t) * Fin 1000 = Fin (of_int v)" by (simp add: v_def)
    ultimately show ?thesis using date_of_int by simp
  qed
  have "v div ms_per_day = day_from_year y - 1"
  proof -
    have "v = ms_per_day * (day_from_year y - 1) + (ms_per_day - ?k)" by (simp add: v_def algebra_simps)
    then show ?thesis by (rule int_div_pos_eq) (use assms(1,2) in simp_all)
  qed
  then have u: "getUTCFullYear v = y - 1"
    using year_of_day_unique [of "y - 1" "day_from_year y - 1"] nx(3) by (simp add: getUTCFullYear_def)
  have l: "getFullYear (fixed_zone ?k) v = y"
  proof -
    have "v + ?k = ms_per_day * day_from_year y" by (simp add: v_def)
    then have "(v + ?k) div ms_per_day = day_from_year y" by simp
    then show ?thesis using year_of_day_unique [of y "day_from_year y"] nx(2) by (simp add: getFullYear_def)
  qed
  have loc: "get_time (date_local (fixed_zone ?k) z 0) / Fin 1000 = Fin (of_int (day_from_year z * 86400 - j))"
    if "1970 \<le> z" "0 \<le> day_from_year z" "day_from_year z < 99999999" for z
  proof -
    have "clip_int (day_from_year z * ms_per_day + - ?k) = Some (day_from_year z * ms_per_day + - ?k)"
      by (rule clip_day) (use that assms(1,2) in simp_all)
    then show ?thesis using that by (simp add: date_local_def jan)
  qed
  have "\<not> js_eq (get_time (date_local (fixed_zone ?k) (y - 1) 0) / Fin 1000) (Fin (of_int ?t))"
    using loc [of "y - 1"] pos nx assms by simp
  moreover have "get_time (date_local (fixed_zone ?k) (y + 1) 0) / Fin 1000 = Fin (of_int (day_from_year (y + 1) * 86400 - j))"
    using loc [of "y + 1"] pos nx assms by simp
  ultimately show ?thesis unfolding ceil_year_local_def date option.case Let_def u l by simp
qed

theorem local_year_skipped_witness:
  "ceil_year_local (fixed_zone (1000 * 3600)) (Fin (of_int (day_from_year 2014 * 86400 - 3600))) =
    Fin (of_int (day_from_year 2015 * 86400 - 3600))"
  using local_year_skipped [of 3600 2014] by (simp add: day_from_year_def)

end
