(* ===== verification/DragZoom.thy ===== *)
theory DragZoom
  imports JsText
begin

text \<open>
  \<open>Rickshaw.Graph.DragZoom\<close>: a state machine over mouse and key events. The state has the rectangles in the SVG
  element, the variables \<open>rectangle\<close> and \<open>drag\<close>, which listeners are installed, the window of the graph, and a log of
  the calls of \<open>update\<close> and of the callback. The inverse of the x scale is an argument.
\<close>

section \<open>State\<close>

record drag_args =
  da_graph :: bool
  da_opacity :: "jsnum option"
  da_fill :: "string option"
  da_minimum :: "jsnum option"

record drag_config =
  dc_svgWidth :: jsnum
  dc_opacity :: jsnum
  dc_fill :: string
  dc_minimum :: jsnum
  dc_invert :: "jsnum option \<Rightarrow> jsnum"

record rect =
  rc_opacity :: jsnum
  rc_fill :: "string option"
  rc_x :: "jsnum option"
  rc_width :: "jsnum option"

datatype drag_call = Update | Callback jsnum jsnum

record drag_state =
  dz_rects :: "(nat \<times> rect) list"
  dz_rectangle :: "nat option"
  dz_next :: nat
  dz_startDt :: "jsnum option"
  dz_startPX :: "jsnum option"
  dz_mousemove :: bool
  dz_mouseup :: bool
  dz_keyup :: bool
  dz_xMin :: "jsnum option"
  dz_xMax :: "jsnum option"
  dz_log :: "drag_call list"

definition new_drag_config ::
  "drag_args option \<Rightarrow> jsnum \<Rightarrow> (jsnum option \<Rightarrow> jsnum) \<Rightarrow> drag_config js"
where
  "new_drag_config args svgWidth invert =
     (case args of
        None \<Rightarrow> Inl (Thrown ''Rickshaw.Graph.DragZoom needs a reference to a graph'')
      | Some a \<Rightarrow>
          if \<not> da_graph a then Inl (Thrown ''Rickshaw.Graph.DragZoom needs a reference to a graph'')
          else Inr \<lparr>dc_svgWidth = svgWidth, dc_opacity = or_opt (da_opacity a) (Fin (1 / 2)),
                    dc_fill = or_str (da_fill a) ''steelblue'', dc_minimum = or_opt (da_minimum a) (Fin 60),
                    dc_invert = invert\<rparr>)"

definition drag_start :: "jsnum option \<Rightarrow> jsnum option \<Rightarrow> drag_state" where
  "drag_start xMin xMax =
     \<lparr>dz_rects = [], dz_rectangle = None, dz_next = 0, dz_startDt = None, dz_startPX = None, dz_mousemove = False,
      dz_mouseup = False, dz_keyup = False, dz_xMin = xMin, dz_xMax = xMax, dz_log = []\<rparr>"

section \<open>Helpers\<close>

text \<open>The position of an event: \<open>offsetX\<close> and \<open>layerX\<close>, either of which may be missing.\<close>

type_synonym drag_pos = "jsnum option \<times> jsnum option"

definition event_offset :: "drag_pos \<Rightarrow> jsnum option" where
  "event_offset e = (if truthy_opt (fst e) then fst e else snd e)"

definition pointAsDate :: "drag_config \<Rightarrow> drag_pos \<Rightarrow> jsnum" where
  "pointAsDate c e = js_floor (dc_invert c (event_offset e))"

text \<open>\<open>[a, b].sort(compareNumbers)\<close>: \<open>undefined\<close> goes last, and a comparison that is NaN keeps the order.\<close>

definition sort_two :: "jsnum option \<Rightarrow> jsnum option \<Rightarrow> jsnum option \<times> jsnum option" where
  "sort_two a b =
     (case a of
        None \<Rightarrow> (b, a)
      | Some x \<Rightarrow> (case b of None \<Rightarrow> (a, b) | Some y \<Rightarrow> if Fin 0 < x - y then (b, a) else (a, b)))"

fun sub_opt :: "jsnum option \<Rightarrow> jsnum option \<Rightarrow> jsnum" where
  "sub_opt (Some a) (Some b) = a - b"
| "sub_opt _ _ = NaN"

definition remove_rect :: "nat \<Rightarrow> drag_state \<Rightarrow> drag_state" where
  "remove_rect i s = s\<lparr>dz_rects := filter (\<lambda>(j, _). j \<noteq> i) (dz_rects s)\<rparr>"

text \<open>
  \<open>reset\<close> removes the mouse-move listener of the element it is called with: that is the SVG element only from the
  mouse-move listener itself, and the document otherwise, which has none. Without a rectangle it throws.
\<close>

definition drag_reset :: "bool \<Rightarrow> drag_state \<Rightarrow> drag_state js" where
  "drag_reset on_svg s =
     (case dz_rectangle s of
        None \<Rightarrow> Inl TypeError
      | Some i \<Rightarrow>
          Inr (remove_rect i (s\<lparr>dz_mousemove := (if on_svg then False else dz_mousemove s), dz_mouseup := False,
                               dz_startDt := None, dz_startPX := None\<rparr>)))"

section \<open>The listeners\<close>

definition onMousedown :: "drag_config \<Rightarrow> drag_pos \<Rightarrow> drag_state \<Rightarrow> drag_state" where
  "onMousedown c e s =
     s\<lparr>dz_rects := dz_rects s @ [(dz_next s, \<lparr>rc_opacity = dc_opacity c, rc_fill = None, rc_x = None, rc_width = None\<rparr>)],
       dz_rectangle := Some (dz_next s), dz_next := dz_next s + 1,
       dz_startDt := Some (pointAsDate c e), dz_startPX := event_offset e,
       dz_mousemove := True, dz_mouseup := True, dz_keyup := True\<rparr>"

definition onMousemove :: "drag_config \<Rightarrow> drag_pos \<Rightarrow> drag_state \<Rightarrow> drag_state js" where
  "onMousemove c e s =
     (let offset = event_offset e in
      if (case offset of None \<Rightarrow> False | Some x \<Rightarrow> dc_svgWidth c - Fin 1 < x \<or> x < Fin 1) then Inr s
      else
        let limits = sort_two (dz_startPX s) offset;
            selectionWidth = sub_opt (snd limits) (fst limits)
        in if selectionWidth = NaN then drag_reset True s
           else (case dz_rectangle s of
                   None \<Rightarrow> Inl TypeError
                 | Some i \<Rightarrow>
                     Inr (s\<lparr>dz_rects := map (\<lambda>(j, r). if j = i
                            then (j, r\<lparr>rc_fill := Some (dc_fill c), rc_x := fst limits, rc_width := Some selectionWidth\<rparr>)
                            else (j, r)) (dz_rects s)\<rparr>)))"

definition onMouseup :: "drag_config \<Rightarrow> drag_pos \<Rightarrow> drag_state \<Rightarrow> drag_state js" where
  "onMouseup c e s =
     (let w = sort_two (dz_startDt s) (Some (pointAsDate c e));
          range = sub_opt (snd w) (fst w)
      in js_bind (drag_reset False (s\<lparr>dz_xMin := fst w, dz_xMax := snd w\<rparr>)) (\<lambda>s1.
         if range < dc_minimum c \<or> range = NaN then Inr s1
         else Inr (s1\<lparr>dz_log := dz_log s1 @ [Update, Callback range (case snd w of Some t \<Rightarrow> t | None \<Rightarrow> NaN)]\<rparr>)))"

definition onKeyup :: "int \<Rightarrow> drag_state \<Rightarrow> drag_state js" where
  "onKeyup code s = (if code = 27 then drag_reset False s else Inr s)"

datatype drag_event = MouseDown drag_pos | MouseMove drag_pos | MouseUp drag_pos | KeyUp int

text \<open>An event without a listener has no effect.\<close>

fun drag_step :: "drag_config \<Rightarrow> drag_event \<Rightarrow> drag_state \<Rightarrow> drag_state js" where
  "drag_step c (MouseDown e) s = Inr (onMousedown c e s)"
| "drag_step c (MouseMove e) s = (if dz_mousemove s then onMousemove c e s else Inr s)"
| "drag_step c (MouseUp e) s = (if dz_mouseup s then onMouseup c e s else Inr s)"
| "drag_step c (KeyUp code) s = (if dz_keyup s then onKeyup code s else Inr s)"

abbreviation drag_run :: "drag_config \<Rightarrow> drag_event list \<Rightarrow> drag_state \<Rightarrow> drag_state js" where
  "drag_run c \<equiv> for_each (drag_step c)"

section \<open>What every state satisfies\<close>

text \<open>
  An installed listener has a rectangle to work on, a selection has begun exactly while the mouse-up listener is
  installed, and exactly then the current rectangle is in the graph; identities are fresh, the window is in order, and the
  callback was called only for long enough ranges.
\<close>

definition drag_inv :: "drag_config \<Rightarrow> drag_state \<Rightarrow> bool" where
  "drag_inv c s =
     ((dz_mousemove s \<or> dz_mouseup s \<or> dz_keyup s \<longrightarrow> dz_rectangle s \<noteq> None)
      \<and> (dz_mouseup s \<longleftrightarrow> dz_startDt s \<noteq> None) \<and> (dz_mouseup s \<longrightarrow> dz_mousemove s \<and> dz_keyup s)
      \<and> (\<forall>i \<in> fst ` set (dz_rects s). i < dz_next s)
      \<and> (\<forall>i. dz_rectangle s = Some i \<longrightarrow> i < dz_next s \<and> (i \<in> fst ` set (dz_rects s) \<longleftrightarrow> dz_mouseup s))
      \<and> (\<forall>a b. dz_xMin s = Some a \<and> dz_xMax s = Some b \<longrightarrow> \<not> b < a)
      \<and> (\<forall>r t. Callback r t \<in> set (dz_log s) \<longrightarrow> \<not> r < dc_minimum c \<and> r \<noteq> NaN))"

lemma sort_two_order: "sort_two a b = (Some x, Some y) \<Longrightarrow> \<not> y < x"
  by (cases a; cases b; cases "the a"; cases "the b") (auto simp: sort_two_def minus_jsnum_def split: if_splits)

lemma keep_ids [simp]: "map fst (map (\<lambda>(j, r). if j = i then (j, f r) else (j, r)) xs) = map fst xs"
  by (induction xs) auto

lemma keep_id_set: "fst ` set (map (\<lambda>(j, r). if j = i then (j, f r) else (j, r)) xs) = fst ` set xs"
  using arg_cong [OF keep_ids, of set i f xs] by (simp only: set_map)

definition redraw :: "nat \<Rightarrow> (rect \<Rightarrow> rect) \<Rightarrow> drag_state \<Rightarrow> drag_state" where
  "redraw i f s = s\<lparr>dz_rects := map (\<lambda>(j, r). if j = i then (j, f r) else (j, r)) (dz_rects s)\<rparr>"

lemma redraw_ids [simp]: "fst ` set (dz_rects (redraw i f s)) = fst ` set (dz_rects s)"
  using keep_id_set [of i f "dz_rects s"] by (simp add: redraw_def del: set_map)

lemma redraw_fields [simp]:
  "dz_rectangle (redraw i f s) = dz_rectangle s" "dz_next (redraw i f s) = dz_next s" "dz_startDt (redraw i f s) = dz_startDt s"
  "dz_startPX (redraw i f s) = dz_startPX s" "dz_mousemove (redraw i f s) = dz_mousemove s"
  "dz_mouseup (redraw i f s) = dz_mouseup s" "dz_keyup (redraw i f s) = dz_keyup s" "dz_xMin (redraw i f s) = dz_xMin s"
  "dz_xMax (redraw i f s) = dz_xMax s" "dz_log (redraw i f s) = dz_log s"
  by (simp_all add: redraw_def)

lemma onMousemove_cases:
  assumes "dz_rectangle s = Some i"
  shows "onMousemove c p s = Inr s \<or> onMousemove c p s = drag_reset True s \<or> (\<exists>f. onMousemove c p s = Inr (redraw i f s))"
  unfolding onMousemove_def Let_def assms option.case redraw_def by auto

lemma onMousemove_None:
  "dz_rectangle s = None \<Longrightarrow> onMousemove c p s = Inr s \<or> onMousemove c p s = Inl TypeError"
  by (simp add: onMousemove_def Let_def drag_reset_def)

lemma onMousemove_finite:
  assumes "dz_rectangle s = Some i" and "dz_startPX s = Some (Fin px)" and "event_offset p = Some (Fin q)"
  shows "onMousemove c p s = Inr s \<or> (\<exists>f. onMousemove c p s = Inr (redraw i f s))"
proof -
  let ?w = "sort_two (Some (Fin px)) (Some (Fin q))"
  have "sub_opt (snd ?w) (fst ?w) \<noteq> NaN" by (simp add: sort_two_def)
  then show ?thesis unfolding onMousemove_def Let_def assms option.case redraw_def by auto
qed

lemma drag_reset_inv:
  assumes "drag_inv c s" and "dz_rectangle s \<noteq> None"
  shows "\<exists>s'. drag_reset b s = Inr s' \<and> drag_inv c s' \<and> dz_rectangle s' = dz_rectangle s \<and> dz_log s' = dz_log s"
  using assms by (auto simp: drag_reset_def remove_rect_def drag_inv_def split: option.splits)

lemma drag_step_inv:
  assumes "drag_inv c s"
  shows "\<exists>s'. drag_step c e s = Inr s' \<and> drag_inv c s'"
proof (cases e)
  case (MouseDown p)
  with assms show ?thesis by (auto simp: onMousedown_def drag_inv_def less_Suc_eq)
next
  case (MouseMove p)
  show ?thesis
  proof (cases "dz_mousemove s")
    case True
    then obtain i where i: "dz_rectangle s = Some i" using assms by (auto simp: drag_inv_def)
    have "drag_inv c (redraw i f s)" for f using assms unfolding drag_inv_def redraw_ids redraw_fields .
    with True MouseMove onMousemove_cases [OF i, of c p] assms drag_reset_inv [OF assms, of True] i show ?thesis by auto
  qed (use MouseMove assms in simp)
next
  case (MouseUp p)
  show ?thesis
  proof (cases "dz_mouseup s")
    case True
    let ?w = "sort_two (dz_startDt s) (Some (pointAsDate c p))"
    let ?s = "s\<lparr>dz_xMin := fst ?w, dz_xMax := snd ?w\<rparr>"
    have "\<forall>a b. fst ?w = Some a \<and> snd ?w = Some b \<longrightarrow> \<not> b < a" using sort_two_order by (metis prod.collapse)
    then have "drag_inv c ?s" using assms unfolding drag_inv_def by simp
    moreover have "dz_rectangle ?s \<noteq> None" using assms True by (auto simp: drag_inv_def)
    ultimately obtain s1 where "drag_reset False ?s = Inr s1" "drag_inv c s1" using drag_reset_inv by blast
    with True MouseUp show ?thesis by (auto simp: onMouseup_def Let_def drag_inv_def)
  qed (use MouseUp assms in simp)
next
  case (KeyUp code)
  show ?thesis
  proof (cases "dz_keyup s")
    case True
    then have "dz_rectangle s \<noteq> None" using assms by (auto simp: drag_inv_def)
    with True KeyUp assms drag_reset_inv [OF assms, of False] show ?thesis by (auto simp: onKeyup_def)
  qed (use KeyUp assms in simp)
qed

lemma drag_run_inv: "drag_inv c s \<Longrightarrow> \<exists>s'. drag_run c es s = Inr s' \<and> drag_inv c s'"
proof (induction es arbitrary: s)
  case Nil
  then show ?case by simp
next
  case (Cons e es)
  from drag_step_inv [OF Cons.prems] obtain t where "drag_step c e s = Inr t" "drag_inv c t" by blast
  with Cons.IH show ?case by simp
qed

section \<open>Which drag is in progress\<close>

text \<open>A drag begins with a press and ends with the release or the escape key.\<close>

fun held :: "drag_event \<Rightarrow> bool \<Rightarrow> bool" where
  "held (MouseDown _) b = True"
| "held (MouseMove _) b = b"
| "held (MouseUp _) b = False"
| "held (KeyUp code) b = (b \<and> code \<noteq> 27)"

definition pressed :: "drag_event list \<Rightarrow> bool" where
  "pressed es = fold held es False"

fun numeric_event :: "drag_event \<Rightarrow> bool" where
  "numeric_event (MouseDown p) = (\<exists>x. event_offset p = Some (Fin x))"
| "numeric_event (MouseMove p) = (\<exists>x. event_offset p = Some (Fin x))"
| "numeric_event _ = True"

lemma drag_reset_up: "drag_reset b s = Inr s' \<Longrightarrow> \<not> dz_mouseup s'"
  by (auto simp: drag_reset_def remove_rect_def split: option.splits)

lemma onMouseup_up: "onMouseup c p s = Inr s' \<Longrightarrow> \<not> dz_mouseup s'"
  by (auto simp: onMouseup_def Let_def js_bind_Inr_iff dest!: drag_reset_up split: if_splits)

lemma onMousemove_up:
  assumes "onMousemove c p s = Inr s'" and "dz_rectangle s \<noteq> None"
  shows "dz_mouseup s' \<longrightarrow> dz_mouseup s"
proof -
  from assms(2) obtain i where "dz_rectangle s = Some i" by blast
  from onMousemove_cases [OF this, of c p] assms(1) drag_reset_up [of True s s'] show ?thesis by auto
qed

lemma drag_step_held:
  assumes "drag_inv c s" and "drag_step c e s = Inr s'" and "dz_mouseup s \<longrightarrow> b"
  shows "dz_mouseup s' \<longrightarrow> held e b"
proof (cases e)
  case (MouseMove p)
  with assms show ?thesis by (auto simp: drag_inv_def dest!: onMousemove_up split: if_splits)
next
  case (MouseUp p)
  with assms show ?thesis by (auto dest: onMouseup_up split: if_splits)
next
  case (KeyUp code)
  with assms show ?thesis by (auto simp: onKeyup_def drag_inv_def dest: drag_reset_up split: if_splits)
qed simp

lemma drag_run_held:
  assumes "drag_inv c s" and "drag_run c es s = Inr s'" and "dz_mouseup s \<longrightarrow> b"
  shows "dz_mouseup s' \<longrightarrow> fold held es b"
  using assms
proof (induction es arbitrary: s b)
  case (Cons e es)
  obtain t where t: "drag_step c e s = Inr t" "drag_inv c t" using drag_step_inv [OF Cons.prems(1)] by blast
  from Cons.IH [OF t(2) _ drag_step_held [OF Cons.prems(1) t(1) Cons.prems(3)]] Cons.prems(2) t(1) show ?case by simp
qed simp

text \<open>At positions that are numbers no selection is given up in between.\<close>

definition holding :: "drag_state \<Rightarrow> bool" where
  "holding s = (dz_mouseup s \<and> (\<exists>x. dz_startPX s = Some (Fin x)))"

lemma holding_redraw: "holding (redraw i f s) = holding s"
  by (simp add: holding_def)

lemma drag_step_holding:
  assumes "drag_inv c s" and "drag_step c e s = Inr s'" and "b \<longrightarrow> holding s" and "numeric_event e"
  shows "held e b \<longrightarrow> holding s'"
proof (cases e)
  case (MouseDown p)
  with assms show ?thesis by (auto simp: holding_def onMousedown_def)
next
  case (MouseMove p)
  then obtain q where q: "event_offset p = Some (Fin q)" using assms(4) by auto
  have "holding s'" if b: "b"
  proof -
    obtain i px where i: "dz_rectangle s = Some i" "dz_startPX s = Some (Fin px)" "dz_mousemove s" "holding s"
      using assms(1,3) b by (auto simp: drag_inv_def holding_def)
    with onMousemove_finite [OF i(1,2) q, of c] assms(2) MouseMove show ?thesis by (auto simp: holding_redraw)
  qed
  with MouseMove show ?thesis by simp
next
  case (KeyUp code)
  with assms show ?thesis by (auto simp: onKeyup_def split: if_splits)
qed simp

lemma drag_run_holding:
  assumes "drag_inv c s" and "drag_run c es s = Inr s'" and "b \<longrightarrow> holding s" and "\<forall>e \<in> set es. numeric_event e"
  shows "fold held es b \<longrightarrow> holding s'"
  using assms
proof (induction es arbitrary: s b)
  case (Cons e es)
  obtain t where t: "drag_step c e s = Inr t" "drag_inv c t" using drag_step_inv [OF Cons.prems(1)] by blast
  have "numeric_event e" using Cons.prems(4) by simp
  from Cons.IH [OF t(2) _ drag_step_holding [OF Cons.prems(1) t(1) Cons.prems(3) this]] Cons.prems(2,4) t(1) show ?case by simp
qed simp

section \<open>One gesture\<close>

text \<open>Between the press and the release: one rectangle, and the selection as it was begun.\<close>

definition selecting :: "jsnum \<Rightarrow> rat \<Rightarrow> drag_state \<Rightarrow> drag_state \<Rightarrow> bool" where
  "selecting dt px s0 s =
     (dz_startDt s = Some dt \<and> dz_startPX s = Some (Fin px) \<and> dz_mousemove s \<and> dz_mouseup s \<and> dz_log s = dz_log s0
      \<and> (\<exists>i. dz_rectangle s = Some i \<and> fst ` set (dz_rects s) = {i}))"

lemma selecting_move:
  assumes "selecting dt px s0 s" and "event_offset p = Some (Fin q)"
  shows "\<exists>s'. drag_step c (MouseMove p) s = Inr s' \<and> selecting dt px s0 s'"
proof -
  obtain i where i: "dz_rectangle s = Some i" "dz_startPX s = Some (Fin px)" using assms(1) by (auto simp: selecting_def)
  have "selecting dt px s0 (redraw i f s)" for f using assms(1) unfolding selecting_def redraw_ids redraw_fields .
  moreover have "drag_step c (MouseMove p) s = onMousemove c p s" using assms(1) by (simp add: selecting_def)
  ultimately show ?thesis using onMousemove_finite [OF i assms(2), of c] assms(1) by metis
qed

lemma selecting_moves:
  assumes "selecting dt px s0 s" and "\<forall>p \<in> set ps. \<exists>q. event_offset p = Some (Fin q)"
  shows "\<exists>s'. drag_run c (map MouseMove ps) s = Inr s' \<and> selecting dt px s0 s'"
  using assms
proof (induction ps arbitrary: s)
  case Nil
  then show ?case by simp
next
  case (Cons p ps)
  from Cons.prems(2) obtain q where "event_offset p = Some (Fin q)" by auto
  from selecting_move [OF Cons.prems(1) this] obtain t where
    t: "drag_step c (MouseMove p) s = Inr t" "selecting dt px s0 t" by blast
  from Cons.prems(2) have "\<forall>p \<in> set ps. \<exists>q. event_offset p = Some (Fin q)" by simp
  from Cons.IH [OF t(2) this] t(1) show ?case by simp
qed

section \<open>Properties\<close>

text \<open>
  C12. No sequence of mouse and key events makes a listener of the drag zoom throw (the redraw and the callback of
  a release are recorded), and its parts agree at every moment. The release
  listener is installed exactly while a drag has a beginning, and only between a press and its release or the escape key (exactly then,
  when the positions are numbers); meanwhile the other two listeners are installed. The current rectangle is in the graph exactly during the
  drag, and a listener always has a rectangle to work on. The window is in order (or not comparable), and the callback was only called for
  ranges that are not below the minimum.
\<close>

theorem drag_zoom_safe:
  "\<exists>s. drag_run c es (drag_start None None) = Inr s
    \<and> (dz_mouseup s \<longleftrightarrow> dz_startDt s \<noteq> None) \<and> (dz_mouseup s \<longrightarrow> pressed es \<and> dz_mousemove s \<and> dz_keyup s)
    \<and> ((\<forall>e \<in> set es. numeric_event e) \<longrightarrow> pressed es \<longrightarrow> dz_mouseup s)
    \<and> (\<forall>i. dz_rectangle s = Some i \<longrightarrow> (i \<in> fst ` set (dz_rects s) \<longleftrightarrow> dz_mouseup s))
    \<and> (dz_mousemove s \<or> dz_mouseup s \<or> dz_keyup s \<longrightarrow> dz_rectangle s \<noteq> None)
    \<and> (\<forall>a b. dz_xMin s = Some a \<and> dz_xMax s = Some b \<longrightarrow> \<not> b < a)
    \<and> (\<forall>range t. Callback range t \<in> set (dz_log s) \<longrightarrow> \<not> range < dc_minimum c \<and> range \<noteq> NaN)"
proof -
  have start: "drag_inv c (drag_start None None)" by (simp add: drag_inv_def drag_start_def)
  then obtain s where s: "drag_run c es (drag_start None None) = Inr s" "drag_inv c s" using drag_run_inv by blast
  have "dz_mouseup s \<longrightarrow> pressed es"
    unfolding pressed_def by (rule drag_run_held [OF start s(1)]) (simp add: drag_start_def)
  moreover have "pressed es \<longrightarrow> dz_mouseup s" if "\<forall>e \<in> set es. numeric_event e"
    using drag_run_holding [OF start s(1) _ that, of False] by (simp add: pressed_def holding_def)
  ultimately show ?thesis using s by (intro exI [of _ s]) (simp add: drag_inv_def)
qed

text \<open>
  Pressing at one place, moving anywhere and releasing at another sets the window to the two times in order, from
  a state without rectangles. The graph is updated and the callback called exactly when the range reaches the
  minimum; a shorter range changes the window all the same. No rectangle remains.
\<close>

theorem drag_selects_range:
  assumes "dz_rects s = []" and "event_offset p = Some (Fin px)"
    and "\<forall>m \<in> set moves. \<exists>x. event_offset m = Some (Fin x)"
    and "pointAsDate c p = Fin a" and "pointAsDate c q = Fin b" and "dc_minimum c = Fin least"
  shows "\<exists>s'. drag_run c (MouseDown p # map MouseMove moves @ [MouseUp q]) s = Inr s'
    \<and> dz_xMin s' = Some (Fin (min a b)) \<and> dz_xMax s' = Some (Fin (max a b)) \<and> dz_rects s' = []
    \<and> dz_log s' = dz_log s @ (if least \<le> \<bar>a - b\<bar> then [Update, Callback (Fin \<bar>a - b\<bar>) (Fin (max a b))] else [])"
proof -
  have "selecting (Fin a) px s (onMousedown c p s)"
    using assms(1,2,4) by (simp add: selecting_def onMousedown_def)
  then obtain t where t: "drag_run c (map MouseMove moves) (onMousedown c p s) = Inr t" "selecting (Fin a) px s t"
    using selecting_moves [OF _ assms(3)] by blast
  obtain i where i: "dz_rectangle t = Some i" "fst ` set (dz_rects t) = {i}" using t(2) by (auto simp: selecting_def)
  have gone: "filter (\<lambda>(j, _). j \<noteq> i) (dz_rects t) = []" using i(2) by (force simp: filter_empty_conv)
  have w: "sort_two (Some (Fin a)) (Some (Fin b)) = (Some (Fin (min a b)), Some (Fin (max a b)))"
    by (auto simp: sort_two_def)
  have r: "max a b - min a b = \<bar>a - b\<bar>" by (auto simp: max_def min_def)
  have "\<exists>s'. onMouseup c q t = Inr s' \<and> dz_xMin s' = Some (Fin (min a b)) \<and> dz_xMax s' = Some (Fin (max a b)) \<and> dz_rects s' = []
    \<and> dz_log s' = dz_log s @ (if least \<le> \<bar>a - b\<bar> then [Update, Callback (Fin \<bar>a - b\<bar>) (Fin (max a b))] else [])"
    using t(2) i(1) gone w r assms(5,6) by (simp add: onMouseup_def selecting_def drag_reset_def remove_rect_def Let_def not_less)
  moreover have "dz_mouseup t" using t(2) by (simp add: selecting_def)
  ultimately show ?thesis using t(1) by (simp add: for_each_append)
qed

definition demo_drag :: drag_config where
  "demo_drag = \<lparr>dc_svgWidth = Fin 500, dc_opacity = Fin (1 / 2), dc_fill = ''steelblue'', dc_minimum = Fin 60,
     dc_invert = (\<lambda>x. case x of Some v \<Rightarrow> v | None \<Rightarrow> NaN)\<rparr>"

abbreviation at_px :: "rat \<Rightarrow> drag_pos" where
  "at_px x \<equiv> (Some (Fin x), None)"

lemma event_offset_at: "x \<noteq> 0 \<Longrightarrow> event_offset (at_px x) = Some (Fin x)"
  by (simp add: event_offset_def)

theorem drag_zoom_safe_witness:
  "(\<exists>s. drag_run demo_drag [MouseDown (at_px 10), KeyUp 65, MouseMove (at_px 20)] (drag_start None None) = Inr s
     \<and> dz_mouseup s \<and> (\<forall>range t. Callback range t \<in> set (dz_log s) \<longrightarrow> \<not> range < Fin 60 \<and> range \<noteq> NaN))
   \<and> (\<exists>s. drag_run demo_drag [MouseDown (at_px 10), KeyUp 27, MouseMove (at_px 20), MouseUp (None, None)] (drag_start None None) = Inr s
     \<and> \<not> dz_mouseup s \<and> dz_startDt s = None)"
proof -
  have "dc_minimum demo_drag = Fin 60" by (simp add: demo_drag_def)
  moreover have "pressed [MouseDown (at_px 10), KeyUp 65, MouseMove (at_px 20)]"
    "\<not> pressed [MouseDown (at_px 10), KeyUp 27, MouseMove (at_px 20), MouseUp (None, None)]" by (simp_all add: pressed_def)
  moreover have "\<forall>e \<in> set [MouseDown (at_px 10), KeyUp 65, MouseMove (at_px 20)]. numeric_event e" by (simp add: event_offset_at)
  ultimately show ?thesis
    using drag_zoom_safe [of demo_drag "[MouseDown (at_px 10), KeyUp 65, MouseMove (at_px 20)]"]
      drag_zoom_safe [of demo_drag "[MouseDown (at_px 10), KeyUp 27, MouseMove (at_px 20), MouseUp (None, None)]"] by metis
qed

theorem drag_selects_range_witness:
  "\<exists>s'. drag_run demo_drag [MouseDown (at_px 300), MouseMove (at_px 200), MouseUp (at_px 100)] (drag_start None None) = Inr s'
    \<and> dz_xMin s' = Some (Fin 100) \<and> dz_xMax s' = Some (Fin 300) \<and> dz_log s' = [Update, Callback (Fin 200) (Fin 300)]"
  using drag_selects_range [of "drag_start None None" "at_px 300" 300 "[at_px 200]" demo_drag 300 "at_px 100" 100 60]
  by (auto simp: drag_start_def demo_drag_def pointAsDate_def event_offset_def js_floor_def)

text \<open>A rectangle that is not the current one is never removed.\<close>

definition orphan :: "nat \<Rightarrow> drag_state \<Rightarrow> bool" where
  "orphan i s = (i \<in> fst ` set (dz_rects s) \<and> i < dz_next s \<and> dz_rectangle s \<noteq> Some i)"

lemma orphan_reset: "orphan i s \<Longrightarrow> drag_reset b s = Inr s' \<Longrightarrow> orphan i s'"
  by (force simp: orphan_def drag_reset_def remove_rect_def image_iff split: option.splits)

lemma orphan_move:
  assumes "orphan i s" and "onMousemove c p s = Inr s'"
  shows "orphan i s'"
proof (cases "dz_rectangle s")
  case None
  with assms onMousemove_None [OF None, of c p] show ?thesis by auto
next
  case (Some j)
  have "orphan i (redraw j f s)" for f using assms(1) unfolding orphan_def redraw_ids redraw_fields .
  with assms onMousemove_cases [OF Some, of c p] orphan_reset [OF assms(1)] show ?thesis by (metis sum.inject(2))
qed

lemma orphan_up:
  assumes "orphan i s" and "onMouseup c p s = Inr s'"
  shows "orphan i s'"
proof -
  let ?w = "sort_two (dz_startDt s) (Some (pointAsDate c p))"
  let ?t = "s\<lparr>dz_xMin := fst ?w, dz_xMax := snd ?w\<rparr>"
  obtain s1 where r: "drag_reset False ?t = Inr s1" "dz_rects s' = dz_rects s1" "dz_next s' = dz_next s1"
    "dz_rectangle s' = dz_rectangle s1"
    using assms(2) unfolding onMouseup_def Let_def by (auto simp: js_bind_Inr_iff split: if_splits)
  have "orphan i ?t" using assms(1) by (simp add: orphan_def)
  from orphan_reset [OF this r(1)] show ?thesis by (simp add: orphan_def r)
qed

lemma orphan_step:
  assumes "orphan i s" and "drag_step c e s = Inr s'"
  shows "orphan i s'"
proof (cases e)
  case (MouseDown p)
  with assms show ?thesis by (auto simp: orphan_def onMousedown_def)
next
  case (MouseMove p)
  with assms orphan_move show ?thesis by (cases "dz_mousemove s") auto
next
  case (MouseUp p)
  with assms orphan_up show ?thesis by (cases "dz_mouseup s") auto
next
  case (KeyUp code)
  with assms orphan_reset show ?thesis by (cases "dz_keyup s"; cases "code = 27") (auto simp: onKeyup_def)
qed

text \<open>
  A second press before the release of the first (the button was released outside the browser window) leaves the
  first rectangle in the graph for good: no later event removes it.
\<close>

theorem drag_rectangle_leaks:
  assumes "drag_run c (MouseDown p # MouseDown q # es) s = Inr s'" and "\<forall>i \<in> fst ` set (dz_rects s). i < dz_next s"
  shows "dz_next s \<in> fst ` set (dz_rects s')"
proof -
  let ?t = "onMousedown c q (onMousedown c p s)"
  have "orphan (dz_next s) ?t" by (simp add: orphan_def onMousedown_def)
  moreover have "drag_run c es ?t = Inr s'" using assms(1) by simp
  ultimately have "orphan (dz_next s) s'"
    using for_each_inv [of "drag_step c" es ?t s' "orphan (dz_next s)"] orphan_step by blast
  then show ?thesis by (simp add: orphan_def)
qed

theorem drag_rectangle_leaks_witness:
  "\<exists>s'. drag_run demo_drag [MouseDown (at_px 10), MouseDown (at_px 20), MouseUp (at_px 90)] (drag_start None None) = Inr s'
    \<and> 0 \<in> fst ` set (dz_rects s')"
proof -
  let ?es = "[MouseDown (at_px 10), MouseDown (at_px 20), MouseUp (at_px 90)]"
  have "\<exists>s'. drag_run demo_drag ?es (drag_start None None) = Inr s'"
    by (simp add: onMousedown_def onMouseup_def drag_start_def drag_reset_def remove_rect_def Let_def)
  then obtain s' where "drag_run demo_drag ?es (drag_start None None) = Inr s'" by blast
  with drag_rectangle_leaks [of demo_drag "at_px 10" "at_px 20" "[MouseUp (at_px 90)]" "drag_start None None" s']
  show ?thesis by (auto simp: drag_start_def)
qed

end
