(* ===== verification/RangeSlider.thy ===== *)
theory RangeSlider
  imports GraphConfig
begin

text \<open>
  \<open>Rickshaw.Graph.RangeSlider\<close> and \<open>Rickshaw.Graph.RangeSlider.Preview\<close>: two ways to set the visible window of graphs,
  with the slider of jQuery and with a draggable frame over a small copy of each graph. The linear scales of d3 are
  arguments, and so is what an update of a graph and a callback do.
\<close>

section \<open>The window of a graph\<close>

record win =
  w_xMin :: "jsnum option"
  w_xMax :: "jsnum option"

section \<open>RangeSlider\<close>

text \<open>The options of the jQuery slider that the code sets.\<close>

record slider =
  sl_min :: jsnum
  sl_max :: jsnum
  sl_values :: "jsnum \<times> jsnum"

definition slider_build :: "jsnum \<times> jsnum \<Rightarrow> slider" where
  "slider_build domain = \<lparr>sl_min = fst domain, sl_max = snd domain, sl_values = domain\<rparr>"

definition slider_update :: "jsnum \<times> jsnum \<Rightarrow> win \<Rightarrow> slider \<Rightarrow> slider" where
  "slider_update domain w sl =
     sl\<lparr>sl_min := fst domain, sl_max := snd domain,
        sl_values := ((if w_xMin w = None then fst domain else fst (sl_values sl)),
                      (if w_xMax w = None then snd domain else snd (sl_values sl)))\<rparr>"

text \<open>
  \<open>processSlideChange\<close>: set the window, update the graph, then forget an edge that lies at the end of the data. The
  result has the window during the update, the window at the end, and what the callbacks are given.
\<close>

definition processSlideChange :: "(win \<Rightarrow> jsnum \<times> jsnum) \<Rightarrow> jsnum \<times> jsnum \<Rightarrow> win \<times> win" where
  "processSlideChange update_domain values =
     (let w1 = \<lparr>w_xMin = Some (fst values), w_xMax = Some (snd values)\<rparr>;
          domain = update_domain w1;
          w2 = (if js_eq (fst domain) (fst values) then w1\<lparr>w_xMin := None\<rparr> else w1);
          w3 = (if js_eq (snd domain) (snd values) then w2\<lparr>w_xMax := None\<rparr> else w2)
      in (w1, w3))"

text \<open>The slide handler: one change for each graph, given by what its update makes of its data domain.\<close>

definition slide :: "bool \<Rightarrow> (win \<Rightarrow> jsnum \<times> jsnum) list \<Rightarrow> jsnum \<times> jsnum \<Rightarrow> win list \<Rightarrow> win list" where
  "slide slideShouldUpdate updates values ws =
     (if \<not> slideShouldUpdate then ws
      else if snd values \<le> fst values then ws
      else map (\<lambda>u. snd (processSlideChange u values)) updates)"

text \<open>
  Construction: \<open>graphs\<close> or \<open>graph\<close> is one graph or an array of them; \<open>build\<close> looks at \<open>this.graphs || this.graph\<close> again, and by then
  \<open>this.graph\<close> is the first graph. Graphs are numbers, \<open>domain\<close> is the data domain of each.
\<close>

datatype graph_arg = OneGraph nat | GraphArray "nat list"

fun graphs_of :: "graph_arg \<Rightarrow> nat list" where
  "graphs_of (OneGraph g) = [g]"
| "graphs_of (GraphArray gs) = gs"

record range_slider =
  rg_graph :: nat
  rg_slider :: slider
  rg_slides :: "nat list"
  rg_updates :: "nat list"
  rg_configures :: "nat list"
  rg_slideCallbacks :: "nat list"

definition range_build :: "(nat \<Rightarrow> jsnum \<times> jsnum) \<Rightarrow> nat list \<Rightarrow> range_slider js" where
  "range_build domain graphs =
     (case graphs of
        [] \<Rightarrow> Inl TypeError
      | g # gs \<Rightarrow> Inr \<lparr>rg_graph = g, rg_slider = slider_build (domain g), rg_slides = graphs, rg_updates = [], rg_configures = [g],
                        rg_slideCallbacks = []\<rparr>)"

definition new_range_slider :: "(nat \<Rightarrow> jsnum \<times> jsnum) \<Rightarrow> graph_arg option \<Rightarrow> graph_arg option \<Rightarrow> range_slider js" where
  "new_range_slider domain graphs graph =
     (case (case graphs of Some a \<Rightarrow> Some a | None \<Rightarrow> graph) of
        None \<Rightarrow> Inl TypeError
      | Some a \<Rightarrow>
          js_bind (range_build domain (if graphs \<noteq> None then graphs_of a else take 1 (graphs_of a)))
            (\<lambda>rs. Inr (rs\<lparr>rg_updates := rg_updates rs @ graphs_of a, rg_configures := rg_configures rs @ graphs_of a\<rparr>)))"

definition onSlide :: "nat \<Rightarrow> range_slider \<Rightarrow> range_slider" where
  "onSlide callback rs = rs\<lparr>rg_slideCallbacks := rg_slideCallbacks rs @ [callback]\<rparr>"

section \<open>Preview: configuration\<close>

fun num_of :: "jsval \<Rightarrow> jsnum" where
  "num_of (JNum n) = n"
| "num_of JNull = Fin 0"
| "num_of (JBool b) = Fin (if b then 1 else 0)"
| "num_of _ = NaN"

definition preview_defaults :: "string \<Rightarrow> jsval" where
  "preview_defaults gripperColor = JObj
     [(''height'', JNum (Fin 75)), (''width'', JNum (Fin 400)), (''gripperColor'', JStr gripperColor),
      (''frameTopThickness'', JNum (Fin 3)), (''frameHandleThickness'', JNum (Fin 10)), (''frameColor'', JStr ''#d4d4d4''),
      (''frameOpacity'', JNum (Fin 1)), (''minimumFrameWidth'', JNum (Fin 0)), (''heightRatio'', JNum (Fin (2 / 10)))]"

text \<open>
  Every rendering binds the handles to a new \<open>drag\<close> object, while listeners on the document keep the one they were
  installed with: the objects are in a store, \<open>pv_handles\<close> is the one of the handles and \<open>pv_active\<close> the one of the
  document. Calls of slide callbacks are logged with the callback, the graph and the window.
\<close>

record pdrag =
  pd_target :: "nat option"
  pd_start :: "jsnum option"
  pd_left :: bool
  pd_right :: bool
  pd_rigid :: bool

record preview =
  pv_defaults :: jsval
  pv_config :: jsval
  pv_heightRatio :: jsnum
  pv_widthFromGraph :: bool
  pv_heightFromGraph :: bool
  pv_previewHeight :: jsnum
  pv_previewWidth :: jsnum
  pv_currentFrame :: "jsnum \<times> jsnum"
  pv_frameBeforeDrag :: "(jsnum \<times> jsnum) option"
  pv_previews :: "graph list"
  pv_svg :: "(jsnum \<times> jsnum) option"
  pv_windows :: "win list"
  pv_drags :: "pdrag list"
  pv_handles :: nat
  pv_active :: "nat option"
  pv_slides :: "(nat \<times> nat \<times> jsnum \<times> jsnum) list"

definition config_num :: "string \<Rightarrow> preview \<Rightarrow> jsnum" where
  "config_num k p = num_of (get_prop (pv_config p) k)"

definition preview_value :: "jsval \<Rightarrow> preview \<Rightarrow> string \<Rightarrow> jsval" where
  "preview_value args p k =
     (if has_prop args k then get_prop args k
      else if has_prop (pv_config p) k then get_prop (pv_config p) k else get_prop (pv_defaults p) k)"

definition preview_size :: "jsval \<Rightarrow> jsval \<Rightarrow> jsval" where
  "preview_size width height = JObj [(''width'', width), (''height'', height)]"

text \<open>The size of the first graph is an argument; \<open>n\<close> is the number of graphs.\<close>

definition preview_resize :: "jsnum \<times> jsnum \<Rightarrow> nat \<Rightarrow> preview \<Rightarrow> preview" where
  "preview_resize style n p =
     (let height = pv_previewHeight p / Fin (of_nat n) - config_num ''frameTopThickness'' p * Fin 2;
          width = config_num ''width'' p - config_num ''frameHandleThickness'' p * Fin 2
      in p\<lparr>pv_previews := map (setSize style (preview_size (JNum width) (JNum height))) (pv_previews p),
           pv_svg := (if pv_previews p = [] then pv_svg p
                      else map_option (\<lambda>_. (width + config_num ''frameHandleThickness'' p * Fin 2,
                                            height + config_num ''frameHandleThickness'' p * Fin 2)) (pv_svg p))\<rparr>)"

text \<open>The configure callbacks get the caller's object first and may change it: each is a function on it.\<close>

definition preview_configure ::
  "(jsval \<Rightarrow> jsval) list \<Rightarrow> jsnum \<times> jsnum \<Rightarrow> jsnum \<times> jsnum \<Rightarrow> nat \<Rightarrow> jsval \<Rightarrow> preview \<Rightarrow> preview"
where
  "preview_configure configureCallbacks style graph_size n args0 p =
     (let args = fold (\<lambda>callback. callback) configureCallbacks args0;
          p1 = p\<lparr>pv_config := fold (\<lambda>k c. set_prop k (preview_value args (p\<lparr>pv_config := c\<rparr>) k) c)
                    (keys (pv_defaults p)) (pv_config p)\<rparr>
      in if has_prop args ''width'' \<or> has_prop args ''height''
         then
           let p2 = (if pv_widthFromGraph p1
                     then p1\<lparr>pv_config := set_prop ''width'' (JNum (fst graph_size)) (pv_config p1)\<rparr> else p1);
               p3 = (if pv_heightFromGraph p2
                     then p2\<lparr>pv_config := set_prop ''height'' (JNum (snd graph_size * pv_heightRatio p2)) (pv_config p2),
                             pv_previewHeight := snd graph_size * pv_heightRatio p2\<rparr> else p2)
           in preview_resize style n p3
         else p1)"

section \<open>Preview: the frame\<close>

text \<open>\<open>invert\<close> is the inverse of the scale from the preview's width to the data domain of the first graph.\<close>

definition window_frame :: "(jsnum \<Rightarrow> jsnum) \<Rightarrow> win \<Rightarrow> jsnum \<Rightarrow> jsnum \<Rightarrow> jsnum \<times> jsnum" where
  "window_frame invert w previewWidth minimumFrameWidth =
     (let l = (case w_xMin w of None \<Rightarrow> Fin 0 | Some x \<Rightarrow> js_round (invert x));
          l' = (if l < Fin 0 then Fin 0 else l);
          r = (case w_xMax w of None \<Rightarrow> previewWidth | Some x \<Rightarrow> invert x);
          r' = (if r - l' < minimumFrameWidth then or_num l' (Fin 0) + minimumFrameWidth else r)
      in (l', r'))"

text \<open>The sizes and the frame that \<open>render\<close> sets before it draws.\<close>

definition preview_layout :: "(jsnum \<Rightarrow> jsnum \<Rightarrow> jsnum) \<Rightarrow> preview \<Rightarrow> preview" where
  "preview_layout invert p =
     (let h = config_num ''height'' p - config_num ''frameTopThickness'' p * Fin 2;
          w = config_num ''width'' p - config_num ''frameHandleThickness'' p * Fin 2;
          master = (case pv_windows p of [] \<Rightarrow> \<lparr>w_xMin = None, w_xMax = None\<rparr> | win # _ \<Rightarrow> win)
      in p\<lparr>pv_previewHeight := h, pv_previewWidth := w,
           pv_currentFrame := window_frame (invert w) master w (config_num ''minimumFrameWidth'' p),
           pv_svg := (case pv_svg p of None \<Rightarrow> Some (config_num ''width'' p, config_num ''height'' p) | Some s \<Rightarrow> Some s),
           pv_drags := pv_drags p @ [\<lparr>pd_target = None, pd_start = None, pd_left = False, pd_right = False, pd_rigid = False\<rparr>],
           pv_handles := length (pv_drags p)\<rparr>)"

text \<open>
  \<open>render\<close> builds a small graph for every parent that has none yet; \<open>build\<close> is the constructor of graphs. A
  parent's \<open>configure\<close> passes its arguments on to the small graph, without the height and with a narrower width.
\<close>

definition preview_graph_args :: "nat \<Rightarrow> preview \<Rightarrow> graph \<Rightarrow> jsval" where
  "preview_graph_args n p parent =
     (let h = config_num ''height'' p - config_num ''frameTopThickness'' p * Fin 2;
          w = config_num ''width'' p - config_num ''frameHandleThickness'' p * Fin 2
      in extend_obj (extend_obj (JObj []) (g_config parent))
           (JObj [(''height'', JNum (h / Fin (of_nat n))), (''width'', JNum w), (''series'', g_series parent),
                  (''renderer'', current_name parent)]))"

definition build_preview :: "(jsval \<Rightarrow> graph js) \<Rightarrow> nat \<Rightarrow> graph \<Rightarrow> preview \<Rightarrow> preview js" where
  "build_preview build n parent p =
     js_bind (build (preview_graph_args n p parent)) (\<lambda>g. Inr (p\<lparr>pv_previews := pv_previews p @ [g]\<rparr>))"

definition preview_render :: "(jsnum \<Rightarrow> jsnum \<Rightarrow> jsnum) \<Rightarrow> (jsval \<Rightarrow> graph js) \<Rightarrow> graph list \<Rightarrow> preview \<Rightarrow> preview js" where
  "preview_render invert build parents p =
     js_bind (for_each (build_preview build (length parents)) (drop (length (pv_previews p)) parents) p)
       (\<lambda>p2. Inr (preview_layout invert p2))"

definition preview_child_args :: "preview \<Rightarrow> jsval \<Rightarrow> jsval" where
  "preview_child_args p args =
     set_prop ''width'' (JNum (num_of (get_prop args ''width'') - config_num ''frameHandleThickness'' p * Fin 2))
       (del_prop ''height'' args)"

text \<open>\<open>initialize\<close>: \<open>element\<close> and \<open>graphs\<close> say what the caller passed; the two messages are thrown as plain strings.\<close>

definition new_preview ::
  "(jsnum \<Rightarrow> jsnum \<Rightarrow> jsnum) \<Rightarrow> (jsval \<Rightarrow> graph js) \<Rightarrow> jsnum \<times> jsnum \<Rightarrow> string \<Rightarrow> bool \<Rightarrow> graph list option \<Rightarrow> win list \<Rightarrow>
   jsval \<Rightarrow> preview js"
where
  "new_preview invert build style gripperColor element graphs windows args =
     (if \<not> element then Inl (Thrown ''Rickshaw.Graph.RangeSlider.Preview needs a reference to an element'')
      else
        case graphs of
          None \<Rightarrow> Inl (Thrown ''Rickshaw.Graph.RangeSlider.Preview needs a reference to an graph or an array of graphs'')
        | Some [] \<Rightarrow> Inl TypeError
        | Some (g # gs) \<Rightarrow>
            let ratio = js_or (get_prop args ''heightRatio'') (JNum (Fin (2 / 10)));
                gw = get_prop (g_this g) ''width''; gh = num_of (get_prop (g_this g) ''height'');
                args1 = set_prop ''height'' (js_or (get_prop args ''height'') (js_or (JNum (gh * num_of ratio)) (JNum (Fin 75))))
                          (set_prop ''width'' (js_or (get_prop args ''width'') (js_or gw (JNum (Fin 400)))) args);
                p = \<lparr>pv_defaults = preview_defaults gripperColor, pv_config = JObj [], pv_heightRatio = num_of ratio,
                     pv_widthFromGraph = (\<not> truthy (get_prop args ''width'')),
                     pv_heightFromGraph = (\<not> truthy (get_prop args ''height'')),
                     pv_previewHeight = NaN, pv_previewWidth = NaN, pv_currentFrame = (NaN, NaN), pv_frameBeforeDrag = None,
                     pv_previews = [], pv_svg = None, pv_windows = windows, pv_drags = [], pv_handles = 0, pv_active = None,
                     pv_slides = []\<rparr>
            in preview_render invert build (g # gs)
                 (preview_configure [] style (num_of gw, gh) (length (g # gs)) args1 p))"

section \<open>Preview: drawing\<close>

record frame_drawing =
  fd_dimming :: string
  fd_frame :: string
  fd_gripper :: string
  fd_left_x :: jsnum
  fd_right_x :: jsnum
  fd_middle_x :: jsnum
  fd_middle_width :: jsnum

definition dimming_path :: "preview \<Rightarrow> string" where
  "dimming_path p =
     (let t = config_num ''frameHandleThickness'' p; top = config_num ''frameTopThickness'' p;
          w = pv_previewWidth p; h = pv_previewHeight p; f = pv_currentFrame p;
          l = js_max2 (fst f) t
      in '' M '' @ num_str t @ '' '' @ num_str top @ '' h '' @ num_str w @ '' v '' @ num_str h @ '' h '' @ num_str (- w) @ '' z ''
         @ '' M '' @ num_str l @ '' '' @ num_str top
         @ '' H '' @ num_str (js_min2 (snd f + t * Fin 2) (w + t))
         @ '' v '' @ num_str h @ '' H '' @ num_str l @ '' z'')"

definition frame_path :: "preview \<Rightarrow> string" where
  "frame_path p =
     (let t = config_num ''frameHandleThickness'' p; top = config_num ''frameTopThickness'' p; f = pv_currentFrame p
      in '' M '' @ num_str (fst f) @ '' 0'' @ '' H '' @ num_str (snd f + t * Fin 2)
         @ '' V '' @ num_str (config_num ''height'' p) @ '' H '' @ num_str (fst f) @ '' z''
         @ '' M '' @ num_str (fst f + t) @ '' '' @ num_str top @ '' H '' @ num_str (snd f + t)
         @ '' v '' @ num_str (pv_previewHeight p) @ '' H '' @ num_str (fst f + t) @ '' z'')"

definition gripper_path :: "preview \<Rightarrow> string" where
  "gripper_path p =
     (let t = config_num ''frameHandleThickness'' p; h = config_num ''height'' p; f = pv_currentFrame p in
      concat (map (\<lambda>spacing.
        '' M '' @ num_str (js_round (fst f + t * spacing)) @ '' '' @ num_str (js_round (h * Fin (3 / 10)))
        @ '' V '' @ num_str (js_round (h * Fin (7 / 10)))
        @ '' M '' @ num_str (js_round (snd f + t * (Fin 1 + spacing))) @ '' '' @ num_str (js_round (h * Fin (3 / 10)))
        @ '' V '' @ num_str (js_round (h * Fin (7 / 10)))) [Fin (4 / 10), Fin (6 / 10)]))"

definition preview_draw :: "preview \<Rightarrow> frame_drawing" where
  "preview_draw p =
     (let t = config_num ''frameHandleThickness'' p; f = pv_currentFrame p
      in \<lparr>fd_dimming = dimming_path p, fd_frame = frame_path p, fd_gripper = gripper_path p,
          fd_left_x = fst f, fd_right_x = snd f + t, fd_middle_x = fst f + t,
          fd_middle_width = js_max2 (Fin 0) (snd f - fst f)\<rparr>)"

section \<open>Preview: dragging\<close>

datatype pointer_event = MouseAt nat "jsnum option" | TouchAt nat "(nat \<times> jsnum) list"

fun event_target :: "pointer_event \<Rightarrow> nat" where
  "event_target (MouseAt t _) = t"
| "event_target (TouchAt t _) = t"

fun getClientXFromEvent :: "pointer_event \<Rightarrow> pdrag \<Rightarrow> jsnum option" where
  "getClientXFromEvent (MouseAt _ x) drag = x"
| "getClientXFromEvent (TouchAt _ touches) drag =
     map_option snd (find (\<lambda>(target, _). Some target = pd_target drag) touches)"

datatype handle = LeftHandle | RightHandle | MiddleHandle

definition press_flags :: "handle \<Rightarrow> pdrag \<Rightarrow> pdrag" where
  "press_flags h d =
     (case h of
        LeftHandle \<Rightarrow> d\<lparr>pd_left := True\<rparr>
      | RightHandle \<Rightarrow> d\<lparr>pd_right := True\<rparr>
      | MiddleHandle \<Rightarrow> d\<lparr>pd_left := True, pd_right := True, pd_rigid := True\<rparr>)"

definition preview_mousedown :: "handle \<Rightarrow> pointer_event \<Rightarrow> preview \<Rightarrow> preview" where
  "preview_mousedown h e p =
     (let i = pv_handles p;
          d1 = (press_flags h (pv_drags p ! i))\<lparr>pd_target := Some (event_target e)\<rparr>;
          d2 = d1\<lparr>pd_start := getClientXFromEvent e d1\<rparr>
      in p\<lparr>pv_drags := (pv_drags p)[i := d2], pv_frameBeforeDrag := Some (pv_currentFrame p), pv_active := Some i\<rparr>)"

fun minus_opt :: "jsnum option \<Rightarrow> jsnum option \<Rightarrow> jsnum" where
  "minus_opt (Some a) (Some b) = a - b"
| "minus_opt _ _ = NaN"

text \<open>The frame after a drag by a distance, from the frame before it.\<close>

definition frame_after :: "pdrag \<Rightarrow> jsnum \<Rightarrow> jsnum \<Rightarrow> jsnum \<Rightarrow> jsnum \<times> jsnum \<Rightarrow> jsnum \<times> jsnum" where
  "frame_after d minimum width distance before =
     (let least = (if pd_rigid d then snd before - fst before else minimum);
          l = (if pd_left d then js_max2 (fst before + distance) (Fin 0) else fst before);
          r = (if pd_right d then js_min2 (snd before + distance) width else snd before)
      in if r - l \<le> least
         then
           let l1 = (if pd_left d then r - least else l);
               r1 = (if pd_right d then l1 + least else r);
               (l2, r2) = (if l1 \<le> Fin 0 then (Fin 0, r1 - l1) else (l1, r1))
           in if width \<le> r2 then (l2 - (r2 - width), width) else (l2, r2)
         else (l, r))"

text \<open>What a move does to one graph: the callbacks get the window, the graph gets it without the edges at the ends.\<close>

definition window_after :: "(jsnum \<Rightarrow> jsnum) \<Rightarrow> jsnum \<Rightarrow> jsnum \<times> jsnum \<Rightarrow> win" where
  "window_after scale width frame =
     \<lparr>w_xMin = (if js_eq (fst frame) (Fin 0) then None else Some (scale (fst frame))),
      w_xMax = (if js_eq (snd frame) width then None else Some (scale (snd frame)))\<rparr>"

definition slide_graph ::
  "(nat \<Rightarrow> preview \<Rightarrow> preview js) \<Rightarrow> nat list \<Rightarrow> jsnum \<times> jsnum \<Rightarrow> nat \<times> (jsnum \<Rightarrow> jsnum \<Rightarrow> jsnum) \<Rightarrow> preview \<Rightarrow> preview js"
where
  "slide_graph update callbacks f gs p =
     (let g = fst gs; scale = snd gs (pv_previewWidth p)
      in update g
           (p\<lparr>pv_slides := pv_slides p @ map (\<lambda>cb. (cb, g, scale (fst f), scale (snd f))) callbacks,
              pv_windows := (pv_windows p)[g := window_after scale (pv_previewWidth p) f]\<rparr>))"

text \<open>\<open>scales\<close> has the scale of each graph, from the preview's width to the graph's data domain.\<close>

definition preview_mousemove ::
  "(nat \<Rightarrow> preview \<Rightarrow> preview js) \<Rightarrow> nat list \<Rightarrow> (jsnum \<Rightarrow> jsnum \<Rightarrow> jsnum) list \<Rightarrow> pointer_event \<Rightarrow> preview \<Rightarrow> preview js"
where
  "preview_mousemove update callbacks scales e p =
     (case pv_active p of
        None \<Rightarrow> Inr p
      | Some i \<Rightarrow>
          (case pv_frameBeforeDrag p of
             None \<Rightarrow> Inl TypeError
           | Some before \<Rightarrow>
               let d = pv_drags p ! i;
                   distanceTraveled = minus_opt (getClientXFromEvent e d) (pd_start d);
                   f = frame_after d (config_num ''minimumFrameWidth'' p) (pv_previewWidth p) distanceTraveled before
               in for_each (slide_graph update callbacks f) (enumerate 0 scales) p))"

definition preview_mouseup :: "preview \<Rightarrow> preview" where
  "preview_mouseup p =
     (case pv_active p of
        None \<Rightarrow> p
      | Some i \<Rightarrow> p\<lparr>pv_drags := (pv_drags p)[i := (pv_drags p ! i)\<lparr>pd_left := False, pd_right := False, pd_rigid := False\<rparr>],
                    pv_active := None, pv_frameBeforeDrag := None\<rparr>)"

section \<open>Frames stay inside the preview\<close>

definition clamp :: "rat \<Rightarrow> rat \<Rightarrow> rat \<Rightarrow> rat" where
  "clamp lo hi x = max lo (min hi x)"

text \<open>What a drag means: a handle moves alone between the other one and the end, the middle moves the whole frame.\<close>

definition drag_spec :: "pdrag \<Rightarrow> rat \<Rightarrow> rat \<Rightarrow> rat \<Rightarrow> rat \<times> rat \<Rightarrow> rat \<times> rat" where
  "drag_spec d least width t before =
     (let (l, r) = before in
      if pd_rigid d then (let l' = clamp 0 (width - (r - l)) (l + t) in (l', l' + (r - l)))
      else if pd_left d then (clamp 0 (r - least) (l + t), r)
      else if pd_right d then (l, clamp (l + least) width (r + t))
      else (l, r))"

text \<open>The flags one press on a fresh object leaves.\<close>

definition pressed :: "pdrag \<Rightarrow> bool" where
  "pressed d = (if pd_rigid d then pd_left d \<and> pd_right d else \<not> (pd_left d \<and> pd_right d))"

lemma frame_after_spec:
  assumes "pressed d" and "0 \<le> l" and "l + least \<le> r" and "r \<le> width" and "0 \<le> least"
  shows "frame_after d (Fin least) (Fin width) (Fin t) (Fin l, Fin r) =
    (Fin (fst (drag_spec d least width t (l, r))), Fin (snd (drag_spec d least width t (l, r))))"
proof (cases "pd_rigid d")
  case True
  then have f: "pd_left d" "pd_right d" using assms(1) by (simp_all add: pressed_def)
  show ?thesis
    using assms by (auto simp: frame_after_def drag_spec_def True f Let_def clamp_def max_def min_def)
next
  case False
  then consider "pd_left d" "\<not> pd_right d" | "\<not> pd_left d" "pd_right d" | "\<not> pd_left d" "\<not> pd_right d"
    using assms(1) by (auto simp: pressed_def)
  then show ?thesis
    by cases (use assms False in \<open>auto simp: frame_after_def drag_spec_def Let_def clamp_def max_def min_def\<close>)
qed

lemma drag_spec_bounds:
  assumes "pressed d" and "0 \<le> l" and "l + least \<le> r" and "r \<le> width" and "0 \<le> least"
    and "drag_spec d least width t (l, r) = (l', r')"
  shows "0 \<le> l' \<and> l' + least \<le> r' \<and> r' \<le> width"
  using assms by (auto simp: drag_spec_def Let_def clamp_def max_def min_def split: if_splits)

section \<open>A drag of the preview\<close>

text \<open>A preview as a rendering leaves it, and an update that renders it again.\<close>

definition rendered :: "preview \<Rightarrow> bool" where
  "rendered p = (pv_previewWidth p = config_num ''width'' p - config_num ''frameHandleThickness'' p * Fin 2
     \<and> pv_handles p < length (pv_drags p)
     \<and> \<not> pd_left (pv_drags p ! pv_handles p) \<and> \<not> pd_right (pv_drags p ! pv_handles p) \<and> \<not> pd_rigid (pv_drags p ! pv_handles p))"

abbreviation rerender :: "(jsnum \<Rightarrow> jsnum \<Rightarrow> jsnum) \<Rightarrow> nat \<Rightarrow> preview \<Rightarrow> preview js" where
  "rerender invert \<equiv> \<lambda>_ p. Inr (preview_layout invert p)"

lemma preview_layout_rendered: "rendered (preview_layout invert p)"
  by (simp add: rendered_def preview_layout_def config_num_def Let_def)

lemma layout_fields [simp]:
  "pv_config (preview_layout invert p) = pv_config p" "pv_windows (preview_layout invert p) = pv_windows p"
  "pv_active (preview_layout invert p) = pv_active p" "pv_frameBeforeDrag (preview_layout invert p) = pv_frameBeforeDrag p"
  "pv_slides (preview_layout invert p) = pv_slides p"
  "pv_previewWidth (preview_layout invert p) = config_num ''width'' p - config_num ''frameHandleThickness'' p * Fin 2"
  by (simp_all add: preview_layout_def Let_def)

lemma slide_graphs:
  assumes "pv_previewWidth p = config_num ''width'' p - config_num ''frameHandleThickness'' p * Fin 2"
    and "n + length scales = length (pv_windows p)"
  shows "\<exists>p'. for_each (slide_graph (rerender invert) cbs f) (enumerate n scales) p = Inr p'
    \<and> pv_windows p' = take n (pv_windows p) @ map (\<lambda>s. window_after (s (pv_previewWidth p)) (pv_previewWidth p) f) scales
    \<and> pv_slides p' = pv_slides p @ concat (map (\<lambda>(g, s). map (\<lambda>cb. (cb, g, s (pv_previewWidth p) (fst f), s (pv_previewWidth p) (snd f))) cbs)
          (enumerate n scales))
    \<and> pv_active p' = pv_active p \<and> pv_frameBeforeDrag p' = pv_frameBeforeDrag p"
  using assms
proof (induction scales arbitrary: n p)
  case Nil
  then show ?case by simp
next
  case (Cons s scales)
  let ?W = "pv_previewWidth p"
  define q where "q = preview_layout invert (p\<lparr>pv_slides := pv_slides p @ map (\<lambda>cb. (cb, n, s ?W (fst f), s ?W (snd f))) cbs,
      pv_windows := (pv_windows p)[n := window_after (s ?W) ?W f]\<rparr>)"
  have q: "pv_previewWidth q = ?W" "pv_windows q = (pv_windows p)[n := window_after (s ?W) ?W f]"
    "pv_slides q = pv_slides p @ map (\<lambda>cb. (cb, n, s ?W (fst f), s ?W (snd f))) cbs"
    "pv_active q = pv_active p" "pv_frameBeforeDrag q = pv_frameBeforeDrag p" "pv_config q = pv_config p"
    using Cons.prems(1) by (simp_all add: q_def config_num_def)
  have "slide_graph (rerender invert) cbs f (n, s) p = Inr q" by (simp add: slide_graph_def q_def Let_def)
  moreover have "pv_previewWidth q = config_num ''width'' q - config_num ''frameHandleThickness'' q * Fin 2"
    using Cons.prems(1) q(1,6) by (simp add: config_num_def)
  moreover have "Suc n + length scales = length (pv_windows q)" using Cons.prems(2) q(2) by simp
  moreover have "take (Suc n) (pv_windows q) = take n (pv_windows p) @ [window_after (s ?W) ?W f]"
    using Cons.prems(2) q(2) by (simp add: take_Suc_conv_app_nth)
  ultimately show ?case using Cons.IH [of q "Suc n"] q by auto
qed

lemma press_fresh:
  assumes "rendered p"
  shows "pressed (press_flags h (pv_drags p ! pv_handles p))" "pd_rigid (press_flags h (pv_drags p ! pv_handles p)) = (h = MiddleHandle)"
    "pd_left (press_flags h (pv_drags p ! pv_handles p)) = (h \<noteq> RightHandle)"
    "pd_right (press_flags h (pv_drags p ! pv_handles p)) = (h \<noteq> LeftHandle)"
  using assms by (cases h; simp add: rendered_def press_flags_def pressed_def)+

section \<open>Properties\<close>

text \<open>
  C13. Dragging a handle or the middle of the preview's frame is the clamped movement of the specification: a handle
  moves between the end of the preview and the minimum distance from the other handle, which stays; the middle moves
  the frame without changing its width. The frame keeps the minimum width and never leaves the preview.
\<close>

theorem drag_frame_clamped:
  assumes "pressed d" and "0 \<le> l" and "l + least \<le> r" and "r \<le> width" and "0 \<le> least"
    and "drag_spec d least width t (l, r) = (l', r')"
  shows "frame_after d (Fin least) (Fin width) (Fin t) (Fin l, Fin r) = (Fin l', Fin r')
    \<and> 0 \<le> l' \<and> l' + least \<le> r' \<and> r' \<le> width"
  using frame_after_spec [OF assms(1-5), of t] drag_spec_bounds [OF assms] assms(6) by simp

theorem drag_frame_clamped_witness:
  "frame_after \<lparr>pd_target = None, pd_start = None, pd_left = True, pd_right = True, pd_rigid = True\<rparr>
     (Fin 10) (Fin 380) (Fin 500) (Fin 40, Fin 90) = (Fin 330, Fin 380)"
  using drag_frame_clamped [of "\<lparr>pd_target = None, pd_start = None, pd_left = True, pd_right = True, pd_rigid = True\<rparr>"
      40 10 90 380 500 330 380]
  by (simp add: pressed_def drag_spec_def clamp_def)

text \<open>
  C7. Pressing a handle and moving the mouse gives every graph the window of the dragged frame, with an edge left
  open where the frame touches the end of the preview, although every update on the way renders the preview again.
  After the release no listener is left.
\<close>

theorem preview_drag_windows:
  assumes "rendered p" and "length scales = length (pv_windows p)"
    and "pv_currentFrame p = (Fin l, Fin r)" and "pv_previewWidth p = Fin width"
    and "config_num ''minimumFrameWidth'' p = Fin least" and "0 \<le> least"
    and "0 \<le> l" and "l + least \<le> r" and "r \<le> width"
  shows "\<exists>p'. preview_mousemove (rerender invert) callbacks scales (MouseAt t1 (Some (Fin x1)))
          (preview_mousedown h (MouseAt t0 (Some (Fin x0))) p) = Inr p'
    \<and> (let (l', r') = drag_spec (press_flags h (pv_drags p ! pv_handles p)) least width (x1 - x0) (l, r)
       in pv_windows p' = map (\<lambda>s. window_after (s (Fin width)) (Fin width) (Fin l', Fin r')) scales)
    \<and> pv_active (preview_mouseup p') = None \<and> pv_frameBeforeDrag (preview_mouseup p') = None"
proof -
  let ?d = "press_flags h (pv_drags p ! pv_handles p)" and ?i = "pv_handles p"
  let ?q = "preview_mousedown h (MouseAt t0 (Some (Fin x0))) p"
  obtain l' r' where spec: "drag_spec ?d least width (x1 - x0) (l, r) = (l', r')" by fastforce
  let ?e = "\<lambda>d. d\<lparr>pd_target := Some t0, pd_start := Some (Fin x0)\<rparr>"
  have i: "?i < length (pv_drags p)" using assms(1) by (simp add: rendered_def)
  have q: "pv_active ?q = Some ?i" "pv_frameBeforeDrag ?q = Some (Fin l, Fin r)" "pv_drags ?q ! ?i = ?e ?d"
    "pv_previewWidth ?q = Fin width" "pv_windows ?q = pv_windows p" "pv_config ?q = pv_config p"
    using assms(3,4) i by (simp_all add: preview_mousedown_def Let_def)
  have "drag_spec (?e ?d) least width t b = drag_spec ?d least width t b" for t b
    by (simp add: drag_spec_def cong: if_cong)
  then have sp: "drag_spec (?e ?d) least width (x1 - x0) (l, r) = (l', r')" using spec by simp
  have pr: "pressed (?e ?d)" using press_fresh(1) [OF assms(1), of h] by (simp add: pressed_def)
  have f: "frame_after (?e ?d) (Fin least) (Fin width) (Fin (x1 - x0)) (Fin l, Fin r) = (Fin l', Fin r')"
    using frame_after_spec [OF pr assms(7-9,6), of "x1 - x0"] sp by simp
  have w: "pv_previewWidth ?q = config_num ''width'' ?q - config_num ''frameHandleThickness'' ?q * Fin 2"
    using assms(1,4) q(4,6) by (simp add: rendered_def config_num_def)
  have len: "0 + length scales = length (pv_windows ?q)" using assms(2) q(5) by simp
  obtain p' where p': "for_each (slide_graph (rerender invert) callbacks (Fin l', Fin r')) (enumerate 0 scales) ?q = Inr p'"
    "pv_windows p' = map (\<lambda>s. window_after (s (Fin width)) (Fin width) (Fin l', Fin r')) scales" "pv_active p' = Some ?i"
    using slide_graphs [OF w len, of invert callbacks "(Fin l', Fin r')"] q by auto
  have m: "config_num ''minimumFrameWidth'' ?q = Fin least" using assms(5) q(6) by (simp add: config_num_def)
  have "preview_mousemove (rerender invert) callbacks scales (MouseAt t1 (Some (Fin x1))) ?q = Inr p'"
    unfolding preview_mousemove_def q(1,2) option.case Let_def using q(3,4) m f p'(1) by simp
  with p' spec show ?thesis by (auto simp: preview_mouseup_def)
qed

definition plain_preview :: preview where
  "plain_preview = \<lparr>pv_defaults = preview_defaults ''#949494'', pv_config = preview_defaults ''#949494'', pv_heightRatio = Fin (2 / 10),
     pv_widthFromGraph = False, pv_heightFromGraph = False, pv_previewHeight = Fin 69, pv_previewWidth = Fin 380,
     pv_currentFrame = (Fin 0, Fin 380), pv_frameBeforeDrag = None, pv_previews = [], pv_svg = None,
     pv_windows = [\<lparr>w_xMin = None, w_xMax = None\<rparr>],
     pv_drags = [\<lparr>pd_target = None, pd_start = None, pd_left = False, pd_right = False, pd_rigid = False\<rparr>],
     pv_handles = 0, pv_active = None, pv_slides = []\<rparr>"

lemma plain_preview_rendered: "rendered plain_preview" "config_num ''minimumFrameWidth'' plain_preview = Fin 0"
  by (simp_all add: rendered_def plain_preview_def config_num_def preview_defaults_def get_prop_def)

theorem preview_drag_windows_witness:
  "\<exists>p'. preview_mousemove (rerender (\<lambda>_ x. x)) [] [\<lambda>_ x. x] (MouseAt 1 (Some (Fin 150)))
      (preview_mousedown LeftHandle (MouseAt 1 (Some (Fin 50))) plain_preview) = Inr p'
    \<and> pv_windows p' = [\<lparr>w_xMin = Some (Fin 100), w_xMax = None\<rparr>]"
  using preview_drag_windows [OF plain_preview_rendered(1) _ _ _ plain_preview_rendered(2),
      of "[\<lambda>_ x. x]" 0 380 380 "\<lambda>_ x. x" "[]" 1 150 LeftHandle 1 50]
  by (auto simp: plain_preview_def drag_spec_def press_flags_def clamp_def window_after_def)

text \<open>
  Rendering the preview shows the frame that was dragged, when its left edge is a whole pixel: turning the frame into a
  window and the window back into a frame gives the same frame, for any scale that its inverse undoes.
\<close>

theorem preview_frame_roundtrip:
  assumes "\<forall>x. invert (scale (Fin x)) = Fin x" and "0 \<le> l" and "of_int l + least \<le> r" and "r \<le> width" and "0 \<le> least"
  shows "window_frame invert (window_after scale (Fin width) (Fin (of_int l), Fin r)) (Fin width) (Fin least) = (Fin (of_int l), Fin r)"
proof -
  have "\<lfloor>rat_of_int l + 1 / 2\<rfloor> = l" by (simp add: floor_eq_iff)
  then show ?thesis using assms by (auto simp: window_frame_def window_after_def js_round_def Let_def)
qed

theorem preview_frame_roundtrip_witness:
  "window_frame (\<lambda>x. x - Fin 1000) (window_after (\<lambda>x. x + Fin 1000) (Fin 380) (Fin (of_int 20), Fin 350)) (Fin 380) (Fin 10) =
     (Fin (of_int 20), Fin 350)"
  by (rule preview_frame_roundtrip) simp_all

text \<open>
  A touch that moves while another finger drags the frame destroys the window: the position of the touch that
  drags is not among the changed ones, the distance is not a number, and the edge being dragged becomes the scale's
  value of no number.
\<close>

theorem preview_second_finger:
  assumes "rendered p" and "length scales = length (pv_windows p)" and "scales \<noteq> []"
    and "find (\<lambda>(target, _). target = t0) touches = None"
  shows "\<exists>p'. preview_mousemove (rerender invert) callbacks scales (TouchAt t1 touches)
          (preview_mousedown LeftHandle (TouchAt t0 [(t0, x0)]) p) = Inr p'
    \<and> map w_xMin (pv_windows p') = map (\<lambda>s. Some (s (pv_previewWidth p) NaN)) scales"
proof -
  let ?d = "press_flags LeftHandle (pv_drags p ! pv_handles p)" and ?i = "pv_handles p"
  let ?q = "preview_mousedown LeftHandle (TouchAt t0 [(t0, x0)]) p"
  let ?e = "?d\<lparr>pd_target := Some t0, pd_start := Some x0\<rparr>"
  have i: "?i < length (pv_drags p)" using assms(1) by (simp add: rendered_def)
  have q: "pv_active ?q = Some ?i" "pv_frameBeforeDrag ?q = Some (pv_currentFrame p)" "pv_drags ?q ! ?i = ?e"
    "pv_previewWidth ?q = pv_previewWidth p" "pv_windows ?q = pv_windows p" "pv_config ?q = pv_config p"
    using i by (simp_all add: preview_mousedown_def Let_def)
  have "getClientXFromEvent (TouchAt t1 touches) ?e = None"
    using assms(4) by (auto simp: find_None_iff)
  then have d: "minus_opt (getClientXFromEvent (TouchAt t1 touches) ?e) (pd_start ?e) = NaN" by (simp only: minus_opt.simps)
  let ?f = "frame_after ?e (config_num ''minimumFrameWidth'' ?q) (pv_previewWidth p) NaN (pv_currentFrame p)"
  have f: "fst ?f = NaN"
    using press_fresh [OF assms(1), of LeftHandle] by (simp add: frame_after_def Let_def js_max2_def)
  have w: "pv_previewWidth ?q = config_num ''width'' ?q - config_num ''frameHandleThickness'' ?q * Fin 2"
    using assms(1) q(4,6) by (simp add: rendered_def config_num_def)
  have len: "0 + length scales = length (pv_windows ?q)" using assms(2) q(5) by simp
  obtain p' where "for_each (slide_graph (rerender invert) callbacks ?f) (enumerate 0 scales) ?q = Inr p'"
    "pv_windows p' = map (\<lambda>s. window_after (s (pv_previewWidth p)) (pv_previewWidth p) ?f) scales"
    using slide_graphs [OF w len, of invert callbacks ?f] q(4) by auto
  moreover have "preview_mousemove (rerender invert) callbacks scales (TouchAt t1 touches) ?q =
      for_each (slide_graph (rerender invert) callbacks ?f) (enumerate 0 scales) ?q"
    unfolding preview_mousemove_def q(1,2) option.case Let_def q(3,4) d ..
  ultimately show ?thesis using f by (auto simp: window_after_def)
qed

theorem preview_second_finger_witness:
  "\<exists>p'. preview_mousemove (rerender (\<lambda>_ x. x)) [] [\<lambda>_ x. x] (TouchAt 8 [(8, Fin 9)])
      (preview_mousedown LeftHandle (TouchAt 7 [(7, Fin 50)]) plain_preview) = Inr p'
    \<and> map w_xMin (pv_windows p') = [Some NaN]"
  using preview_second_finger [OF plain_preview_rendered(1), of "[\<lambda>_ x. x]" 7 "[(8, Fin 9)]" "\<lambda>_ x. x" "[]" 8 "Fin 50"]
  by (auto simp: plain_preview_def)

text \<open>
  A slider handle that reaches an end of the data stays at that end: when the data grow, the next update moves it to
  the new end, while a handle inside keeps its value. A slide with crossed or equal values changes no window.
\<close>

theorem slider_sticks:
  assumes "a < b" and "d0 \<le> a" and "b \<le> d1"
  shows "slide True (replicate n (\<lambda>_. (Fin d0, Fin d1))) (Fin a, Fin b) ws =
      replicate n \<lparr>w_xMin = (if a = d0 then None else Some (Fin a)), w_xMax = (if b = d1 then None else Some (Fin b))\<rparr>
    \<and> sl_values (slider_update (Fin e0, Fin e1) (snd (processSlideChange (\<lambda>_. (Fin d0, Fin d1)) (Fin a, Fin b)))
          (slider_build (Fin d0, Fin d1)\<lparr>sl_values := (Fin a, Fin b)\<rparr>)) =
        (Fin (if a = d0 then e0 else a), Fin (if b = d1 then e1 else b))
    \<and> slide True us (Fin b, Fin a) ws = ws \<and> slide True us (Fin a, Fin a) ws = ws"
  using assms by (auto simp: slide_def processSlideChange_def slider_update_def slider_build_def Let_def map_replicate_const)

theorem slider_sticks_witness:
  "slide True [\<lambda>_. (Fin 0, Fin 10)] (Fin 3, Fin 10) [] = [\<lparr>w_xMin = Some (Fin 3), w_xMax = None\<rparr>]"
  using slider_sticks [of 3 10 0 10 1 "[]"] by simp

text \<open>
  Graphs given as \<open>graphs\<close> all slide, and all of them update the slider; graphs given as an array under the name \<open>graph\<close> all update the
  slider, but only the first of them slides.
\<close>

theorem slider_graphs:
  assumes "gs \<noteq> []"
  shows "(\<exists>rs. new_range_slider domain (Some (GraphArray gs)) other = Inr rs \<and> rg_slides rs = gs \<and> rg_updates rs = gs)
    \<and> (\<exists>rs. new_range_slider domain None (Some (GraphArray gs)) = Inr rs \<and> rg_slides rs = [hd gs] \<and> rg_updates rs = gs)"
  using assms by (cases gs) (auto simp: new_range_slider_def range_build_def)

theorem slider_graphs_witness:
  "\<exists>rs. new_range_slider (\<lambda>_. (Fin 0, Fin 9)) None (Some (GraphArray [4, 7])) = Inr rs \<and> rg_slides rs = [4] \<and> rg_updates rs = [4, 7]"
  using slider_graphs [of "[4, 7]" "\<lambda>_. (Fin 0, Fin 9)"] by auto

end
