(* ===== verification/ClassHelpers.thy ===== *)
theory ClassHelpers
  imports RickshawCore
begin

text \<open>
  The helpers in front of \<open>Class\<close>: the classification of values, the own keys of an object, and the functions that put argument lists
  together (\<open>update\<close>, \<open>merge\<close>, \<open>bind\<close>, \<open>wrap\<close>). An array is a list in which a place that was never written is \<open>None\<close>; a function is one
  on its \<open>this\<close> and its arguments.
\<close>

section \<open>Values\<close>

fun value_Type :: "jsval \<Rightarrow> string" where
  "value_Type JNull = ''Null''"
| "value_Type JUndef = ''Undefined''"
| "value_Type (JBool b) = ''Boolean''"
| "value_Type (JNum n) = ''Number''"
| "value_Type (JStr s) = ''String''"
| "value_Type _ = ''Object''"

fun isFunction :: "jsval \<Rightarrow> bool" where
  "isFunction (JFun f ps) = True"
| "isFunction _ = False"

definition class_extend :: "jsval \<Rightarrow> jsval \<Rightarrow> jsval" where
  "class_extend destination source = fold (\<lambda>p d. set_prop p (get_prop source p) d) (map fst (props source)) destination"

text \<open>The own properties of an array are its indices.\<close>

fun class_keys :: "jsval \<Rightarrow> string list js" where
  "class_keys (JArr vs) = Inr (map (\<lambda>i. num_str (Fin (of_nat i))) [0 ..< length vs])"
| "class_keys v = (if value_Type v \<noteq> ''Object'' then Inl TypeError else Inr (map fst (props v)))"

section \<open>Argument lists\<close>

definition array_set :: "nat \<Rightarrow> 'a \<Rightarrow> 'a option list \<Rightarrow> 'a option list" where
  "array_set i v xs = (if i < length xs then xs[i := Some v] else xs @ replicate (i - length xs) None @ [Some v])"

text \<open>The loop of \<open>update\<close> writes the last argument first, and by that gives the array its new length.\<close>

fun update_loop :: "nat \<Rightarrow> 'a list \<Rightarrow> nat \<Rightarrow> 'a option list \<Rightarrow> 'a option list" where
  "update_loop arrayLength args 0 array = array"
| "update_loop arrayLength args (Suc n) array = update_loop arrayLength args n (array_set (arrayLength + n) (args ! n) array)"

definition args_update :: "'a option list \<Rightarrow> 'a list \<Rightarrow> 'a option list" where
  "args_update array args = update_loop (length array) args (length args) array"

definition args_merge :: "'a option list \<Rightarrow> 'a list \<Rightarrow> 'a option list" where
  "args_merge array args = args_update (take (length array) array) args"

type_synonym ('o, 'a, 'b) js_fun = "'o \<Rightarrow> 'a option list \<Rightarrow> 'b"

text \<open>\<open>bind(fn, context, ...)\<close> fixes \<open>this\<close> and the first arguments.\<close>

definition fun_bind :: "('o, 'a, 'b) js_fun \<Rightarrow> 'o \<Rightarrow> 'a list \<Rightarrow> 'o \<Rightarrow> 'a list \<Rightarrow> 'b" where
  "fun_bind fn context args this arguments = fn context (args_merge (map Some args) arguments)"

text \<open>\<open>wrap(fn, wrapper)\<close> hands the wrapper the function, bound to \<open>this\<close>, in front of the arguments; \<open>func\<close> makes a value of it.\<close>

definition fun_wrap :: "(('a list \<Rightarrow> 'b) \<Rightarrow> 'a) \<Rightarrow> ('o, 'a, 'b) js_fun \<Rightarrow> ('o, 'a, 'b) js_fun \<Rightarrow> 'o \<Rightarrow> 'a list \<Rightarrow> 'b" where
  "fun_wrap func fn wrapper this arguments = wrapper this (args_update [Some (func (fun_bind fn this [] this))] arguments)"

section \<open>Argument lists are put together in order\<close>

lemma update_loop_written:
  assumes "n \<le> length args" and "m = length array"
  shows "update_loop m args n (array @ replicate n None @ map Some (drop n args)) = array @ map Some args"
  using assms(1)
proof (induction n)
  case (Suc n)
  have "drop n args = args ! n # drop (Suc n) args" using Suc.prems by (simp add: Cons_nth_drop_Suc)
  moreover have "replicate (Suc n) (None :: 'a option) = replicate n None @ [None]" by (simp add: replicate_append_same)
  ultimately have "array_set (m + n) (args ! n) (array @ replicate (Suc n) None @ map Some (drop (Suc n) args)) =
      array @ replicate n None @ map Some (drop n args)"
    by (simp add: array_set_def assms(2) list_update_append)
  with Suc show ?case by simp
qed simp

lemma args_update_append: "args_update array args = array @ map Some args"
proof (cases "length args")
  case (Suc n)
  then have "drop n args = [args ! n]" using Cons_nth_drop_Suc [of n args] by simp
  then have "array_set (length array + n) (args ! n) array = array @ replicate n None @ map Some (drop n args)"
    by (simp add: array_set_def)
  then show ?thesis using update_loop_written [of n args "length array" array] Suc by (simp add: args_update_def)
qed (simp add: args_update_def)

section \<open>Properties\<close>

text \<open>
  Bound and wrapped functions get their arguments in order: the loop that writes from the last one leaves no hole, a bound function is
  called with the fixed arguments before those of the call, whatever its \<open>this\<close> is then, and a wrapper gets the bound function first.
\<close>

theorem arguments_in_order:
  "fun_bind fn context args this arguments = fn context (map Some (args @ arguments))
   \<and> fun_wrap func fn wrapper this arguments = wrapper this (Some (func (\<lambda>as. fn this (map Some as))) # map Some arguments)"
proof -
  have "fun_bind fn this [] this = (\<lambda>as. fn this (map Some as))" by (simp add: fun_bind_def args_merge_def args_update_append fun_eq_iff)
  then show ?thesis by (simp add: fun_bind_def args_merge_def args_update_append fun_wrap_def)
qed

end
