(* ===== verification/ClassList.thy ===== *)
theory ClassList
  imports JsText
begin

text \<open>
  \<open>Rickshaw.Compat.ClassList\<close>: the replacement for \<open>element.classList\<close> in browsers that have none. The list is an array of
  tokens read from the element's class text when it is created; a change writes the text back. Every access of
  \<open>element.classList\<close> makes a new list, so a list that is kept may lag behind the element.

  The refinement: on an element, the operations are those of a set of tokens, and a set is what \<open>class_set\<close> reads from
  the text.
\<close>

section \<open>White space\<close>

text \<open>\<open>\s\<close> and \<open>trim\<close> on 8-bit characters: tab to carriage return, space, no-break space.\<close>

definition is_space :: "char \<Rightarrow> bool" where
  "is_space c = (let n = of_char c :: nat in 9 \<le> n \<and> n \<le> 13 \<or> n = 32 \<or> n = 160)"

definition strTrim :: "string \<Rightarrow> string" where
  "strTrim s = rev (dropWhile is_space (rev (dropWhile is_space s)))"

text \<open>\<open>s.split(/\s+/)\<close>\<close>

function split_spaces :: "string \<Rightarrow> string list" where
  "split_spaces [] = [[]]"
| "split_spaces (c # s) =
     (if is_space c then [] # split_spaces (dropWhile is_space s)
      else case split_spaces s of [] \<Rightarrow> [[c]] | w # ws \<Rightarrow> (c # w) # ws)"
  by pat_completeness auto
termination
  by (relation "measure length") (auto simp: le_imp_less_Suc length_dropWhile_le)

section \<open>The list\<close>

record class_list =
  tokens :: "string list"
  className :: string

definition classes_of :: "string \<Rightarrow> string list" where
  "classes_of text = (let trimmedClasses = strTrim text in if trimmedClasses = [] then [] else split_spaces trimmedClasses)"

definition classListGetter :: "string \<Rightarrow> class_list" where
  "classListGetter text = \<lparr>tokens = classes_of text, className = text\<rparr>"

fun arrIndexOf :: "string \<Rightarrow> string list \<Rightarrow> nat option" where
  "arrIndexOf item [] = None"
| "arrIndexOf item (x # xs) = (if x = item then Some 0 else map_option Suc (arrIndexOf item xs))"

definition checkTokenAndGetIndex :: "class_list \<Rightarrow> string \<Rightarrow> nat option js" where
  "checkTokenAndGetIndex cl token =
     (if token = '''' then Inl (Thrown ''SYNTAX_ERR'')
      else if list_ex is_space token then Inl (Thrown ''INVALID_CHARACTER_ERR'')
      else Inr (arrIndexOf token (tokens cl)))"

definition class_text :: "class_list \<Rightarrow> string" where
  "class_text cl = join '' '' (tokens cl)"

definition updateClassName :: "class_list \<Rightarrow> class_list" where
  "updateClassName cl = cl\<lparr>className := class_text cl\<rparr>"

definition class_item :: "class_list \<Rightarrow> nat \<Rightarrow> string option" where
  "class_item cl i = (if i < length (tokens cl) \<and> tokens cl ! i \<noteq> [] then Some (tokens cl ! i) else None)"

definition class_contains :: "string \<Rightarrow> class_list \<Rightarrow> bool js" where
  "class_contains token cl = js_bind (checkTokenAndGetIndex cl token) (\<lambda>i. Inr (i \<noteq> None))"

definition class_add :: "string \<Rightarrow> class_list \<Rightarrow> class_list js" where
  "class_add token cl =
     js_bind (checkTokenAndGetIndex cl token)
       (\<lambda>i. Inr (if i = None then updateClassName (cl\<lparr>tokens := tokens cl @ [token]\<rparr>) else cl))"

definition class_remove :: "string \<Rightarrow> class_list \<Rightarrow> class_list js" where
  "class_remove token cl =
     js_bind (checkTokenAndGetIndex cl token)
       (\<lambda>index. Inr (case index of None \<Rightarrow> cl
                     | Some i \<Rightarrow> updateClassName (cl\<lparr>tokens := snd (splice_remove i 1 (tokens cl))\<rparr>)))"

definition class_toggle :: "string \<Rightarrow> class_list \<Rightarrow> class_list js" where
  "class_toggle token cl =
     js_bind (checkTokenAndGetIndex cl token) (\<lambda>i. if i = None then class_add token cl else class_remove token cl)"

text \<open>\<open>element.classList.op(token)\<close> on the class text of an element.\<close>

definition on_element :: "(class_list \<Rightarrow> class_list js) \<Rightarrow> string \<Rightarrow> string js" where
  "on_element f text = js_bind (f (classListGetter text)) (\<lambda>cl. Inr (className cl))"

section \<open>Reading the tokens of a text\<close>

definition valid_token :: "string \<Rightarrow> bool" where
  "valid_token t = (t \<noteq> [] \<and> (\<forall>c \<in> set t. \<not> is_space c))"

lemma checkToken_valid [simp]: "valid_token t \<Longrightarrow> checkTokenAndGetIndex cl t = Inr (arrIndexOf t (tokens cl))"
  by (auto simp: valid_token_def checkTokenAndGetIndex_def list_ex_iff)

lemma checkToken_invalid: "\<not> valid_token t \<Longrightarrow> \<exists>e. checkTokenAndGetIndex cl t = Inl e"
  by (auto simp: valid_token_def checkTokenAndGetIndex_def list_ex_iff)

lemma is_space_blank [simp]: "is_space CHR '' ''"
  by (simp add: is_space_def)

lemma split_spaces_word: "\<forall>c \<in> set w. \<not> is_space c \<Longrightarrow> split_spaces w = [w]"
  by (induction w) auto

lemma dropWhile_word: "\<forall>c \<in> set w. \<not> is_space c \<Longrightarrow> w \<noteq> [] \<Longrightarrow> dropWhile is_space (w @ s) = w @ s"
  by (cases w) auto

lemma split_spaces_append:
  "\<forall>c \<in> set w. \<not> is_space c \<Longrightarrow> is_space b \<Longrightarrow> split_spaces (w @ b # s) = w # split_spaces (dropWhile is_space s)"
  by (induction w) auto

lemma join_tokens_head:
  "valid_token w \<Longrightarrow> dropWhile is_space (join '' '' (w # ws)) = join '' '' (w # ws)"
  by (cases ws) (auto simp: valid_token_def dropWhile_word dropWhile_word [of w "[]", simplified])

lemma split_spaces_join:
  "list_all valid_token ws \<Longrightarrow> ws \<noteq> [] \<Longrightarrow> split_spaces (join '' '' ws) = ws"
proof (induction "'' ''" ws rule: join.induct)
  case (2 w)
  then show ?case by (simp add: valid_token_def split_spaces_word)
next
  case (3 w v ws)
  then show ?case by (simp add: valid_token_def split_spaces_append join_tokens_head)
qed simp

lemma join_snoc: "us \<noteq> [] \<Longrightarrow> join '' '' (us @ [x]) = join '' '' us @ '' '' @ x"
  by (induction "'' ''" us rule: join.induct) auto

lemma rev_join: "rev (join '' '' ws) = join '' '' (rev (map rev ws))"
proof (induction "'' ''" ws rule: join.induct)
  case (3 w v ws)
  then show ?case using join_snoc [of "rev (map rev ws) @ [rev v]" "rev w"] by simp
qed auto

lemma strTrim_join:
  assumes "list_all valid_token ws"
  shows "strTrim (join '' '' ws) = join '' '' ws"
proof (cases ws)
  case Nil
  then show ?thesis by (simp add: strTrim_def)
next
  case (Cons w us)
  obtain v vs where v: "rev (map rev ws) = v # vs" using Cons by (cases "rev (map rev ws)") auto
  have "list_all valid_token (rev (map rev ws))"
    using assms by (auto simp: list_all_iff valid_token_def)
  with v have "dropWhile is_space (rev (join '' '' ws)) = rev (join '' '' ws)"
    by (simp add: rev_join join_tokens_head)
  with assms Cons show ?thesis by (simp add: strTrim_def join_tokens_head)
qed

lemma join_valid_nonempty: "list_all valid_token ws \<Longrightarrow> join '' '' ws = [] \<longleftrightarrow> ws = []"
  by (induction "'' ''" ws rule: join.induct) (auto simp: valid_token_def)

lemma classes_of_join: "list_all valid_token ws \<Longrightarrow> classes_of (join '' '' ws) = ws"
  by (cases "ws = []") (simp_all add: classes_of_def strTrim_join split_spaces_join join_valid_nonempty Let_def, simp add: strTrim_def)

text \<open>What is read from a text is a list of valid tokens.\<close>

lemma split_spaces_clean: "w \<in> set (split_spaces s) \<Longrightarrow> c \<in> set w \<Longrightarrow> \<not> is_space c"
proof (induction s arbitrary: w rule: split_spaces.induct)
  case (2 b s)
  then show ?case by (cases "split_spaces s") (fastforce split: if_splits)+
qed simp

lemma split_spaces_head: "s \<noteq> [] \<Longrightarrow> \<not> is_space (hd s) \<Longrightarrow> \<exists>w ws. split_spaces s = w # ws \<and> w \<noteq> []"
  by (cases s) (auto split: list.splits)

lemma split_spaces_tail: "s \<noteq> [] \<Longrightarrow> \<not> is_space (last s) \<Longrightarrow> w \<in> set (tl (split_spaces s)) \<Longrightarrow> w \<noteq> []"
proof (induction s rule: split_spaces.induct)
  case (2 c s)
  show ?case
  proof (cases "is_space c")
    case True
    let ?r = "dropWhile is_space s"
    have s: "s \<noteq> []" "\<not> is_space (last s)" using 2(4) True by (auto split: if_splits)
    then have r: "?r \<noteq> []" by (auto simp: dropWhile_eq_Nil_conv)
    then have "last ?r = last s" by (metis last_appendR takeWhile_dropWhile_id)
    moreover obtain v vs where "split_spaces ?r = v # vs" "v \<noteq> []"
      using split_spaces_head [OF r hd_dropWhile [OF r]] by blast
    ultimately show ?thesis using 2(1) [OF True r] 2(5) True s by auto
  next
    case False
    then show ?thesis using 2(2,4,5) by (cases "s = []") (auto split: list.splits)
  qed
qed simp

lemma classes_of_valid: "list_all valid_token (classes_of text)"
proof (cases "strTrim text = []")
  case False
  let ?d = "dropWhile is_space text" and ?t = "strTrim text"
  have r: "dropWhile is_space (rev ?d) \<noteq> []" and d: "?d \<noteq> []"
    using False by (auto simp: strTrim_def dest: set_dropWhileD)
  have l: "\<not> is_space (last ?t)" using hd_dropWhile [OF r] r by (simp add: strTrim_def last_rev)
  have "rev (dropWhile is_space (rev ?d)) = take (length (dropWhile is_space (rev ?d))) ?d"
    by (metis append_eq_conv_conj length_rev rev_append rev_rev_ident takeWhile_dropWhile_id)
  then have "hd ?t = hd ?d" using r by (metis strTrim_def hd_take length_greater_0_conv)
  with hd_dropWhile [OF d] have "\<not> is_space (hd ?t)" by simp
  with False split_spaces_head obtain w ws where w: "split_spaces ?t = w # ws" "w \<noteq> []" by blast
  have "u \<noteq> []" if "u \<in> set (split_spaces ?t)" for u
    using that split_spaces_tail [OF False l, of u] w by auto
  with False show ?thesis
    by (auto simp: classes_of_def list_all_iff valid_token_def Let_def dest: split_spaces_clean)
qed (simp add: classes_of_def)

section \<open>Sets of tokens\<close>

text \<open>What the clients of a class list rely on: membership after an addition and a removal, and no other effect.\<close>

locale token_set =
  fixes content :: "'e \<Rightarrow> string set" and wf :: "'e \<Rightarrow> bool"
    and add remove toggle :: "string \<Rightarrow> 'e \<Rightarrow> 'e js"
  assumes add_ok: "wf e \<Longrightarrow> valid_token t \<Longrightarrow> \<exists>e'. add t e = Inr e' \<and> wf e' \<and> content e' = insert t (content e)"
    and remove_ok: "wf e \<Longrightarrow> valid_token t \<Longrightarrow> \<exists>e'. remove t e = Inr e' \<and> wf e' \<and> content e' = content e - {t}"
    and toggle_def: "wf e \<Longrightarrow> valid_token t \<Longrightarrow> toggle t e = (if t \<in> content e then remove t e else add t e)"
begin

lemma toggle_ok:
  "wf e \<Longrightarrow> valid_token t \<Longrightarrow> \<exists>e'. toggle t e = Inr e' \<and> wf e'
    \<and> content e' = (if t \<in> content e then content e - {t} else insert t (content e))"
  using add_ok [of e t] remove_ok [of e t] by (simp add: toggle_def)

lemma toggle_twice:
  assumes "wf e" and "valid_token t"
  shows "\<exists>e'. js_bind (toggle t e) (toggle t) = Inr e' \<and> wf e' \<and> content e' = content e"
proof -
  obtain e1 where "toggle t e = Inr e1" "wf e1" "content e1 = (if t \<in> content e then content e - {t} else insert t (content e))"
    using toggle_ok [OF assms] by blast
  then show ?thesis using toggle_ok [of e1 t] assms(2) by (auto split: if_splits)
qed

lemma add_remove:
  assumes "wf e" and "valid_token t" and "t \<notin> content e"
  shows "\<exists>e'. js_bind (add t e) (remove t) = Inr e' \<and> wf e' \<and> content e' = content e"
proof -
  obtain e1 where "add t e = Inr e1" "wf e1" "content e1 = insert t (content e)" using add_ok [OF assms(1,2)] by blast
  then show ?thesis using remove_ok [of e1 t] assms by auto
qed

end

definition class_set :: "string \<Rightarrow> string set" where
  "class_set text = set (classes_of text)"

definition no_repeats :: "string \<Rightarrow> bool" where
  "no_repeats text = distinct (classes_of text)"

lemma arrIndexOf_None [simp]: "arrIndexOf t xs = None \<longleftrightarrow> t \<notin> set xs"
  by (induction xs) auto

lemma arrIndexOf_Some [simp]: "(\<exists>i. arrIndexOf t xs = Some i) \<longleftrightarrow> t \<in> set xs"
  using arrIndexOf_None [of t xs] by (cases "arrIndexOf t xs") auto

lemma splice_index: "arrIndexOf t xs = Some i \<Longrightarrow> snd (splice_remove i 1 xs) = remove1 t xs"
proof (induction xs arbitrary: i)
  case (Cons x xs)
  then show ?case by (cases "x = t") (fastforce simp: splice_remove_def)+
qed simp

lemma list_all_remove1: "list_all P xs \<Longrightarrow> list_all P (remove1 t xs)"
  by (auto simp: list_all_iff dest: notin_set_remove1)

lemma element_add:
  assumes "valid_token t"
  shows "\<exists>u. on_element (class_add t) text = Inr u
    \<and> classes_of u = (if t \<in> class_set text then classes_of text else classes_of text @ [t])
    \<and> (t \<in> class_set text \<longrightarrow> u = text)"
proof (cases "t \<in> set (classes_of text)")
  case True
  then show ?thesis using assms
    by (auto simp: on_element_def class_add_def classListGetter_def class_set_def) 
next
  case False
  then have "arrIndexOf t (classes_of text) = None" by simp
  moreover have "list_all valid_token (classes_of text @ [t])" using classes_of_valid assms by simp
  ultimately show ?thesis using assms False
    by (simp add: on_element_def class_add_def classListGetter_def updateClassName_def class_text_def class_set_def
        classes_of_join del: arrIndexOf_None)
qed

lemma element_remove:
  assumes "valid_token t"
  shows "\<exists>u. on_element (class_remove t) text = Inr u \<and> classes_of u = remove1 t (classes_of text)
    \<and> (t \<notin> class_set text \<longrightarrow> u = text)"
proof (cases "arrIndexOf t (classes_of text)")
  case None
  then have "t \<notin> set (classes_of text)" by simp
  with None assms show ?thesis
    by (simp add: on_element_def class_remove_def classListGetter_def class_set_def remove1_idem del: arrIndexOf_None)
next
  case (Some i)
  then have "t \<in> set (classes_of text)" by (metis arrIndexOf_None option.distinct(1))
  moreover have "list_all valid_token (remove1 t (classes_of text))" by (rule list_all_remove1 [OF classes_of_valid])
  ultimately show ?thesis using Some assms splice_index [OF Some]
    by (simp add: on_element_def class_remove_def classListGetter_def updateClassName_def class_text_def class_set_def classes_of_join)
qed

lemma element_toggle:
  "valid_token t \<Longrightarrow> on_element (class_toggle t) text =
     (if t \<in> class_set text then on_element (class_remove t) text else on_element (class_add t) text)"
  by (auto simp: on_element_def class_toggle_def classListGetter_def class_set_def)

interpretation element_classes: token_set class_set no_repeats
  "\<lambda>t. on_element (class_add t)" "\<lambda>t. on_element (class_remove t)" "\<lambda>t. on_element (class_toggle t)"
proof
  fix e t
  assume "no_repeats e" and "valid_token t"
  then show "\<exists>e'. on_element (class_add t) e = Inr e' \<and> no_repeats e' \<and> class_set e' = insert t (class_set e)"
    using element_add [of t e] by (auto simp: class_set_def no_repeats_def split: if_splits)
next
  fix e t
  assume "no_repeats e" and "valid_token t"
  then show "\<exists>e'. on_element (class_remove t) e = Inr e' \<and> no_repeats e' \<and> class_set e' = class_set e - {t}"
    using element_remove [of t e] by (metis class_set_def distinct_remove1 no_repeats_def set_remove1_eq)
qed (rule element_toggle)

section \<open>Properties\<close>

text \<open>
  C22. On an element whose class text has no repeated token, the operations of the class list are those of a set:
  \<open>contains\<close> tests membership, \<open>add\<close> inserts the token and \<open>remove\<close> deletes it, \<open>toggle\<close> deletes a token of the set and inserts any other (so two
  toggles restore the set), and a text without a change keeps its spelling. An empty token or one with white space is refused by all of them.
\<close>

theorem classlist_refines_set:
  assumes "no_repeats text"
  shows "(valid_token t \<longrightarrow>
      class_contains t (classListGetter text) = Inr (t \<in> class_set text)
      \<and> (\<exists>u. on_element (class_add t) text = Inr u \<and> class_set u = insert t (class_set text) \<and> no_repeats u
           \<and> (t \<in> class_set text \<longrightarrow> u = text))
      \<and> (\<exists>u. on_element (class_remove t) text = Inr u \<and> class_set u = class_set text - {t} \<and> no_repeats u
           \<and> (t \<notin> class_set text \<longrightarrow> u = text))
      \<and> (\<exists>u. on_element (class_toggle t) text = Inr u \<and> no_repeats u
           \<and> class_set u = (if t \<in> class_set text then class_set text - {t} else insert t (class_set text)))
      \<and> (\<exists>u. js_bind (on_element (class_toggle t) text) (on_element (class_toggle t)) = Inr u \<and> class_set u = class_set text))
    \<and> (\<not> valid_token t \<longrightarrow>
        (\<exists>e. class_contains t (classListGetter text) = Inl e \<and> on_element (class_add t) text = Inl e
          \<and> on_element (class_remove t) text = Inl e \<and> on_element (class_toggle t) text = Inl e))"
proof (intro conjI impI)
  assume t: "valid_token t"
  show "class_contains t (classListGetter text) = Inr (t \<in> class_set text)"
    using t by (simp add: class_contains_def classListGetter_def class_set_def)
  show "\<exists>u. on_element (class_add t) text = Inr u \<and> class_set u = insert t (class_set text) \<and> no_repeats u
      \<and> (t \<in> class_set text \<longrightarrow> u = text)"
    using element_add [OF t, of "text"] element_classes.add_ok [OF assms t] by auto
  show "\<exists>u. on_element (class_remove t) text = Inr u \<and> class_set u = class_set text - {t} \<and> no_repeats u
      \<and> (t \<notin> class_set text \<longrightarrow> u = text)"
    using element_remove [OF t, of "text"] element_classes.remove_ok [OF assms t] by auto
  show "\<exists>u. on_element (class_toggle t) text = Inr u \<and> no_repeats u
      \<and> class_set u = (if t \<in> class_set text then class_set text - {t} else insert t (class_set text))"
    using element_classes.toggle_ok [OF assms t] by blast
  show "\<exists>u. js_bind (on_element (class_toggle t) text) (on_element (class_toggle t)) = Inr u \<and> class_set u = class_set text"
    using element_classes.toggle_twice [OF assms t] by blast
next
  assume "\<not> valid_token t"
  then obtain e where "checkTokenAndGetIndex (classListGetter text) t = Inl e" using checkToken_invalid by blast
  then show "\<exists>e. class_contains t (classListGetter text) = Inl e \<and> on_element (class_add t) text = Inl e
      \<and> on_element (class_remove t) text = Inl e \<and> on_element (class_toggle t) text = Inl e"
    by (simp add: class_contains_def on_element_def class_add_def class_remove_def class_toggle_def)
qed

theorem classlist_refines_set_witness:
  "no_repeats '' line  disabled'' \<and> (\<exists>u. on_element (class_remove ''disabled'') '' line  disabled'' = Inr u \<and> class_set u = {''line''})"
proof -
  have c: "classes_of '' line  disabled'' = [''line'', ''disabled'']"
    by (simp add: classes_of_def strTrim_def is_space_def)
  then have n: "no_repeats '' line  disabled''" by (simp add: no_repeats_def)
  have "valid_token ''disabled''" by (simp add: valid_token_def is_space_def)
  with n classlist_refines_set [OF n, of "''disabled''"] c show ?thesis by (auto simp: class_set_def)
qed

text \<open>
  \<open>remove\<close> deletes one occurrence only: a token that the class text repeats is still there afterwards.
\<close>

theorem classlist_remove_keeps_repeats:
  assumes "valid_token t"
  shows "\<exists>u. on_element (class_remove t) text = Inr u \<and> (t \<in> class_set u \<longleftrightarrow> 2 \<le> count_list (classes_of text) t)"
proof -
  have "t \<in> set (remove1 t xs) \<longleftrightarrow> 2 \<le> count_list xs t" for xs
    by (induction xs) (auto simp: count_list_0_iff Suc_le_eq simp flip: neq0_conv)
  then show ?thesis using element_remove [OF assms, of "text"] by (metis class_set_def)
qed

theorem classlist_remove_keeps_repeats_witness:
  "\<exists>u. on_element (class_remove ''a'') ''a b a'' = Inr u \<and> ''a'' \<in> class_set u"
proof -
  have "classes_of ''a b a'' = [''a'', ''b'', ''a'']" by (simp add: classes_of_def strTrim_def is_space_def)
  moreover have "valid_token ''a''" by (simp add: valid_token_def is_space_def)
  ultimately show ?thesis using classlist_remove_keeps_repeats [of "''a''" "''a b a''"] by auto
qed

end
