(* ===== verification/ClassSystem.thy ===== *)
theory ClassSystem
  imports ClassList
begin

text \<open>
  \<open>Rickshaw.Class\<close>: classes with inheritance over prototypes. Prototype objects and classes live in stores; a property holds a function,
  a function wrapped with access to the method it overrides, or something else. A function is known by a number and by its
  source text, since \<open>addMethods\<close> reads the names of its parameters from there. What a body computes is an argument,
  \<open>sem\<close>: it is given the overridden method if the function was wrapped.

  The theorem of this theory is that classes made with \<open>create\<close> behave like classes: a call finds the nearest
  definition up the chain of superclasses, and \<open>$super\<close> is the next one above it.
\<close>

section \<open>Parameter names\<close>

text \<open>\<open>/^[\s\(]*function[^(]*\(([^)]*)\)/\<close>: the text between the first parentheses; no match makes \<open>[1]\<close> a type error.\<close>

definition parameter_text :: "string \<Rightarrow> string js" where
  "parameter_text s =
     (let t = dropWhile (\<lambda>c. is_space c \<or> c = CHR ''('') s in
      if \<not> prefix ''function'' t then Inl TypeError
      else case dropWhile (\<lambda>c. c \<noteq> CHR ''('') (drop 8 t) of
             [] \<Rightarrow> Inl TypeError
           | _ # u \<Rightarrow> if CHR '')'' \<in> set u then Inr (takeWhile (\<lambda>c. c \<noteq> CHR '')'') u) else Inl TypeError)"

definition is_line_end :: "char \<Rightarrow> bool" where
  "is_line_end c = (c = CHR 0x0A \<or> c = CHR 0x0D)"

text \<open>Removal of comments: a line comment needs its line end and a block comment its end, or it stays.\<close>

fun block_end :: "string \<Rightarrow> string option" where
  "block_end (a # b # s) = (if a = CHR ''*'' \<and> b = CHR ''/'' then Some s else block_end (b # s))"
| "block_end _ = None"

lemma block_end_shorter: "block_end s = Some t \<Longrightarrow> length t < length s"
  by (induction s rule: block_end.induct) (auto split: if_splits)

function strip_comments :: "string \<Rightarrow> string" where
  "strip_comments [] = []"
| "strip_comments [c] = [c]"
| "strip_comments (a # b # s) =
     (if a = CHR ''/'' \<and> b = CHR ''/'' \<and> list_ex is_line_end s then strip_comments (tl (dropWhile (\<lambda>c. \<not> is_line_end c) s))
      else if a = CHR ''/'' \<and> b = CHR ''*'' then (case block_end s of Some t \<Rightarrow> strip_comments t | None \<Rightarrow> a # strip_comments (b # s))
      else a # strip_comments (b # s))"
  by pat_completeness auto
termination
proof (relation "measure length")
  fix s
  have "length (tl (dropWhile (\<lambda>c. \<not> is_line_end c) s)) \<le> length s"
    by (metis diff_le_self le_trans length_dropWhile_le length_tl)
  then show "(tl (dropWhile (\<lambda>c. \<not> is_line_end c) s), a # b # s) \<in> measure length" for a b by simp
qed (auto dest: block_end_shorter)

definition argumentNames :: "string \<Rightarrow> string list js" where
  "argumentNames fn =
     js_bind (parameter_text fn) (\<lambda>t.
       let names = split_on CHR '','' (filter (\<lambda>c. \<not> is_space c) (strip_comments t))
       in Inr (if length names = 1 \<and> hd names = [] then [] else names))"

definition wants_super :: "string \<Rightarrow> bool js" where
  "wants_super fn = js_bind (argumentNames fn) (\<lambda>names. Inr (names \<noteq> [] \<and> hd names = ''$super''))"

section \<open>State\<close>

text \<open>
  The values of properties: functions (with their text), wrapped methods, the empty function, constructors, values that count as false
  (\<open>Falsy\<close>), and all others. The properties every object inherits from \<open>Object.prototype\<close> are not part of the model: a
  lookup ends at the root prototype, so the statements are about names that \<open>Object.prototype\<close> does not have.
\<close>

datatype pval = Func nat string | Wrapped nat string nat | Empty | Constructor nat | Falsy | Other nat

definition is_falsy :: "pval option \<Rightarrow> bool" where
  "is_falsy v = (v = None \<or> v = Some Falsy)"

record proto =
  own :: "(string \<times> pval) list"
  up :: "nat option"

text \<open>A native class such as \<open>Array\<close> has no list of subclasses; pushing to it throws, and the code ignores that.\<close>

record klass =
  superclass :: "nat option"
  subclasses :: "nat list option"
  prototype :: nat

record world =
  protos :: "proto list"
  classes :: "klass list"

definition put :: "string \<Rightarrow> pval \<Rightarrow> (string \<times> pval) list \<Rightarrow> (string \<times> pval) list" where
  "put k v ps = (k, v) # filter (\<lambda>(k', _). k' \<noteq> k) ps"

definition set_own :: "nat \<Rightarrow> string \<Rightarrow> pval \<Rightarrow> world \<Rightarrow> world" where
  "set_own p k v w = w\<lparr>protos := (protos w)[p := (protos w ! p)\<lparr>own := put k v (own (protos w ! p))\<rparr>]\<rparr>"

text \<open>Property lookup: a prototype is made after the one above it, so its number is larger.\<close>

function lookup :: "world \<Rightarrow> nat \<Rightarrow> string \<Rightarrow> pval option" where
  "lookup w p k =
     (case map_of (own (protos w ! p)) k of
        Some v \<Rightarrow> Some v
      | None \<Rightarrow> (case up (protos w ! p) of None \<Rightarrow> None | Some q \<Rightarrow> if q < p then lookup w q k else None))"
  by pat_completeness auto
termination
  by (relation "measure (\<lambda>(w, p, k). p)") auto

declare lookup.simps [simp del]

section \<open>addMethods and create\<close>

text \<open>A source is the properties of the object in the order of \<open>keys\<close>, which throws for anything but an object.\<close>

definition method_value :: "nat option \<Rightarrow> string \<Rightarrow> pval \<Rightarrow> pval js" where
  "method_value ancestor property v =
     (case (ancestor, v) of
        (Some a, Func f fn) \<Rightarrow> js_bind (wants_super fn) (\<lambda>b. Inr (if b then Wrapped a property f else v))
      | _ \<Rightarrow> Inr v)"

definition ancestor_of :: "world \<Rightarrow> nat \<Rightarrow> nat option" where
  "ancestor_of w k = map_option (\<lambda>s. prototype (classes w ! s)) (superclass (classes w ! k))"

definition addMethods :: "(string \<times> pval) list option \<Rightarrow> nat \<Rightarrow> world \<Rightarrow> world js" where
  "addMethods source k w =
     (case source of
        None \<Rightarrow> Inl TypeError
      | Some properties \<Rightarrow>
          for_each (\<lambda>(property, v) w.
              js_bind (method_value (ancestor_of w k) property v) (\<lambda>v'. Inr (set_own (prototype (classes w ! k)) property v' w)))
            properties w)"

definition new_klass :: "nat option \<Rightarrow> world \<Rightarrow> world" where
  "new_klass parent w =
     (let k = length (classes w);
          p = \<lparr>own = [], up = map_option (\<lambda>s. prototype (classes w ! s)) parent\<rparr>;
          cs = (case parent of
                  None \<Rightarrow> classes w
                | Some s \<Rightarrow> (classes w)[s := (classes w ! s)\<lparr>subclasses := map_option (\<lambda>ks. ks @ [k]) (subclasses (classes w ! s))\<rparr>])
      in w\<lparr>protos := protos w @ [p], classes := cs @ [\<lparr>superclass = parent, subclasses = Some [], prototype = length (protos w)\<rparr>]\<rparr>)"

definition js_create :: "nat option \<Rightarrow> (string \<times> pval) list option list \<Rightarrow> world \<Rightarrow> world js" where
  "js_create parent properties w =
     (let k = length (classes w); p = length (protos w) in
      js_bind (for_each (\<lambda>source. addMethods source k) properties (new_klass parent w))
        (\<lambda>w. let w' = (if is_falsy (lookup w p ''initialize'') then set_own p ''initialize'' Empty w else w)
             in Inr (set_own p ''constructor'' (Constructor k) w')))"

section \<open>Calls\<close>

text \<open>
  A call of a property: a wrapped function gets the method of that name looked up from the prototype above, at the
  time of the call. The empty function returns what \<open>nothing\<close> says; anything that is not a function is a type error.
\<close>

function invoke :: "(nat \<Rightarrow> ('a \<Rightarrow> 'b js) option \<Rightarrow> 'a \<Rightarrow> 'b js) \<Rightarrow> ('a \<Rightarrow> 'b) \<Rightarrow> world \<Rightarrow> nat \<Rightarrow> string \<Rightarrow> 'a \<Rightarrow> 'b js" where
  "invoke sem nothing w p m x =
     (case lookup w p m of
        Some (Func f _) \<Rightarrow> sem f None x
      | Some (Wrapped a m' f) \<Rightarrow> if a < p then sem f (Some (invoke sem nothing w a m')) x else Inl TypeError
      | Some Empty \<Rightarrow> Inr (nothing x)
      | _ \<Rightarrow> Inl TypeError)"
  by pat_completeness auto
termination
  by (relation "measure (\<lambda>(sem, nothing, w, p, m, x). p)") auto

declare invoke.simps [simp del]

section \<open>Classes as their users see them\<close>

text \<open>
  A class is the list of method tables from itself to its root. A call runs the first definition found; a definition whose first
  parameter is \<open>$super\<close> gets the call of the same name in the tables above it, if there are any.
\<close>

type_synonym table = "string \<Rightarrow> pval option"

fun dispatch :: "(nat \<Rightarrow> ('a \<Rightarrow> 'b js) option \<Rightarrow> 'a \<Rightarrow> 'b js) \<Rightarrow> ('a \<Rightarrow> 'b) \<Rightarrow> table list \<Rightarrow> string \<Rightarrow> 'a \<Rightarrow> 'b js" where
  "dispatch sem nothing [] m = (\<lambda>x. Inl TypeError)"
| "dispatch sem nothing (t # ts) m =
     (case t m of
        None \<Rightarrow> dispatch sem nothing ts m
      | Some (Func f fn) \<Rightarrow> sem f (if ts \<noteq> [] \<and> wants_super fn = Inr True then Some (dispatch sem nothing ts m) else None)
      | Some Empty \<Rightarrow> (\<lambda>x. Inr (nothing x))
      | _ \<Rightarrow> (\<lambda>x. Inl TypeError))"

text \<open>How a property of a prototype stands for an entry of a table.\<close>

fun stands_for :: "nat option \<Rightarrow> string \<Rightarrow> pval option \<Rightarrow> pval option \<Rightarrow> bool" where
  "stands_for (Some a) m (Some (Func f fn)) v =
     (wants_super fn = Inr True \<and> v = Some (Wrapped a m f) \<or> wants_super fn = Inr False \<and> v = Some (Func f fn))"
| "stands_for anc m (Some (Wrapped a k f)) v = False"
| "stands_for anc m entry v = (v = entry)"

fun represents :: "world \<Rightarrow> nat \<Rightarrow> table list \<Rightarrow> bool" where
  "represents w p [] = False"
| "represents w p (t # ts) = (p < length (protos w)
     \<and> (case up (protos w ! p) of None \<Rightarrow> ts = [] | Some q \<Rightarrow> q < p \<and> represents w q ts)
     \<and> (\<forall>m. stands_for (up (protos w ! p)) m (t m) (map_of (own (protos w ! p)) m)))"

lemma represents_tail: "represents w p (t # ts) \<Longrightarrow> up (protos w ! p) = None \<longleftrightarrow> ts = []"
  by (cases ts) (auto split: option.splits)

lemma invoke_up:
  assumes "map_of (own (protos w ! p)) m = None" and "up (protos w ! p) = Some q" and "q < p"
    and "\<forall>a k f. lookup w q m = Some (Wrapped a k f) \<longrightarrow> a < q"
  shows "invoke sem nothing w p m = invoke sem nothing w q m"
proof
  fix x
  have "lookup w p m = lookup w q m" using assms(1-3) by (simp add: lookup.simps [of w p m])
  then show "invoke sem nothing w p m x = invoke sem nothing w q m x"
    using assms(3,4) by (auto simp: invoke.simps [of sem nothing w p m] invoke.simps [of sem nothing w q m] split: option.splits pval.splits)
qed

lemma wrapped_below: "represents w p ts \<Longrightarrow> lookup w p m = Some (Wrapped a k f) \<Longrightarrow> a < p"
proof (induction w p ts rule: represents.induct)
  case (2 w p t ts)
  show ?case
  proof (cases "map_of (own (protos w ! p)) m")
    case None
    with 2 show ?thesis by (auto simp: lookup.simps [of w p m] split: option.splits if_splits)
  next
    case (Some v)
    with 2 have "stands_for (up (protos w ! p)) m (t m) (Some (Wrapped a k f))"
      by (auto simp: lookup.simps [of w p m]) metis
    then obtain q where "up (protos w ! p) = Some q" "a = q"
      by (cases "(up (protos w ! p), m, t m, Some (Wrapped a k f))" rule: stands_for.cases) auto
    with 2(2) show ?thesis by auto
  qed
qed simp

lemma invoke_dispatch: "represents w p ts \<Longrightarrow> invoke sem nothing w p m = dispatch sem nothing ts m"
proof (induction ts arbitrary: p)
  case (Cons t ts)
  let ?v = "map_of (own (protos w ! p)) m"
  have st: "stands_for (up (protos w ! p)) m (t m) ?v" using Cons.prems by simp
  show ?case
  proof (cases "up (protos w ! p)")
    case None
    then have "ts = []" "?v = t m" using Cons.prems st by (auto, cases "t m" rule: option.exhaust) (auto elim: stands_for.elims)
    with None st show ?thesis
      by (auto simp: fun_eq_iff invoke.simps [of sem nothing w p m] lookup.simps [of w p m] split: option.splits pval.splits)
  next
    case (Some q)
    then have q: "q < p" "represents w q ts" using Cons.prems by auto
    then have "ts \<noteq> []" by auto
    have ih: "invoke sem nothing w q m = dispatch sem nothing ts m" using Cons.IH [OF q(2)] .
    show ?thesis
    proof (cases "t m")
      case None
      then have "?v = None" using st Some by simp
      from invoke_up [OF this Some q(1), of sem nothing] wrapped_below [OF q(2)] ih None show ?thesis by simp
    next
      case entry: (Some v)
      show ?thesis
      proof (cases v)
        case (Func f fn)
        with st entry Some have "wants_super fn = Inr True \<and> ?v = Some (Wrapped q m f) \<or> wants_super fn = Inr False \<and> ?v = Some v" by simp
        then have "invoke sem nothing w p m x = dispatch sem nothing (t # ts) m x" for x
          using Func entry q(1) \<open>ts \<noteq> []\<close>
          by (elim disjE) (simp_all add: invoke.simps [of sem nothing w p m x] lookup.simps [of w p m] ih)
        then show ?thesis ..
      qed (use st entry Some in \<open>auto simp: fun_eq_iff invoke.simps [of sem nothing w p m] lookup.simps [of w p m]\<close>)
    qed
  qed
qed simp

lemma represents_cong:
  "represents w p ts \<Longrightarrow> \<forall>q \<le> p. protos w' ! q = protos w ! q \<Longrightarrow> length (protos w) \<le> length (protos w') \<Longrightarrow> represents w' p ts"
proof (induction w p ts rule: represents.induct)
  case (2 w p t ts)
  then show ?case by (auto split: option.splits)
qed simp

section \<open>What addMethods and create build\<close>

text \<open>A value a source may have: no wrapper, and in a subclass every function written with the keyword \<open>function\<close>.\<close>

fun good_value :: "bool \<Rightarrow> pval \<Rightarrow> bool" where
  "good_value derived (Func f fn) = (derived \<longrightarrow> (\<exists>b. wants_super fn = Inr b))"
| "good_value derived (Wrapped a m f) = False"
| "good_value derived _ = True"

definition enter :: "(string \<times> pval) list \<Rightarrow> table \<Rightarrow> table" where
  "enter props t = fold (\<lambda>(k, v) t. t(k := Some v)) props t"

definition own_table :: "world \<Rightarrow> nat \<Rightarrow> table \<Rightarrow> bool" where
  "own_table w p t = (\<forall>m. stands_for (up (protos w ! p)) m (t m) (map_of (own (protos w ! p)) m))"

lemma map_of_put [simp]: "map_of (put k v ps) = (map_of ps)(k \<mapsto> v)"
proof -
  have "map_of (filter (\<lambda>(k', _). k' \<noteq> k) ps) m = (if m = k then None else map_of ps m)" for m by (induction ps) auto
  then show ?thesis by (auto simp: put_def fun_eq_iff)
qed

lemma method_value_ok:
  "good_value (anc \<noteq> None) v \<Longrightarrow> \<exists>v'. method_value anc m v = Inr v' \<and> stands_for anc m (Some v) (Some v')"
  by (cases anc; cases v) (auto simp: method_value_def)

lemma set_own_protos [simp]:
  "p < length (protos w) \<Longrightarrow> protos (set_own p k v w) ! p = (protos w ! p)\<lparr>own := put k v (own (protos w ! p))\<rparr>"
  "q \<noteq> p \<Longrightarrow> protos (set_own p k v w) ! q = protos w ! q"
  "length (protos (set_own p k v w)) = length (protos w)" "classes (set_own p k v w) = classes w"
  by (simp_all add: set_own_def)

lemma own_table_put:
  assumes "own_table w p t" and "p < length (protos w)" and "stands_for (up (protos w ! p)) k (Some v) (Some v')"
  shows "own_table (set_own p k v' w) p (t(k := Some v))"
  using assms by (auto simp: own_table_def)

definition only_changes :: "nat \<Rightarrow> world \<Rightarrow> world \<Rightarrow> bool" where
  "only_changes p w w' = (classes w' = classes w \<and> length (protos w') = length (protos w) \<and> (\<forall>q. q \<noteq> p \<longrightarrow> protos w' ! q = protos w ! q)
     \<and> up (protos w' ! p) = up (protos w ! p))"

lemma only_changes_refl [simp]: "only_changes p w w"
  by (simp add: only_changes_def)

lemma only_changes_trans: "only_changes p u v \<Longrightarrow> only_changes p v w \<Longrightarrow> only_changes p u w"
  by (simp add: only_changes_def)

lemma only_changes_set: "p < length (protos w) \<Longrightarrow> only_changes p w (set_own p k v w)"
  by (simp add: only_changes_def)

lemma addMethods_ok:
  assumes "prototype (classes w ! k) = p" and "p < length (protos w)" and "ancestor_of w k = up (protos w ! p)" and "own_table w p t"
    and "\<forall>(m, v) \<in> set props. good_value (up (protos w ! p) \<noteq> None) v"
  shows "\<exists>w'. addMethods (Some props) k w = Inr w' \<and> only_changes p w w' \<and> own_table w' p (enter props t)"
proof -
  let ?f = "\<lambda>(property, v) w. js_bind (method_value (ancestor_of w k) property v) (\<lambda>v'. Inr (set_own (prototype (classes w ! k)) property v' w))"
  have "\<exists>w'. for_each ?f props w = Inr w' \<and> only_changes p w w' \<and> own_table w' p (enter props t)"
    using assms
  proof (induction props arbitrary: w t)
    case Nil
    then show ?case by (simp add: enter_def)
  next
    case (Cons mv props)
    obtain m v where mv: "mv = (m, v)" by fastforce
    obtain v' where v': "method_value (up (protos w ! p)) m v = Inr v'" "stands_for (up (protos w ! p)) m (Some v) (Some v')"
      using method_value_ok [of "up (protos w ! p)" v m] Cons.prems(5) mv by auto
    let ?u = "set_own p m v' w"
    have u: "?f mv w = Inr ?u" using v'(1) Cons.prems(1,3) mv by simp
    have c: "only_changes p w ?u" using Cons.prems(2) by (rule only_changes_set)
    have "ancestor_of ?u k = up (protos ?u ! p)" using Cons.prems(2,3) by (simp add: ancestor_of_def)
    moreover have "own_table ?u p (t(m := Some v))" by (rule own_table_put [OF Cons.prems(4,2) v'(2)])
    moreover have "prototype (classes ?u ! k) = p" "p < length (protos ?u)"
      "\<forall>(m, v) \<in> set props. good_value (up (protos ?u ! p) \<noteq> None) v" using Cons.prems(1,2,5) by simp_all
    ultimately obtain w' where "for_each ?f props ?u = Inr w'" "only_changes p ?u w'" "own_table w' p (enter props (t(m := Some v)))"
      using Cons.IH [of ?u "t(m := Some v)"] by blast
    then show ?case using u only_changes_trans [OF c] mv by (auto simp: enter_def)
  qed
  then show ?thesis by (simp add: addMethods_def)
qed

lemma addMethods_all:
  assumes "prototype (classes w ! k) = p" and "p < length (protos w)" and "ancestor_of w k = up (protos w ! p)" and "own_table w p t"
    and "\<forall>props \<in> set sources. \<forall>(m, v) \<in> set props. good_value (up (protos w ! p) \<noteq> None) v"
  shows "\<exists>w'. for_each (\<lambda>source. addMethods source k) (map Some sources) w = Inr w' \<and> only_changes p w w'
    \<and> own_table w' p (enter (concat sources) t)"
  using assms
proof (induction sources arbitrary: w t)
  case Nil
  then show ?case by (simp add: enter_def)
next
  case (Cons props sources)
  obtain u where u: "addMethods (Some props) k w = Inr u" "only_changes p w u" "own_table u p (enter props t)"
    using addMethods_ok [OF Cons.prems(1-4), of props] Cons.prems(5) by auto
  have "prototype (classes u ! k) = p" "p < length (protos u)" "ancestor_of u k = up (protos u ! p)" "up (protos u ! p) = up (protos w ! p)"
    using u(2) Cons.prems(1-3) by (auto simp: only_changes_def ancestor_of_def)
  then obtain w' where "for_each (\<lambda>source. addMethods source k) (map Some sources) u = Inr w'" "only_changes p u w'"
    "own_table w' p (enter (concat sources) (enter props t))"
    using Cons.IH [of u "enter props t"] u(3) Cons.prems(5) by auto
  then show ?case using u only_changes_trans [OF u(2)] by (auto simp: enter_def)
qed

fun find_method :: "table list \<Rightarrow> string \<Rightarrow> pval option" where
  "find_method [] m = None"
| "find_method (t # ts) m = (case t m of None \<Rightarrow> find_method ts m | Some v \<Rightarrow> Some v)"

lemma lookup_find: "represents w p ts \<Longrightarrow> is_falsy (lookup w p m) \<longleftrightarrow> is_falsy (find_method ts m)"
proof (induction ts arbitrary: p)
  case (Cons t ts)
  have st: "stands_for (up (protos w ! p)) m (t m) (map_of (own (protos w ! p)) m)" using Cons.prems by simp
  then have "map_of (own (protos w ! p)) m = None \<longleftrightarrow> t m = None" "map_of (own (protos w ! p)) m = Some Falsy \<longleftrightarrow> t m = Some Falsy"
    by (auto elim: stands_for.elims)
  then show ?case using Cons by (auto simp: lookup.simps [of w p m] is_falsy_def split: option.splits)
qed simp

text \<open>The table of a new class over its superclass: the sources in order, a default \<open>initialize\<close>, and \<open>constructor\<close>.\<close>

definition class_table :: "nat \<Rightarrow> (string \<times> pval) list list \<Rightarrow> table list \<Rightarrow> table" where
  "class_table k sources ts =
     (let t = enter (concat sources) Map.empty;
          t' = (if is_falsy (find_method (t # ts) ''initialize'') then t(''initialize'' \<mapsto> Empty) else t)
      in t'(''constructor'' \<mapsto> Constructor k))"

definition parent_tables :: "world \<Rightarrow> nat option \<Rightarrow> table list \<Rightarrow> bool" where
  "parent_tables w parent ts = (case parent of None \<Rightarrow> ts = [] | Some s \<Rightarrow> s < length (classes w) \<and> represents w (prototype (classes w ! s)) ts)"

lemma represents_length: "represents w p ts \<Longrightarrow> p < length (protos w)"
  by (cases ts) auto

lemma represents_new:
  assumes "p < length (protos w)" and "own_table w p t" and "case up (protos w ! p) of None \<Rightarrow> ts = [] | Some q \<Rightarrow> q < p \<and> represents w q ts"
  shows "represents w p (t # ts)"
  using assms by (simp add: own_table_def)

declare represents.simps [simp del]

lemma create_represents:
  assumes par: "parent_tables w parent ts" and good: "\<forall>props \<in> set sources. \<forall>(m, v) \<in> set props. good_value (parent \<noteq> None) v"
  shows "\<exists>w'. js_create parent (map Some sources) w = Inr w'
    \<and> prototype (classes w' ! length (classes w)) = length (protos w)
    \<and> represents w' (length (protos w)) (class_table (length (classes w)) sources ts # ts)
    \<and> (\<forall>p us. represents w p us \<longrightarrow> represents w' p us)"
proof -
  let ?p = "length (protos w)" and ?k = "length (classes w)" and ?t = "enter (concat sources) Map.empty"
  define u where "u = new_klass parent w"
  have up: "up (protos u ! ?p) = map_option (\<lambda>s. prototype (classes w ! s)) parent" "own (protos u ! ?p) = []"
    "length (protos u) = Suc ?p" "\<forall>q < ?p. protos u ! q = protos w ! q"
    by (auto simp: u_def new_klass_def Let_def nth_append)
  have k: "prototype (classes u ! ?k) = ?p" "superclass (classes u ! ?k) = parent"
    by (auto simp: u_def new_klass_def Let_def nth_append split: option.split)
  have "prototype (classes u ! s) = prototype (classes w ! s)" if "parent = Some s" for s
    using par that by (simp add: u_def new_klass_def Let_def nth_append parent_tables_def)
  then have anc: "ancestor_of u ?k = up (protos u ! ?p)" using k(2) up(1) by (cases parent) (auto simp: ancestor_of_def)
  have "own_table u ?p Map.empty" using up(2) by (simp add: own_table_def)
  then obtain v where v: "for_each (\<lambda>source. addMethods source ?k) (map Some sources) u = Inr v" "only_changes ?p u v" "own_table v ?p ?t"
    using addMethods_all [OF k(1) _ anc, of Map.empty sources] good up by auto
  have keep: "represents v' q us" if "represents w q us" and "only_changes ?p u v'" for v' q us
    by (rule represents_cong [OF that(1)]) (use that represents_length [OF that(1)] up in \<open>auto simp: only_changes_def\<close>)
  have chain: "case up (protos v' ! ?p) of None \<Rightarrow> ts = [] | Some q \<Rightarrow> q < ?p \<and> represents v' q ts" if "only_changes ?p u v'" for v'
    using par up(1) keep that represents_length by (auto simp: parent_tables_def only_changes_def split: option.splits)
  have new: "represents v' ?p (t # ts)" if "only_changes ?p u v'" "own_table v' ?p t" for v' t
    by (rule represents_new) (use that up chain in \<open>auto simp: only_changes_def\<close>)
  define w1 where "w1 = (if is_falsy (lookup v ?p ''initialize'') then set_own ?p ''initialize'' Empty v else v)"
  define t1 where "t1 = (if is_falsy (find_method (?t # ts) ''initialize'') then ?t(''initialize'' \<mapsto> Empty) else ?t)"
  have len: "?p < length (protos v)" using v(2) up(3) by (simp add: only_changes_def)
  have "is_falsy (lookup v ?p ''initialize'') \<longleftrightarrow> is_falsy (find_method (?t # ts) ''initialize'')"
    by (rule lookup_find) (rule new [OF v(2,3)])
  moreover have "own_table (set_own ?p ''initialize'' Empty v) ?p (?t(''initialize'' \<mapsto> Empty))" by (rule own_table_put [OF v(3) len]) simp
  ultimately have w1: "own_table w1 ?p t1" "only_changes ?p u w1"
    using v(2,3) only_changes_trans [OF v(2) only_changes_set [OF len]] by (auto simp: w1_def t1_def)
  let ?w = "set_own ?p ''constructor'' (Constructor ?k) w1"
  have len1: "?p < length (protos w1)" using w1(2) up(3) by (simp add: only_changes_def)
  have o: "only_changes ?p u ?w" by (rule only_changes_trans [OF w1(2) only_changes_set [OF len1]])
  have "own_table ?w ?p (t1(''constructor'' \<mapsto> Constructor ?k))" by (rule own_table_put [OF w1(1) len1]) simp
  then have "represents ?w ?p (class_table ?k sources ts # ts)" using new [OF o] by (simp only: class_table_def t1_def Let_def)
  moreover have "js_create parent (map Some sources) w = Inr ?w"
    using v(1) by (simp add: js_create_def u_def w1_def Let_def)
  moreover have "prototype (classes ?w ! ?k) = ?p" using o k(1) by (simp add: only_changes_def)
  ultimately show ?thesis using keep [OF _ o] by blast
qed

section \<open>Properties\<close>

text \<open>
  C11. A class made with \<open>create\<close> behaves as a class: a call on it runs the nearest definition from the class itself up to the root,
  where among several sources the last one counts; a definition that asks for \<open>$super\<close> gets the call of the same method one class
  higher; and calls on all classes that existed before are the same as they were.
\<close>

theorem class_dispatch:
  assumes "parent_tables w parent ts" and "\<forall>props \<in> set sources. \<forall>(m, v) \<in> set props. good_value (parent \<noteq> None) v"
  shows "\<exists>w'. js_create parent (map Some sources) w = Inr w'
    \<and> invoke sem nothing w' (prototype (classes w' ! length (classes w))) m = dispatch sem nothing (class_table (length (classes w)) sources ts # ts) m
    \<and> (\<forall>p us. represents w p us \<longrightarrow> invoke sem nothing w' p m = invoke sem nothing w p m)"
proof -
  obtain w' where "js_create parent (map Some sources) w = Inr w'" "prototype (classes w' ! length (classes w)) = length (protos w)"
    "represents w' (length (protos w)) (class_table (length (classes w)) sources ts # ts)" "\<forall>p us. represents w p us \<longrightarrow> represents w' p us"
    using create_represents [OF assms] by blast
  then show ?thesis using invoke_dispatch [of w'] invoke_dispatch [of w] by metis
qed

theorem class_dispatch_witness:
  "\<exists>w'. js_create None (map Some [[(''render'', Func 0 ''function(args) {}'')]]) \<lparr>protos = [], classes = []\<rparr> = Inr w'
     \<and> invoke (\<lambda>f s x. if s = None then Inr (f, x) else Inl TypeError) (\<lambda>x. (9, x)) w' (prototype (classes w' ! 0)) ''render'' (5 :: nat) = Inr (0, 5)"
proof -
  let ?t = "class_table 0 [[(''render'', Func 0 ''function(args) {}'')]] []"
  have "parent_tables \<lparr>protos = [], classes = []\<rparr> None []" by (simp add: parent_tables_def)
  moreover have "?t ''render'' = Some (Func 0 ''function(args) {}'')" by (simp add: class_table_def enter_def Let_def)
  ultimately show ?thesis
    using class_dispatch [of "\<lparr>protos = [], classes = []\<rparr>" None "[]" "[[(''render'', Func 0 ''function(args) {}'')]]"
        "\<lambda>f s (x :: nat). if s = None then Inr (f, x) else Inl TypeError" "\<lambda>x. (9, x)" "''render''"]
    by auto
qed

text \<open>
  In a subclass every function must be written with the keyword \<open>function\<close>: one whose text has another form, such as an arrow function,
  makes \<open>addMethods\<close> throw a type error, while a class without a superclass accepts it.
\<close>

theorem arrow_functions_rejected:
  assumes "\<not> prefix ''function'' (dropWhile (\<lambda>c. is_space c \<or> c = CHR ''('') fn)"
  shows "method_value (Some a) m (Func f fn) = Inl TypeError \<and> method_value None m (Func f fn) = Inr (Func f fn)"
  using assms by (simp add: method_value_def wants_super_def argumentNames_def parameter_text_def Let_def)

theorem arrow_functions_rejected_witness: "method_value (Some 0) ''render'' (Func 1 ''(args) => 1'') = Inl TypeError"
  using arrow_functions_rejected [of "''(args) => 1''" 0 "''render''" 1] by (simp add: is_space_def)

end
