(* ===== verification/Legend.thy ===== *)
theory Legend
  imports ClassList "HOL-Library.Multiset"
begin

text \<open>
  \<open>Rickshaw.Graph.Legend\<close> and the behaviours that act through its lines: \<open>Highlight\<close>, \<open>Toggle\<close> and \<open>Order\<close>. Series, list
  elements and lines are objects that several parts share and change, so each kind lives in a store and is referred to by
  its position. The array of the graph's series holds references; \<open>None\<close> is \<open>undefined\<close>, which \<open>Order\<close> can write into it.
  An update of the graph is counted; what it draws is the matter of the graph.
\<close>

section \<open>State\<close>

text \<open>\<open>s_unstack\<close> is \<open>series.renderer.unstack\<close>, absent without a renderer; \<open>s_toggles\<close> says that \<open>enable\<close> and \<open>disable\<close> were added.\<close>

record lseries =
  s_name :: string
  s_color :: "string option"
  s_disabled :: bool
  s_noLegend :: bool
  s_className :: string
  s_unstack :: "bool option"
  s_toggles :: bool

record li =
  li_class :: string
  li_swatch :: "string option"
  li_label :: string
  li_hidden :: bool
  li_series :: nat
  li_anchor :: bool

record legend_line =
  ln_element :: nat
  ln_series :: nat
  ln_originalIndex :: "int option"

record legend =
  lg_store :: "lseries list"
  lg_series :: "nat option list"
  lg_unstack :: bool
  lg_lis :: "li list"
  lg_objs :: "legend_line list"
  lg_class :: string
  lg_naturalOrder :: bool
  lg_list :: "nat list"
  lg_lines :: "nat list"
  lg_shelving :: bool
  lg_highlighter :: bool
  lg_anchored :: "nat list"
  lg_highlighted :: "nat list"
  lg_colorSafe :: "string \<rightharpoonup> string"
  lg_activeLine :: "nat option"
  lg_updates :: nat
  lg_onUpdates :: nat

definition set_series :: "nat \<Rightarrow> (lseries \<Rightarrow> lseries) \<Rightarrow> legend \<Rightarrow> legend" where
  "set_series i f st = st\<lparr>lg_store := (lg_store st)[i := f (lg_store st ! i)]\<rparr>"

definition set_li :: "nat \<Rightarrow> (li \<Rightarrow> li) \<Rightarrow> legend \<Rightarrow> legend" where
  "set_li i f st = st\<lparr>lg_lis := (lg_lis st)[i := f (lg_lis st ! i)]\<rparr>"

definition set_line :: "nat \<Rightarrow> (legend_line \<Rightarrow> legend_line) \<Rightarrow> legend \<Rightarrow> legend" where
  "set_line i f st = st\<lparr>lg_objs := (lg_objs st)[i := f (lg_objs st ! i)]\<rparr>"

definition graph_update :: "legend \<Rightarrow> legend" where
  "graph_update st = st\<lparr>lg_updates := Suc (lg_updates st)\<rparr>"

text \<open>\<open>element.classList.op(token)\<close> on a list element.\<close>

definition li_classList :: "(class_list \<Rightarrow> class_list js) \<Rightarrow> nat \<Rightarrow> legend \<Rightarrow> legend js" where
  "li_classList f i st = js_bind (on_element f (li_class (lg_lis st ! i))) (\<lambda>c. Inr (set_li i (\<lambda>e. e\<lparr>li_class := c\<rparr>) st))"

section \<open>Toggle\<close>

definition series_disable :: "nat \<Rightarrow> legend \<Rightarrow> legend js" where
  "series_disable s st =
     (if \<not> s_toggles (lg_store st ! s) then Inl TypeError
      else if length (lg_series st) \<le> 1 then Inl (Thrown ''only one series left'')
      else Inr (set_series s (\<lambda>x. x\<lparr>s_disabled := True\<rparr>) st))"

definition series_enable :: "nat \<Rightarrow> legend \<Rightarrow> legend js" where
  "series_enable s st =
     (if \<not> s_toggles (lg_store st ! s) then Inl TypeError
      else Inr (set_series s (\<lambda>x. x\<lparr>s_disabled := False\<rparr>) st))"

definition addBehavior :: "legend \<Rightarrow> legend js" where
  "addBehavior st =
     for_each (\<lambda>r st. case r of None \<Rightarrow> Inl TypeError | Some s \<Rightarrow> Inr (set_series s (\<lambda>x. x\<lparr>s_toggles := True\<rparr>) st))
       (lg_series st) st"

text \<open>\<open>addAnchor\<close> puts an anchor into the element and handlers on the anchor and on the label.\<close>

definition addAnchor :: "nat \<Rightarrow> legend \<Rightarrow> legend" where
  "addAnchor l st =
     (set_li (ln_element (lg_objs st ! l)) (\<lambda>e. e\<lparr>li_anchor := True\<rparr>) st)\<lparr>lg_anchored := lg_anchored st @ [l]\<rparr>"

definition new_toggle :: "bool \<Rightarrow> legend \<Rightarrow> legend js" where
  "new_toggle has_legend st = addBehavior (if has_legend then fold addAnchor (lg_lines st) st else st)"

fun enabled_count :: "lseries list \<Rightarrow> nat option list \<Rightarrow> nat js" where
  "enabled_count store [] = Inr 0"
| "enabled_count store (None # rs) = Inl TypeError"
| "enabled_count store (Some s # rs) =
     js_bind (enabled_count store rs) (\<lambda>n. Inr (if s_disabled (store ! s) then n else Suc n))"

definition disable_line :: "nat \<Rightarrow> legend \<Rightarrow> legend js" where
  "disable_line l st =
     js_bind (series_disable (ln_series (lg_objs st ! l)) st) (li_classList (class_add ''disabled'') (ln_element (lg_objs st ! l)))"

definition enable_line :: "nat \<Rightarrow> legend \<Rightarrow> legend js" where
  "enable_line l st =
     js_bind (series_enable (ln_series (lg_objs st ! l)) st) (li_classList (class_remove ''disabled'') (ln_element (lg_objs st ! l)))"

definition anchor_onclick :: "nat \<Rightarrow> legend \<Rightarrow> legend js" where
  "anchor_onclick l st =
     (if s_disabled (lg_store st ! ln_series (lg_objs st ! l))
      then js_bind (enable_line l st) (\<lambda>st. Inr (graph_update st))
      else js_bind (enabled_count (lg_store st) (lg_series st))
        (\<lambda>n. if n \<le> 1 then Inr st else js_bind (disable_line l st) (\<lambda>st. Inr (graph_update st))))"

definition disableAllOtherLines :: "nat \<Rightarrow> legend \<Rightarrow> bool" where
  "disableAllOtherLines l st =
     (s_disabled (lg_store st ! ln_series (lg_objs st ! l))
      \<or> list_ex (\<lambda>k. ln_series (lg_objs st ! l) \<noteq> ln_series (lg_objs st ! k) \<and> \<not> s_disabled (lg_store st ! ln_series (lg_objs st ! k)))
          (lg_lines st))"

definition label_onclick :: "nat \<Rightarrow> legend \<Rightarrow> legend js" where
  "label_onclick l st =
     js_bind
       (if disableAllOtherLines l st
        then js_bind (enable_line l st)
          (for_each (\<lambda>k st. if ln_series (lg_objs st ! l) = ln_series (lg_objs st ! k) then Inr st else disable_line k st) (lg_lines st))
        else for_each enable_line (lg_lines st) st)
       (\<lambda>st. Inr (graph_update st))"

section \<open>Highlight\<close>

definition addHighlightEvents :: "nat \<Rightarrow> legend \<Rightarrow> legend" where
  "addHighlightEvents l st = st\<lparr>lg_highlighted := lg_highlighted st @ [l]\<rparr>"

definition new_highlight :: "bool \<Rightarrow> legend \<Rightarrow> legend" where
  "new_highlight has_legend st =
     (let st = st\<lparr>lg_colorSafe := Map.empty, lg_activeLine := None\<rparr>
      in if has_legend then fold addHighlightEvents (lg_lines st) st else st)"

text \<open>\<open>indexOf\<close> with -1 for a missing element, and \<open>splice\<close>, which counts a negative start from the end.\<close>

fun js_indexOf :: "'a \<Rightarrow> 'a list \<Rightarrow> int" where
  "js_indexOf a [] = -1"
| "js_indexOf a (x # xs) = (if x = a then 0 else if js_indexOf a xs = -1 then -1 else js_indexOf a xs + 1)"

definition splice_start :: "int \<Rightarrow> 'a list \<Rightarrow> nat" where
  "splice_start i xs = nat (if i < 0 then max 0 (int (length xs) + i) else min i (int (length xs)))"

text \<open>The active line goes to the end of the array; \<open>splice\<close> of nothing gives \<open>undefined\<close>.\<close>

definition bring_to_top :: "nat \<Rightarrow> legend \<Rightarrow> legend" where
  "bring_to_top l st =
     (let seriesIndex = js_indexOf (Some (ln_series (lg_objs st ! l))) (lg_series st);
          (removed, rest) = splice_remove (splice_start seriesIndex (lg_series st)) 1 (lg_series st);
          series = (case removed of [] \<Rightarrow> None | r # _ \<Rightarrow> r)
      in (set_line l (\<lambda>x. x\<lparr>ln_originalIndex := Some seriesIndex\<rparr>) st)\<lparr>lg_series := rest @ [series]\<rparr>)"

definition or_color :: "string option \<Rightarrow> string option \<Rightarrow> string option" where
  "or_color a b = (case a of None \<Rightarrow> b | Some c \<Rightarrow> if c = [] then b else a)"

definition fade :: "(string option \<Rightarrow> string option) \<Rightarrow> nat \<Rightarrow> legend \<Rightarrow> legend" where
  "fade disabledColor k st =
     (let s = ln_series (lg_objs st ! k); x = lg_store st ! s
      in (set_series s (\<lambda>x. x\<lparr>s_color := disabledColor (s_color x)\<rparr>) st)
           \<lparr>lg_colorSafe := (lg_colorSafe st)(s_name x := or_color (lg_colorSafe st (s_name x)) (s_color x))\<rparr>)"

definition over_line :: "(string option \<Rightarrow> string option) \<Rightarrow> nat \<Rightarrow> nat \<Rightarrow> legend \<Rightarrow> legend" where
  "over_line disabledColor l k st =
     (if k = l
      then if lg_unstack st \<and> s_unstack (lg_store st ! ln_series (lg_objs st ! l)) \<noteq> Some False then bring_to_top l st else st
      else fade disabledColor k st)"

definition on_mouseover :: "(string option \<Rightarrow> string option) \<Rightarrow> nat \<Rightarrow> legend \<Rightarrow> legend" where
  "on_mouseover disabledColor l st =
     (if lg_activeLine st \<noteq> None then st
      else graph_update (fold (over_line disabledColor l) (lg_lines st) (st\<lparr>lg_activeLine := Some l\<rparr>)))"

definition put_back :: "nat \<Rightarrow> legend \<Rightarrow> legend" where
  "put_back l st =
     (case ln_originalIndex (lg_objs st ! l) of
        None \<Rightarrow> st
      | Some i \<Rightarrow>
          let series = (if lg_series st = [] then None else last (lg_series st)); rest = butlast (lg_series st)
          in (set_line l (\<lambda>x. x\<lparr>ln_originalIndex := None\<rparr>) st)\<lparr>lg_series := splice_insert (splice_start i rest) series rest\<rparr>)"

definition restore_color :: "nat \<Rightarrow> legend \<Rightarrow> legend" where
  "restore_color k st =
     (let s = ln_series (lg_objs st ! k)
      in case lg_colorSafe st (s_name (lg_store st ! s)) of
           None \<Rightarrow> st
         | Some c \<Rightarrow> if c = [] then st else set_series s (\<lambda>x. x\<lparr>s_color := Some c\<rparr>) st)"

definition on_mouseleave :: "nat \<Rightarrow> legend \<Rightarrow> legend" where
  "on_mouseleave l st =
     (if lg_activeLine st = None then st
      else graph_update (fold (\<lambda>k st. restore_color k (if k = l then put_back l st else st)) (lg_lines st) (st\<lparr>lg_activeLine := None\<rparr>)))"

section \<open>Order\<close>

text \<open>The handler of a finished sort: the elements of the list from the first to the last, into the array from the end.\<close>

definition shift_into :: "nat \<Rightarrow> nat list \<times> nat option list \<Rightarrow> nat list \<times> nat option list" where
  "shift_into i p =
     (case fst p of [] \<Rightarrow> ([], (snd p)[i := None]) | s # ss \<Rightarrow> (ss, (snd p)[i := Some s]))"

definition order_update :: "legend \<Rightarrow> legend" where
  "order_update st =
     (let series = map (\<lambda>e. li_series (lg_lis st ! e)) (lg_list st)
      in graph_update (st\<lparr>lg_series := snd (fold shift_into (rev [0 ..< length (lg_series st)]) (series, lg_series st))\<rparr>))"

definition new_order :: "bool \<Rightarrow> bool \<Rightarrow> legend \<Rightarrow> legend js" where
  "new_order jQuery jQuery_ui st =
     (if \<not> jQuery then Inl (Thrown ''couldn't find jQuery at window.jQuery'')
      else if \<not> jQuery_ui then Inl (Thrown ''couldn't find jQuery UI at window.jQuery.ui'')
      else Inr (st\<lparr>lg_onUpdates := Suc (lg_onUpdates st)\<rparr>))"

section \<open>Legend\<close>

text \<open>\<open>classed\<close> is d3's addition of the class names of a series.\<close>

definition new_li :: "(string \<Rightarrow> string \<Rightarrow> string) \<Rightarrow> nat \<Rightarrow> lseries \<Rightarrow> li" where
  "new_li classed i s =
     (let c = ''line'' @ (if s_disabled s then '' disabled'' else '''')
      in \<lparr>li_class = (if s_className s \<noteq> [] then classed (s_className s) c else c), li_swatch = s_color s, li_label = s_name s,
          li_hidden = s_noLegend s, li_series = i, li_anchor = False\<rparr>)"

definition addLine :: "(string \<Rightarrow> string \<Rightarrow> string) \<Rightarrow> nat \<Rightarrow> legend \<Rightarrow> legend js" where
  "addLine classed s st =
     (let e = length (lg_lis st); l = length (lg_objs st);
          st = st\<lparr>lg_lis := lg_lis st @ [new_li classed s (lg_store st ! s)], lg_list := lg_list st @ [e],
                  lg_objs := lg_objs st @ [\<lparr>ln_element = e, ln_series = s, ln_originalIndex = None\<rparr>]\<rparr>
      in js_bind (if lg_shelving st then addBehavior (addAnchor l st) else Inr st)
           (\<lambda>st. let st = (if lg_highlighter st then addHighlightEvents l st else st)
                 in Inr (st\<lparr>lg_lines := lg_lines st @ [l]\<rparr>)))"

definition render_legend :: "(string \<Rightarrow> string \<Rightarrow> string) \<Rightarrow> legend \<Rightarrow> legend js" where
  "render_legend classed st =
     for_each (\<lambda>r st. case r of None \<Rightarrow> Inl TypeError | Some s \<Rightarrow> addLine classed s st)
       (if lg_naturalOrder st then lg_series st else rev (lg_series st)) (st\<lparr>lg_list := [], lg_lines := []\<rparr>)"

definition new_legend :: "(string \<Rightarrow> string \<Rightarrow> string) \<Rightarrow> bool \<Rightarrow> legend \<Rightarrow> legend js" where
  "new_legend classed naturalOrder st =
     js_bind (on_element (class_add ''rickshaw_legend'') (lg_class st))
       (\<lambda>c. js_bind (render_legend classed (st\<lparr>lg_class := c, lg_naturalOrder := naturalOrder\<rparr>))
         (\<lambda>st. Inr (st\<lparr>lg_onUpdates := Suc (lg_onUpdates st)\<rparr>)))"

section \<open>Toggling keeps the legend and the graph together\<close>

definition line_series :: "legend \<Rightarrow> nat \<Rightarrow> nat" where
  "line_series st l = ln_series (lg_objs st ! l)"

definition line_li :: "legend \<Rightarrow> nat \<Rightarrow> nat" where
  "line_li st l = ln_element (lg_objs st ! l)"

definition dis :: "legend \<Rightarrow> nat \<Rightarrow> bool" where
  "dis st s = s_disabled (lg_store st ! s)"

text \<open>The lines show the series of the graph, one line each, and a line is marked exactly when its series is disabled.\<close>

definition line_ok :: "legend \<Rightarrow> nat \<Rightarrow> bool" where
  "line_ok st l = (let s = line_series st l; e = line_li st l; c = li_class (lg_lis st ! e)
     in l < length (lg_objs st) \<and> s < length (lg_store st) \<and> e < length (lg_lis st) \<and> s_toggles (lg_store st ! s)
        \<and> no_repeats c \<and> (''disabled'' \<in> class_set c \<longleftrightarrow> dis st s))"

definition legend_wf :: "legend \<Rightarrow> bool" where
  "legend_wf st = (mset (lg_series st) = mset (map (Some \<circ> line_series st) (lg_lines st))
     \<and> distinct (map (line_series st) (lg_lines st)) \<and> distinct (map (line_li st) (lg_lines st))
     \<and> (\<forall>l \<in> set (lg_lines st). line_ok st l))"

definition frame :: "legend \<Rightarrow> nat list \<times> legend_line list \<times> nat option list" where
  "frame st = (lg_lines st, lg_objs st, lg_series st)"

definition set_flag :: "bool \<Rightarrow> nat \<Rightarrow> string \<Rightarrow> legend \<Rightarrow> legend" where
  "set_flag b l c st = set_li (line_li st l) (\<lambda>e. e\<lparr>li_class := c\<rparr>) (set_series (line_series st l) (\<lambda>x. x\<lparr>s_disabled := b\<rparr>) st)"

lemma valid_disabled [simp]: "valid_token ''disabled''"
  by (simp add: valid_token_def is_space_def)

lemma set_flag_wf:
  assumes wf: "legend_wf st" and l: "l \<in> set (lg_lines st)" and c: "no_repeats c" "''disabled'' \<in> class_set c \<longleftrightarrow> b"
  shows "legend_wf (set_flag b l c st)" "frame (set_flag b l c st) = frame st"
    "dis (set_flag b l c st) = (dis st)(line_series st l := b)"
proof -
  let ?t = "set_flag b l c st"
  have lens: "l < length (lg_objs st)" "line_series st l < length (lg_store st)" "line_li st l < length (lg_lis st)"
    using wf l by (auto simp: legend_wf_def line_ok_def Let_def)
  have eq: "lg_objs ?t = lg_objs st" "lg_lines ?t = lg_lines st" "lg_series ?t = lg_series st"
    "lg_store ?t = (lg_store st)[line_series st l := (lg_store st ! line_series st l)\<lparr>s_disabled := b\<rparr>]"
    "lg_lis ?t = (lg_lis st)[line_li st l := (lg_lis st ! line_li st l)\<lparr>li_class := c\<rparr>]"
    by (simp_all add: set_flag_def set_li_def set_series_def)
  then have ls: "line_series ?t = line_series st" "line_li ?t = line_li st"
    by (simp_all add: fun_eq_iff line_series_def line_li_def)
  show "frame ?t = frame st" by (simp add: frame_def eq)
  show d: "dis ?t = (dis st)(line_series st l := b)"
    using lens by (auto simp: fun_eq_iff dis_def eq nth_list_update)
  have "line_ok ?t k" if k: "k \<in> set (lg_lines st)" for k
  proof (cases "k = l")
    case True
    have "line_ok st l" using wf l by (simp add: legend_wf_def)
    with True lens c show ?thesis
      by (simp add: line_ok_def ls d eq Let_def)
  next
    case False
    have "line_ok st k" using wf k by (simp add: legend_wf_def)
    moreover have "line_series st k \<noteq> line_series st l" "line_li st k \<noteq> line_li st l"
      using wf k l False by (auto simp: legend_wf_def distinct_map inj_on_def)
    ultimately show ?thesis
      by (simp add: line_ok_def ls d eq Let_def)
  qed
  then show "legend_wf ?t" using wf by (simp add: legend_wf_def eq ls)
qed

lemma li_classList_after:
  "lg_lis (set_series s f st) = lg_lis st" "lg_objs (set_series s f st) = lg_objs st"
  by (simp_all add: set_series_def)

definition flips :: "bool \<Rightarrow> nat set \<Rightarrow> legend \<Rightarrow> legend \<Rightarrow> bool" where
  "flips b A st st' = (legend_wf st' \<and> frame st' = frame st \<and> (\<forall>s. dis st' s = (if s \<in> A then b else dis st s)))"

lemma enable_line_ok:
  assumes "legend_wf st" and "l \<in> set (lg_lines st)"
  shows "\<exists>st'. enable_line l st = Inr st' \<and> flips False {line_series st l} st st'"
proof -
  have ok: "line_ok st l" using assms by (simp add: legend_wf_def)
  obtain c where c: "on_element (class_remove ''disabled'') (li_class (lg_lis st ! line_li st l)) = Inr c" "no_repeats c"
    "class_set c = class_set (li_class (lg_lis st ! line_li st l)) - {''disabled''}"
    using element_classes.remove_ok [of _ "''disabled''"] ok by (auto simp: line_ok_def Let_def)
  then have "enable_line l st = Inr (set_flag False l c st)"
    using ok by (simp add: enable_line_def series_enable_def li_classList_def li_classList_after set_flag_def line_ok_def
        line_series_def line_li_def Let_def)
  with c show ?thesis using set_flag_wf [OF assms, of c False] by (auto simp: flips_def)
qed

lemma disable_line_ok:
  assumes "legend_wf st" and "l \<in> set (lg_lines st)" and "2 \<le> length (lg_series st)"
  shows "\<exists>st'. disable_line l st = Inr st' \<and> flips True {line_series st l} st st'"
proof -
  have ok: "line_ok st l" using assms by (simp add: legend_wf_def)
  obtain c where c: "on_element (class_add ''disabled'') (li_class (lg_lis st ! line_li st l)) = Inr c" "no_repeats c"
    "class_set c = insert ''disabled'' (class_set (li_class (lg_lis st ! line_li st l)))"
    using element_classes.add_ok [of _ "''disabled''"] ok by (auto simp: line_ok_def Let_def)
  then have "disable_line l st = Inr (set_flag True l c st)"
    using ok assms(3) by (simp add: disable_line_def series_disable_def li_classList_def li_classList_after set_flag_def line_ok_def
        line_series_def line_li_def Let_def)
  with c show ?thesis using set_flag_wf [OF assms(1,2), of c True] by (auto simp: flips_def)
qed

lemma flips_trans: "flips b A s t \<Longrightarrow> flips b B t u \<Longrightarrow> flips b (A \<union> B) s u"
  by (auto simp: flips_def)

lemma frame_line_series: "frame st' = frame st \<Longrightarrow> line_series st' = line_series st \<and> lg_lines st' = lg_lines st \<and> lg_series st' = lg_series st"
  by (auto simp: frame_def line_series_def)

lemma for_each_flips:
  assumes step: "\<And>k t. k \<in> set ks \<Longrightarrow> legend_wf t \<Longrightarrow> frame t = frame st \<Longrightarrow> \<exists>t'. f k t = Inr t' \<and> flips b (A k) t t'"
    and "legend_wf t" and "frame t = frame st"
  shows "\<exists>t'. for_each f ks t = Inr t' \<and> flips b (\<Union> (A ` set ks)) t t'"
  using assms
proof (induction ks arbitrary: t)
  case Nil
  then show ?case by (simp add: flips_def)
next
  case (Cons k ks)
  obtain u where u: "f k t = Inr u" "flips b (A k) t u" using Cons.prems(1) [of k t] Cons.prems(2,3) by auto
  then have "legend_wf u" "frame u = frame st" using Cons.prems(3) by (auto simp: flips_def)
  then obtain t' where "for_each f ks u = Inr t'" "flips b (\<Union> (A ` set ks)) u t'"
    using Cons.IH [of u] Cons.prems(1) by auto
  with u flips_trans show ?case by auto
qed

text \<open>What the legend promises: the set of the series that are shown.\<close>

datatype click = Anchor nat | Label nat

fun click_on :: "click \<Rightarrow> legend \<Rightarrow> legend js" where
  "click_on (Anchor l) st = anchor_onclick l st"
| "click_on (Label l) st = label_onclick l st"

fun clicked :: "click \<Rightarrow> nat" where
  "clicked (Anchor l) = l"
| "clicked (Label l) = l"

definition lined :: "legend \<Rightarrow> nat set" where
  "lined st = line_series st ` set (lg_lines st)"

definition shown :: "legend \<Rightarrow> nat set" where
  "shown st = {s \<in> lined st. \<not> dis st s}"

fun spec_click :: "legend \<Rightarrow> click \<Rightarrow> nat set \<Rightarrow> nat set" where
  "spec_click st (Anchor l) S =
     (let s = line_series st l in if s \<notin> S then insert s S else if card S \<le> 1 then S else S - {s})"
| "spec_click st (Label l) S = (if S = {line_series st l} then lined st else {line_series st l})"

lemma enabled_count_map: "enabled_count store (map Some ss) = Inr (length (filter (\<lambda>s. \<not> s_disabled (store ! s)) ss))"
  by (induction ss) auto

lemma wf_series:
  assumes "legend_wf st"
  obtains ss where "lg_series st = map Some ss" "distinct ss" "set ss = lined st" "length ss = length (lg_lines st)"
proof -
  have m: "mset (lg_series st) = mset (map Some (map (line_series st) (lg_lines st)))"
    using assms by (simp add: legend_wf_def comp_def)
  then have "mset (map the (lg_series st)) = mset (map (line_series st) (lg_lines st))"
    by (metis (no_types, lifting) list.map_comp list.map_id0 mset_map option.sel comp_def eq_id_iff id_apply)
  moreover have "\<forall>r \<in> set (lg_series st). r \<noteq> None" using mset_eq_setD [OF m] by auto
  then have "lg_series st = map Some (map the (lg_series st))" by (simp add: map_idI)
  ultimately show thesis
    using that [of "map the (lg_series st)"] assms
    by (metis legend_wf_def length_map lined_def list.set_map m mset_eq_imp_distinct_iff mset_eq_length mset_eq_setD)
qed

lemma enabled_count_shown:
  assumes "legend_wf st"
  shows "enabled_count (lg_store st) (lg_series st) = Inr (card (shown st))"
proof -
  obtain ss where ss: "lg_series st = map Some ss" "distinct ss" "set ss = lined st" using wf_series [OF assms] by blast
  have "card (shown st) = length (filter (\<lambda>s. \<not> dis st s) ss)"
    using ss(2) distinct_card [of "filter (\<lambda>s. \<not> dis st s) ss"] by (simp add: shown_def flip: ss(3))
  then show ?thesis by (simp add: ss(1) enabled_count_map dis_def)
qed

lemma graph_update_fields [simp]:
  "lg_series (graph_update st) = lg_series st" "lg_store (graph_update st) = lg_store st" "lg_lines (graph_update st) = lg_lines st"
  "lg_objs (graph_update st) = lg_objs st" "lg_lis (graph_update st) = lg_lis st"
  "line_series (graph_update st) = line_series st" "line_li (graph_update st) = line_li st" "dis (graph_update st) = dis st"
  by (simp_all add: graph_update_def fun_eq_iff line_series_def line_li_def dis_def)

lemma graph_update_frame [simp]:
  "legend_wf (graph_update st) = legend_wf st" "frame (graph_update st) = frame st"
  by (simp_all add: legend_wf_def line_ok_def frame_def)

lemma flips_update: "flips b A st st' \<Longrightarrow> flips b A st (graph_update st')"
  by (simp add: flips_def)

lemma flips_shown:
  assumes "flips b A st st'"
  shows "lined st' = lined st" "shown st' = (if b then shown st - A else shown st \<union> (A \<inter> lined st))"
proof -
  show l: "lined st' = lined st" using assms frame_line_series [of st' st] by (auto simp: flips_def lined_def)
  show "shown st' = (if b then shown st - A else shown st \<union> (A \<inter> lined st))"
    using assms by (auto simp: shown_def l flips_def)
qed

lemma finite_shown [simp]: "finite (shown st)"
  by (simp add: shown_def lined_def)

lemma anchor_ok:
  assumes wf: "legend_wf st" and l: "l \<in> set (lg_lines st)"
  shows "\<exists>st'. anchor_onclick l st = Inr st' \<and> legend_wf st' \<and> frame st' = frame st \<and> shown st' = spec_click st (Anchor l) (shown st)"
proof (cases "dis st (line_series st l)")
  case True
  then obtain u where u: "enable_line l st = Inr u" "flips False {line_series st l} st u" using enable_line_ok [OF wf l] by blast
  have "anchor_onclick l st = Inr (graph_update u)"
    using True u(1) by (simp add: anchor_onclick_def dis_def line_series_def)
  moreover have "line_series st l \<notin> shown st" "line_series st l \<in> lined st" using True l by (auto simp: shown_def lined_def)
  ultimately show ?thesis using flips_update [OF u(2)] flips_shown [OF flips_update [OF u(2)]] by (auto simp: flips_def)
next
  case False
  have s: "line_series st l \<in> shown st" using False l by (auto simp: shown_def lined_def)
  show ?thesis
  proof (cases "card (shown st) \<le> 1")
    case True
    with False s wf show ?thesis by (simp add: anchor_onclick_def dis_def line_series_def enabled_count_shown)
  next
    case many: False
    obtain ss where ss: "lg_series st = map Some ss" "distinct ss" "set ss = lined st" using wf_series [OF wf] by blast
    have "card (shown st) \<le> card (lined st)" by (rule card_mono) (auto simp: shown_def lined_def)
    also have "\<dots> = length (lg_series st)" using distinct_card [OF ss(2)] by (simp add: ss flip: ss(3))
    finally have "2 \<le> length (lg_series st)" using many by simp
    then obtain u where u: "disable_line l st = Inr u" "flips True {line_series st l} st u"
      using disable_line_ok [OF wf l] by blast
    have "anchor_onclick l st = Inr (graph_update u)"
      using False many u(1) wf by (simp add: anchor_onclick_def dis_def line_series_def enabled_count_shown)
    then show ?thesis
      using s many flips_update [OF u(2)] flips_shown [OF flips_update [OF u(2)]] by (auto simp: flips_def)
  qed
qed

lemma disable_others:
  assumes wf: "legend_wf st" and l: "l \<in> set (lg_lines st)"
  shows "\<exists>st'. for_each (\<lambda>k t. if ln_series (lg_objs t ! l) = ln_series (lg_objs t ! k) then Inr t else disable_line k t) (lg_lines st) st = Inr st'
    \<and> flips True (lined st - {line_series st l}) st st'"
proof -
  let ?A = "\<lambda>k. if line_series st l = line_series st k then {} else {line_series st k}"
  have "\<exists>t'. (if ln_series (lg_objs t ! l) = ln_series (lg_objs t ! k) then Inr t else disable_line k t) = Inr t' \<and> flips True (?A k) t t'"
    if k: "k \<in> set (lg_lines st)" and t: "legend_wf t" "frame t = frame st" for k t
  proof (cases "line_series st l = line_series st k")
    case True
    with t show ?thesis using frame_line_series [OF t(2)] by (auto simp: flips_def line_series_def fun_eq_iff)
  next
    case False
    have "{k, l} \<subseteq> set (lg_lines st)" "k \<noteq> l" using k l False by auto
    then have "2 \<le> card (set (lg_lines st))" by (metis card_2_iff card_mono List.finite_set)
    also have "\<dots> \<le> length (lg_lines st)" by (rule card_length)
    finally have "2 \<le> length (lg_series t)"
      using wf_series [OF wf] frame_line_series [OF t(2)] by (metis length_map)
    then show ?thesis
      using disable_line_ok [OF t(1), of k] False k frame_line_series [OF t(2)] by (auto simp: line_series_def fun_eq_iff)
  qed
  then obtain st' where
    "for_each (\<lambda>k t. if ln_series (lg_objs t ! l) = ln_series (lg_objs t ! k) then Inr t else disable_line k t) (lg_lines st) st = Inr st'"
    "flips True (\<Union> (?A ` set (lg_lines st))) st st'"
    using for_each_flips [where ks = "lg_lines st" and st = st and b = True and A = ?A
        and f = "\<lambda>k t. if ln_series (lg_objs t ! l) = ln_series (lg_objs t ! k) then Inr t else disable_line k t", OF _ wf refl] by blast
  moreover have "\<Union> (?A ` set (lg_lines st)) = lined st - {line_series st l}" by (auto simp: lined_def split: if_splits)
  ultimately show ?thesis by auto
qed

lemma label_ok:
  assumes wf: "legend_wf st" and l: "l \<in> set (lg_lines st)" and "shown st \<noteq> {}"
  shows "\<exists>st'. label_onclick l st = Inr st' \<and> legend_wf st' \<and> frame st' = frame st \<and> shown st' = spec_click st (Label l) (shown st)"
proof -
  let ?s = "line_series st l"
  have "disableAllOtherLines l st \<longleftrightarrow> dis st ?s \<or> (\<exists>k \<in> set (lg_lines st). line_series st k \<noteq> ?s \<and> \<not> dis st (line_series st k))"
    by (simp add: disableAllOtherLines_def dis_def line_series_def list_ex_iff) metis
  then have other: "disableAllOtherLines l st \<longleftrightarrow> shown st \<noteq> {?s}"
    unfolding shown_def lined_def set_eq_iff using l by auto
  have s: "?s \<in> lined st" using l by (simp add: lined_def)
  show ?thesis
  proof (cases "shown st = {?s}")
    case True
    have "\<exists>t'. enable_line k t = Inr t' \<and> flips False {line_series st k} t t'"
      if "k \<in> set (lg_lines st)" "legend_wf t" "frame t = frame st" for k t
      using enable_line_ok [of t k] frame_line_series [of t st] that by auto
    then obtain u where u: "for_each enable_line (lg_lines st) st = Inr u" "flips False (\<Union>k\<in>set (lg_lines st). {line_series st k}) st u"
      using for_each_flips [where f = enable_line and ks = "lg_lines st" and st = st and b = False and A = "\<lambda>k. {line_series st k}", OF _ wf refl]
      by blast
    moreover have "(\<Union>k\<in>set (lg_lines st). {line_series st k}) = lined st" by (auto simp: lined_def)
    ultimately have f: "flips False (lined st) st (graph_update u)" by (simp add: flips_update)
    have "label_onclick l st = Inr (graph_update u)" using True other u(1) by (simp add: label_onclick_def)
    then show ?thesis using f flips_shown(2) [OF f] True s by (auto simp: flips_def)
  next
    case False
    obtain u where u: "enable_line l st = Inr u" "flips False {?s} st u" using enable_line_ok [OF wf l] by blast
    then have fr: "frame u = frame st" "legend_wf u" by (auto simp: flips_def)
    then have fu: "line_series u = line_series st" "lg_lines u = lg_lines st" using frame_line_series by blast+
    obtain v where v: "for_each (\<lambda>k t. if ln_series (lg_objs t ! l) = ln_series (lg_objs t ! k) then Inr t else disable_line k t) (lg_lines u) u = Inr v"
      "flips True (lined u - {line_series u l}) u v" using disable_others [OF fr(2), of l] l fu by auto
    have "label_onclick l st = Inr (graph_update v)" using False other u(1) v(1) fu by (simp add: label_onclick_def)
    moreover have "shown (graph_update v) = {?s}"
      using flips_shown [OF flips_update [OF v(2)]] flips_shown [OF u(2)] s by (auto simp: fu shown_def)
    ultimately show ?thesis using False flips_update [OF v(2)] fr by (auto simp: flips_def)
  qed
qed

lemma click_ok:
  assumes "legend_wf st" and "shown st \<noteq> {}" and "clicked c \<in> set (lg_lines st)"
  shows "\<exists>st'. click_on c st = Inr st' \<and> legend_wf st' \<and> frame st' = frame st \<and> shown st' = spec_click st c (shown st)
    \<and> shown st' \<noteq> {}"
proof -
  have "spec_click st c (shown st) \<noteq> {}"
  proof (cases c)
    case (Anchor l)
    have "shown st - {s} \<noteq> {}" if "1 < card (shown st)" for s
      by (metis One_nat_def card_1_singleton_iff card_mono finite.intros(1,2) insert_not_empty that Diff_eq_empty_iff card_Suc_eq card.empty not_less
          is_singletonI is_singleton_altdef le_numeral_extra(4) nat_less_le)
    then show ?thesis using Anchor assms(2) by (auto simp: Let_def)
  next
    case (Label l)
    then show ?thesis using assms(3) by (auto simp: lined_def)
  qed
  then show ?thesis
    using assms anchor_ok [OF assms(1)] label_ok [OF assms(1) _ assms(2)] by (cases c) fastforce+
qed

lemma spec_click_frame: "frame st' = frame st \<Longrightarrow> spec_click st' c S = spec_click st c S"
  using frame_line_series [of st' st] by (cases c) (auto simp: lined_def)

section \<open>What a rendered legend lists\<close>

text \<open>The lines so far, after a rendering of the state \<open>st0\<close> has added the series \<open>ss\<close>. Only the toggle functions are new on the series.\<close>

definition same_series :: "lseries list \<Rightarrow> lseries list \<Rightarrow> bool" where
  "same_series xs ys = list_all2 (\<lambda>x y. y\<lparr>s_toggles := True\<rparr> = x\<lparr>s_toggles := True\<rparr> \<and> (s_toggles x \<longrightarrow> s_toggles y)) xs ys"

text \<open>A list element as it was made, before an anchor was put into it.\<close>

definition bare :: "li \<Rightarrow> li" where
  "bare x = x\<lparr>li_anchor := False\<rparr>"

lemma bare_simps [simp]:
  "li_class (bare x) = li_class x" "li_series (bare x) = li_series x" "bare (x\<lparr>li_anchor := b\<rparr>) = bare x" "bare (new_li classed i s) = new_li classed i s"
  by (simp_all add: bare_def new_li_def Let_def)

lemma bare_new_li:
  assumes "bare x = new_li classed i s"
  shows "li_series x = i" "li_label x = s_name s" "li_swatch x = s_color s" "li_hidden x = s_noLegend s" "li_class x = li_class (new_li classed i s)"
proof -
  have "li_series x = li_series (bare x)" "li_label x = li_label (bare x)" "li_swatch x = li_swatch (bare x)"
    "li_hidden x = li_hidden (bare x)" "li_class x = li_class (bare x)" by (simp_all add: bare_def)
  then show "li_series x = i" "li_label x = s_name s" "li_swatch x = s_color s" "li_hidden x = s_noLegend s" "li_class x = li_class (new_li classed i s)"
    unfolding assms by (simp_all add: new_li_def Let_def)
qed

definition lists_series :: "(string \<Rightarrow> string \<Rightarrow> string) \<Rightarrow> legend \<Rightarrow> nat list \<Rightarrow> legend \<Rightarrow> bool" where
  "lists_series classed st0 ss st = (lg_series st = lg_series st0 \<and> same_series (lg_store st0) (lg_store st)
     \<and> map (line_series st) (lg_lines st) = ss \<and> map (line_li st) (lg_lines st) = lg_list st
     \<and> map (\<lambda>e. li_series (lg_lis st ! e)) (lg_list st) = ss \<and> distinct (lg_list st)
     \<and> (\<forall>l \<in> set (lg_lines st). l < length (lg_objs st)) \<and> (\<forall>e \<in> set (lg_list st). e < length (lg_lis st))
     \<and> (\<forall>e \<in> set (lg_list st). let x = lg_lis st ! e in bare x = new_li classed (li_series x) (lg_store st0 ! li_series x)))"

lemma same_series_refl [simp]: "same_series xs xs"
  by (auto simp: same_series_def list_all2_refl)

lemma same_series_trans: "same_series xs ys \<Longrightarrow> same_series ys zs \<Longrightarrow> same_series xs zs"
  by (auto simp: same_series_def list_all2_conv_all_nth)

lemma same_series_nth:
  assumes "same_series xs ys" and "i < length xs"
  shows "i < length ys" "s_disabled (ys ! i) = s_disabled (xs ! i)" "new_li classed i (ys ! i) = new_li classed i (xs ! i)"
proof -
  have *: "(ys ! i)\<lparr>s_toggles := True\<rparr> = (xs ! i)\<lparr>s_toggles := True\<rparr>" "length xs = length ys"
    using assms by (auto simp: same_series_def list_all2_conv_all_nth)
  show "i < length ys" using assms(2) *(2) by simp
  show "s_disabled (ys ! i) = s_disabled (xs ! i)" using arg_cong [OF *(1), of s_disabled] by simp
  have "new_li classed i (x\<lparr>s_toggles := True\<rparr>) = new_li classed i x" for x by (simp add: new_li_def Let_def cong: if_cong)
  with arg_cong [OF *(1), of "new_li classed i"] show "new_li classed i (ys ! i) = new_li classed i (xs ! i)" by simp
qed

lemma addBehavior_ok:
  assumes "lg_series st = map Some gs" and "\<forall>g \<in> set gs. g < length (lg_store st)"
  shows "\<exists>store. addBehavior st = Inr (st\<lparr>lg_store := store\<rparr>) \<and> same_series (lg_store st) store \<and> (\<forall>g \<in> set gs. s_toggles (store ! g))"
proof -
  have "\<exists>store. for_each (\<lambda>r st. case r of None \<Rightarrow> Inl TypeError | Some s \<Rightarrow> Inr (set_series s (\<lambda>x. x\<lparr>s_toggles := True\<rparr>) st)) (map Some gs) t =
      Inr (t\<lparr>lg_store := store\<rparr>) \<and> same_series (lg_store t) store \<and> (\<forall>g \<in> set gs. s_toggles (store ! g))"
    if "\<forall>g \<in> set gs. g < length (lg_store t)" for t
    using that
  proof (induction gs arbitrary: t)
    case Nil
    show ?case by (intro exI [of _ "lg_store t"]) simp
  next
    case (Cons g gs)
    let ?u = "set_series g (\<lambda>x. x\<lparr>s_toggles := True\<rparr>) t"
    have su: "same_series (lg_store t) (lg_store ?u)"
      using Cons.prems by (auto simp: same_series_def list_all2_conv_all_nth set_series_def nth_list_update)
    have "\<forall>g \<in> set gs. g < length (lg_store ?u)" using Cons.prems by (simp add: set_series_def)
    from Cons.IH [OF this] obtain store where st: "for_each (\<lambda>r st. case r of None \<Rightarrow> Inl TypeError
          | Some s \<Rightarrow> Inr (set_series s (\<lambda>x. x\<lparr>s_toggles := True\<rparr>) st)) (map Some gs) ?u = Inr (?u\<lparr>lg_store := store\<rparr>)"
      "same_series (lg_store ?u) store" "\<forall>g \<in> set gs. s_toggles (store ! g)" by blast
    have "s_toggles (lg_store ?u ! g)" using Cons.prems by (simp add: set_series_def)
    moreover have "g < length (lg_store ?u)" using Cons.prems by (simp add: set_series_def)
    ultimately have "s_toggles (store ! g)" using st(2) by (auto simp: same_series_def list_all2_conv_all_nth)
    then show ?case using st same_series_trans [OF su st(2)] by (auto simp: set_series_def intro!: exI [of _ store])
  qed
  then show ?thesis using assms by (simp add: addBehavior_def)
qed

lemma addLine_ok:
  assumes "lists_series classed st0 ss st" and g: "lg_series st0 = map Some gs" "\<forall>g \<in> set gs. g < length (lg_store st0)"
    and s: "s < length (lg_store st0)"
  shows "\<exists>st'. addLine classed s st = Inr st' \<and> lists_series classed st0 (ss @ [s]) st'"
proof -
  let ?e = "length (lg_lis st)" and ?l = "length (lg_objs st)"
  define li where "li = new_li classed s (lg_store st ! s)"
  let ?o = "\<lparr>ln_element = ?e, ln_series = s, ln_originalIndex = None\<rparr>"
  let ?t = "st\<lparr>lg_lis := lg_lis st @ [li], lg_list := lg_list st @ [?e], lg_objs := lg_objs st @ [?o]\<rparr>"
  have st: "lg_series st = map Some gs" "same_series (lg_store st0) (lg_store st)"
    using assms(1) g(1) by (auto simp: lists_series_def)
  have gs: "\<forall>g \<in> set gs. g < length (lg_store st)" using g(2) st(2) same_series_nth(1) by blast
  have li: "li = new_li classed s (lg_store st0 ! s)" "li_series li = s"
    using same_series_nth(3) [OF st(2) s] by (simp_all add: li_def) (simp add: new_li_def Let_def)
  obtain b store an hi where "addLine classed s st = Inr (?t\<lparr>lg_lis := lg_lis st @ [li\<lparr>li_anchor := b\<rparr>], lg_store := store,
      lg_anchored := an, lg_highlighted := hi, lg_lines := lg_lines st @ [?l]\<rparr>)" "same_series (lg_store st) store"
  proof (cases "lg_shelving st")
    case True
    have a: "addAnchor ?l ?t = ?t\<lparr>lg_lis := lg_lis st @ [li\<lparr>li_anchor := True\<rparr>], lg_anchored := lg_anchored st @ [?l]\<rparr>"
      by (simp add: addAnchor_def set_li_def)
    obtain store where "addBehavior (addAnchor ?l ?t) = Inr ((addAnchor ?l ?t)\<lparr>lg_store := store\<rparr>)" "same_series (lg_store st) store"
      using addBehavior_ok [of "addAnchor ?l ?t" gs] st(1) gs unfolding a by auto
    with True show thesis
      using that [where b = True and store = store and an = "lg_anchored st @ [?l]" and hi = "if lg_highlighter st then lg_highlighted st @ [?l] else lg_highlighted st"]
      by (simp add: addLine_def a Let_def addHighlightEvents_def flip: li_def)
  next
    case False
    then show thesis
      using that [where b = "li_anchor li" and store = "lg_store st" and an = "lg_anchored st" and hi = "if lg_highlighter st then lg_highlighted st @ [?l] else lg_highlighted st"]
      by (simp add: addLine_def Let_def addHighlightEvents_def flip: li_def)
  qed
  moreover define t' where "t' = ?t\<lparr>lg_lis := lg_lis st @ [li\<lparr>li_anchor := b\<rparr>], lg_store := store,
      lg_anchored := an, lg_highlighted := hi, lg_lines := lg_lines st @ [?l]\<rparr>"
  have ls: "\<forall>l \<in> set (lg_lines st). l < length (lg_objs st)" "\<forall>e \<in> set (lg_list st). e < length (lg_lis st)"
    using assms(1) by (auto simp: lists_series_def)
  have m: "map (line_series t') (lg_lines st) = map (line_series st) (lg_lines st)"
    "map (line_li t') (lg_lines st) = map (line_li st) (lg_lines st)"
    "map (\<lambda>e. li_series (lg_lis t' ! e)) (lg_list st) = map (\<lambda>e. li_series (lg_lis st ! e)) (lg_list st)"
    "\<forall>e \<in> set (lg_list st). lg_lis t' ! e = lg_lis st ! e"
    using ls by (simp_all add: line_series_def line_li_def nth_append t'_def)
  have n: "line_series t' ?l = s" "line_li t' ?l = ?e" "li_series (lg_lis t' ! ?e) = s" "bare (lg_lis t' ! ?e) = bare li"
    "lg_lines t' = lg_lines st @ [?l]" "lg_list t' = lg_list st @ [?e]" "lg_series t' = lg_series st" "lg_store t' = store"
    "length (lg_objs t') = Suc ?l" "length (lg_lis t') = Suc ?e"
    using li(2) by (simp_all add: line_series_def line_li_def nth_append t'_def)
  have b: "bare li = li" by (simp add: li(1))
  have "lists_series classed st0 (ss @ [s]) t'"
    using assms(1) same_series_trans [OF st(2) \<open>same_series (lg_store st) store\<close>] li(1,2) m(4)
    unfolding lists_series_def n map_append m(1-3) Let_def by (auto simp: n b less_Suc_eq)
  ultimately show ?thesis by (auto simp: t'_def)
qed

lemma render_legend_ok:
  assumes g: "lg_series st = map Some gs" "\<forall>g \<in> set gs. g < length (lg_store st)"
  shows "\<exists>st'. render_legend classed st = Inr st' \<and> lists_series classed st (if lg_naturalOrder st then gs else rev gs) st'"
proof -
  have "\<exists>st'. for_each (\<lambda>r st. case r of None \<Rightarrow> Inl TypeError | Some s \<Rightarrow> addLine classed s st) (map Some ts) t = Inr st'
      \<and> lists_series classed st (ss @ ts) st'"
    if "lists_series classed st ss t" "set ts \<subseteq> set gs" for ss ts t
    using that
  proof (induction ts arbitrary: ss t)
    case (Cons s ts)
    then obtain u where "addLine classed s t = Inr u" "lists_series classed st (ss @ [s]) u"
      using addLine_ok [OF Cons.prems(1) g, of s] g(2) Cons.prems(2) by auto
    then show ?case using Cons.IH [of "ss @ [s]" u] Cons.prems(2) by simp
  qed simp
  from this [of "[]" "st\<lparr>lg_list := [], lg_lines := []\<rparr>" "if lg_naturalOrder st then gs else rev gs"]
  show ?thesis
    using g(1) by (cases "lg_naturalOrder st") (simp_all add: render_legend_def rev_map lists_series_def [of _ _ "[]"])
qed

lemma addAnchors_keep:
  "lg_lines (fold addAnchor ls st) = lg_lines st \<and> lg_objs (fold addAnchor ls st) = lg_objs st \<and> lg_series (fold addAnchor ls st) = lg_series st
    \<and> lg_store (fold addAnchor ls st) = lg_store st \<and> lg_list (fold addAnchor ls st) = lg_list st
    \<and> map bare (lg_lis (fold addAnchor ls st)) = map bare (lg_lis st)"
proof (induction ls arbitrary: st)
  case (Cons l ls)
  have "map bare (lg_lis (addAnchor l st)) = map bare (lg_lis st)"
    by (cases "ln_element (lg_objs st ! l) < length (lg_lis st)")
      (simp_all add: addAnchor_def set_li_def map_update list_update_beyond, metis length_map list_update_id nth_map)
  then show ?case using Cons [of "addAnchor l st"] by (simp add: addAnchor_def set_li_def)
qed simp

text \<open>What the anchors of \<open>fold addAnchor\<close> are: one handler per line, and an anchor in the element of every line.\<close>

lemma addAnchors_anchor:
  "lg_anchored (fold addAnchor ls st) = lg_anchored st @ ls
    \<and> (\<forall>l \<in> set ls. line_li st l < length (lg_lis st) \<longrightarrow> li_anchor (lg_lis (fold addAnchor ls st) ! line_li st l))
    \<and> (\<forall>e < length (lg_lis st). li_anchor (lg_lis st ! e) \<longrightarrow> li_anchor (lg_lis (fold addAnchor ls st) ! e))"
proof (induction ls arbitrary: st)
  case (Cons l ls)
  let ?u = "addAnchor l st"
  have u: "length (lg_lis ?u) = length (lg_lis st)" "line_li ?u = line_li st" "lg_anchored ?u = lg_anchored st @ [l]"
    "\<forall>e < length (lg_lis st). li_anchor (lg_lis st ! e) \<or> e = line_li st l \<longrightarrow> li_anchor (lg_lis ?u ! e)"
    by (cases "line_li st l < length (lg_lis st)";
        auto simp: addAnchor_def set_li_def line_li_def fun_eq_iff nth_list_update list_update_beyond)+
  show ?case using Cons.IH [of ?u] u by auto
qed simp

text \<open>What d3 does with class names: they are added to those the element has.\<close>

definition adds_classes :: "(string \<Rightarrow> string \<Rightarrow> string) \<Rightarrow> bool" where
  "adds_classes classed =
     (\<forall>c t. no_repeats t \<longrightarrow> no_repeats (classed c t) \<and> class_set (classed c t) = class_set t \<union> class_set c)"

lemma class_of_li:
  assumes "adds_classes classed"
  shows "no_repeats (li_class (new_li classed i s))
    \<and> class_set (li_class (new_li classed i s)) = {''line''} \<union> (if s_disabled s then {''disabled''} else {}) \<union> class_set (s_className s)"
proof -
  let ?c = "''line'' @ (if s_disabled s then '' disabled'' else '''')"
  have c: "classes_of ?c = ''line'' # (if s_disabled s then [''disabled''] else [])"
    by (simp add: classes_of_def strTrim_def is_space_def)
  then have "no_repeats ?c" "class_set ?c = {''line''} \<union> (if s_disabled s then {''disabled''} else {})"
    by (simp_all add: no_repeats_def class_set_def)
  moreover have "class_set [] = {}" by (simp add: class_set_def classes_of_def strTrim_def)
  ultimately show ?thesis using assms by (auto simp: new_li_def adds_classes_def Let_def)
qed

text \<open>A rendered legend whose series got the toggle functions is well formed.\<close>

lemma listed_wf:
  assumes lists: "lists_series classed st0 ss st" and g: "lg_series st0 = map Some gs" "\<forall>g \<in> set gs. g < length (lg_store st0)"
    and "distinct gs" and ss: "mset ss = mset gs"
    and plain: "adds_classes classed" "\<forall>g \<in> set gs. ''disabled'' \<notin> class_set (s_className (lg_store st0 ! g))"
    and st': "lg_lines st' = lg_lines st" "lg_objs st' = lg_objs st" "lg_series st' = lg_series st" "same_series (lg_store st) (lg_store st')"
      "map bare (lg_lis st') = map bare (lg_lis st)"
    and tog: "\<forall>g \<in> set gs. s_toggles (lg_store st' ! g)"
  shows "legend_wf st' \<and> lined st' = set gs \<and> (\<forall>g \<in> set gs. dis st' g = dis st0 g)"
proof -
  have eq: "line_series st' = line_series st" "line_li st' = line_li st" using st' by (simp_all add: line_series_def line_li_def fun_eq_iff)
  have set: "set ss = set gs" using ss by (rule mset_eq_setD)
  have ls: "map (line_series st) (lg_lines st) = ss" "map (line_li st) (lg_lines st) = lg_list st" "distinct (lg_list st)"
    "map (\<lambda>e. li_series (lg_lis st ! e)) (lg_list st) = ss" using lists by (auto simp: lists_series_def)
  have store: "same_series (lg_store st0) (lg_store st')" using lists st'(4) same_series_trans by (auto simp: lists_series_def)
  have d: "dis st' g = dis st0 g" "g < length (lg_store st')" if "g \<in> set gs" for g
    using same_series_nth [OF store] g(2) that by (auto simp: dis_def)
  have "line_ok st' l" if l: "l \<in> set (lg_lines st)" for l
  proof -
    let ?e = "line_li st l" and ?s = "line_series st l"
    have e: "?e \<in> set (lg_list st)" using l ls(2) by (metis image_eqI list.set_map)
    have "map (line_series st) (lg_lines st) = map (\<lambda>l. li_series (lg_lis st ! line_li st l)) (lg_lines st)"
      using ls by (metis (no_types, lifting) comp_apply list.map_comp map_eq_conv)
    then have se: "li_series (lg_lis st ! ?e) = ?s" using l by simp
    have s: "?s \<in> set gs" using l ls(1) set by (metis image_eqI list.set_map)
    have len: "?e < length (lg_lis st)" "l < length (lg_objs st)" using lists e l by (auto simp: lists_series_def)
    moreover have "length (lg_lis st') = length (lg_lis st)" using st'(5) by (rule map_eq_imp_length_eq)
    moreover have "bare (lg_lis st' ! ?e) = bare (lg_lis st ! ?e)" using len st'(5) by (metis length_map nth_map)
    moreover have "bare (lg_lis st ! ?e) = new_li classed ?s (lg_store st0 ! ?s)"
      using lists e se by (auto simp: lists_series_def Let_def)
    ultimately have "li_class (lg_lis st' ! ?e) = li_class (new_li classed ?s (lg_store st0 ! ?s))" by (metis bare_simps(1))
    with len \<open>length (lg_lis st') = length (lg_lis st)\<close> show ?thesis
      using class_of_li [OF plain(1)] plain(2) s tog d st'(2) by (simp add: line_ok_def eq Let_def dis_def)
  qed
  moreover have "mset (lg_series st') = mset (map (Some \<circ> line_series st) (lg_lines st))"
    using lists g(1) st'(3) ss by (simp add: lists_series_def flip: ls(1) map_map)
  ultimately have "legend_wf st'"
    using ls ss \<open>distinct gs\<close> by (simp add: legend_wf_def st'(1) eq mset_eq_imp_distinct_iff [OF ss])
  moreover have "lined st' = set gs" using ls(1) set by (simp add: lined_def eq st'(1) flip: list.set_map)
  ultimately show ?thesis using d by blast
qed

lemma shifts:
  "length ss = m \<Longrightarrow> m \<le> length xs \<Longrightarrow> snd (fold shift_into (rev [0 ..< m]) (ss, xs)) = rev (map Some ss) @ drop m xs"
proof (induction m arbitrary: ss xs)
  case (Suc m)
  then obtain s ts where ss: "ss = s # ts" by (cases ss) auto
  with Suc.prems have "snd (fold shift_into (rev [0 ..< m]) (ts, xs[m := Some s])) = rev (map Some ts) @ drop m (xs[m := Some s])"
    by (intro Suc.IH) auto
  moreover have "drop m (xs[m := Some s]) = Some s # drop (Suc m) xs"
    using Suc.prems(2) by (simp add: Cons_nth_drop_Suc [symmetric])
  moreover have "shift_into m (ss, xs) = (ts, xs[m := Some s])" by (simp add: ss shift_into_def)
  ultimately show ?case by (simp add: ss)
qed simp

section \<open>Highlighting is undone\<close>

definition line_name :: "legend \<Rightarrow> nat \<Rightarrow> string" where
  "line_name st l = s_name (lg_store st ! line_series st l)"

definition line_color :: "legend \<Rightarrow> nat \<Rightarrow> string option" where
  "line_color st l = s_color (lg_store st ! line_series st l)"

text \<open>No line is active, the names tell the series apart, and the remembered colours are the present ones.\<close>

definition highlight_line :: "legend \<Rightarrow> nat \<Rightarrow> bool" where
  "highlight_line st l = (l < length (lg_objs st) \<and> line_series st l < length (lg_store st) \<and> ln_originalIndex (lg_objs st ! l) = None
     \<and> Some (line_series st l) \<in> set (lg_series st) \<and> line_color st l \<notin> {None, Some []}
     \<and> lg_colorSafe st (line_name st l) \<in> {None, line_color st l})"

definition highlight_wf :: "legend \<Rightarrow> bool" where
  "highlight_wf st = (lg_activeLine st = None \<and> distinct (lg_lines st) \<and> inj_on (line_series st) (set (lg_lines st))
     \<and> inj_on (line_name st) (set (lg_lines st)) \<and> (\<forall>l \<in> set (lg_lines st). highlight_line st l))"

lemma indexOf_in:
  "a \<in> set xs \<Longrightarrow> 0 \<le> js_indexOf a xs \<and> nat (js_indexOf a xs) < length xs \<and> xs ! nat (js_indexOf a xs) = a"
proof (induction xs)
  case (Cons x xs)
  show ?case
  proof (cases "x = a")
    case False
    with Cons have "0 \<le> js_indexOf a xs" "nat (js_indexOf a xs) < length xs" "xs ! nat (js_indexOf a xs) = a" by auto
    then show ?thesis using False by (simp add: nat_add_distrib)
  qed simp
qed simp

text \<open>Moving an element to the end and back again.\<close>

lemma move_and_back:
  assumes "a \<in> set xs" and "(removed, rest) = splice_remove (splice_start (js_indexOf a xs) xs) 1 xs"
  shows "removed = [a]" "splice_insert (splice_start (js_indexOf a xs) rest) a rest = xs"
proof -
  let ?i = "nat (js_indexOf a xs)"
  have i: "0 \<le> js_indexOf a xs" "?i < length xs" "xs ! ?i = a" using indexOf_in [OF assms(1)] by auto
  then have s: "splice_start (js_indexOf a xs) xs = ?i" by (simp add: splice_start_def min_def)
  then have r: "removed = take 1 (drop ?i xs)" "rest = take ?i xs @ drop (?i + 1) xs" using assms(2) by (simp_all add: splice_remove_def)
  then show "removed = [a]" using i by (simp add: Cons_nth_drop_Suc [symmetric])
  have "splice_start (js_indexOf a xs) rest = ?i" using i r(2) by (simp add: splice_start_def min_def)
  then show "splice_insert (splice_start (js_indexOf a xs) rest) a rest = xs"
    using i r(2) id_take_nth_drop [of ?i xs] by (simp add: splice_insert_def min_def)
qed

text \<open>The state while the pointer is on \<open>l\<close> and the lines \<open>ps\<close> have been visited.\<close>

definition on_top :: "legend \<Rightarrow> nat \<Rightarrow> bool" where
  "on_top st l = (lg_unstack st \<and> s_unstack (lg_store st ! line_series st l) \<noteq> Some False)"

text \<open>Whether the series of \<open>l\<close> was moved to the end of the graph's series, with its place remembered in the line.\<close>

definition moved :: "legend \<Rightarrow> nat \<Rightarrow> bool \<Rightarrow> legend \<Rightarrow> bool" where
  "moved st l b t =
     (if b
      then lg_objs t = (lg_objs st)[l := (lg_objs st ! l)\<lparr>ln_originalIndex := Some (js_indexOf (Some (line_series st l)) (lg_series st))\<rparr>]
        \<and> (let (removed, rest) = splice_remove (splice_start (js_indexOf (Some (line_series st l)) (lg_series st)) (lg_series st)) 1 (lg_series st)
           in lg_series t = rest @ [Some (line_series st l)])
      else lg_objs t = lg_objs st \<and> lg_series t = lg_series st)"

definition hovered :: "(string option \<Rightarrow> string option) \<Rightarrow> legend \<Rightarrow> nat \<Rightarrow> nat set \<Rightarrow> legend \<Rightarrow> bool" where
  "hovered dc st l ps t = (lg_lines t = lg_lines st \<and> lg_unstack t = lg_unstack st \<and> line_series t = line_series st
     \<and> length (lg_store t) = length (lg_store st)
     \<and> (\<forall>s. lg_store t ! s = (if s \<in> line_series st ` (ps - {l}) then (lg_store st ! s)\<lparr>s_color := dc (s_color (lg_store st ! s))\<rparr> else lg_store st ! s))
     \<and> (\<forall>k \<in> set (lg_lines st). lg_colorSafe t (line_name st k) = (if k \<in> ps - {l} then line_color st k else lg_colorSafe st (line_name st k)))
     \<and> moved st l (l \<in> ps \<and> on_top st l) t)"

lemma moved_cong: "lg_objs t' = lg_objs t \<Longrightarrow> lg_series t' = lg_series t \<Longrightarrow> moved st l b t' = moved st l b t"
  by (simp add: moved_def)

lemma line_series_orig: "line_series (st\<lparr>lg_objs := (lg_objs st)[l := (lg_objs st ! l)\<lparr>ln_originalIndex := i\<rparr>]\<rparr>) = line_series st"
  by (cases "l < length (lg_objs st)") (auto simp: line_series_def fun_eq_iff nth_list_update list_update_beyond)

lemma over_step:
  assumes wf: "highlight_wf st" and l: "l \<in> set (lg_lines st)" and k: "k \<in> set (lg_lines st)" "k \<notin> ps" "ps \<subseteq> set (lg_lines st)"
    and h: "hovered dc st l ps t"
  shows "hovered dc st l (insert k ps) (over_line dc l k t)"
proof (cases "k = l")
  case True
  have lsl: "line_series st l \<notin> line_series st ` (ps - {l})"
    using wf l k(3) by (auto simp: highlight_wf_def inj_on_def)
  have e: "line_series t = line_series st" "lg_series t = lg_series st" "lg_objs t = lg_objs st" "on_top t l = on_top st l"
    using h k(2) True lsl by (auto simp: hovered_def on_top_def moved_def)
  have step: "over_line dc l k t = (if on_top st l then bring_to_top l t else t)"
    using e(4) True by (simp add: over_line_def on_top_def line_series_def)
  show ?thesis
  proof (cases "on_top st l")
    case False
    with h step True k(2) show ?thesis by (simp add: hovered_def)
  next
    case top: True
    let ?j = "js_indexOf (Some (line_series st l)) (lg_series st)"
    obtain removed rest where sp: "splice_remove (splice_start ?j (lg_series st)) 1 (lg_series st) = (removed, rest)" by fastforce
    have "Some (line_series st l) \<in> set (lg_series st)" using wf l by (simp add: highlight_wf_def highlight_line_def)
    then have "removed = [Some (line_series st l)]" using move_and_back(1) sp by metis
    then have "bring_to_top l t = t\<lparr>lg_objs := (lg_objs st)[l := (lg_objs st ! l)\<lparr>ln_originalIndex := Some ?j\<rparr>], lg_series := rest @ [Some (line_series st l)]\<rparr>"
      using e sp by (simp add: bring_to_top_def line_series_def set_line_def)
    then show ?thesis using h step top True k(2) sp line_series_orig [of t l "Some ?j"]
      by (simp add: hovered_def moved_def e(3) line_series_def fun_eq_iff)
  qed
next
  case False
  then have ins: "insert k ps - {l} = insert k (ps - {l})" "l \<in> insert k ps \<longleftrightarrow> l \<in> ps" by auto
  have e: "line_series t = line_series st" using h by (simp add: hovered_def)
  have d: "line_series st k \<notin> line_series st ` (ps - {l})" "line_series st k < length (lg_store st)"
    using wf k by (auto simp: highlight_wf_def inj_on_def highlight_line_def)
  have store: "lg_store t ! line_series st k = lg_store st ! line_series st k" using h d(1) by (simp add: hovered_def)
  have ek: "ln_series (lg_objs t ! k) = line_series st k" using e by (metis line_series_def)
  have safe: "or_color (lg_colorSafe t (line_name st k)) (line_color st k) = line_color st k"
    using h wf k by (auto simp: hovered_def highlight_wf_def highlight_line_def or_color_def split: option.splits)
  define t' where "t' = over_line dc l k t"
  have t': "t' = t\<lparr>lg_store := (lg_store t)[line_series st k := (lg_store st ! line_series st k)\<lparr>s_color := dc (s_color (lg_store st ! line_series st k))\<rparr>],
      lg_colorSafe := (lg_colorSafe t)(line_name st k := line_color st k)\<rparr>"
    using False store safe ek by (simp add: t'_def over_line_def fade_def set_series_def Let_def line_name_def line_color_def)
  have A: "\<forall>s. lg_store t' ! s = (if s \<in> line_series st ` (insert k ps - {l}) then (lg_store st ! s)\<lparr>s_color := dc (s_color (lg_store st ! s))\<rparr> else lg_store st ! s)"
    unfolding ins(1) using h d(2) by (simp add: t' hovered_def nth_list_update)
  have B: "\<forall>j \<in> set (lg_lines st). lg_colorSafe t' (line_name st j) = (if j \<in> insert k ps - {l} then line_color st j else lg_colorSafe st (line_name st j))"
  proof
    fix j
    assume j: "j \<in> set (lg_lines st)"
    then have "line_name st j = line_name st k \<longleftrightarrow> j = k" using wf k(1) by (auto simp: highlight_wf_def inj_on_def)
    then show "lg_colorSafe t' (line_name st j) = (if j \<in> insert k ps - {l} then line_color st j else lg_colorSafe st (line_name st j))"
      using h j False by (cases "j = k") (simp_all add: t' hovered_def)
  qed
  have "line_series t' = line_series st" "length (lg_store t') = length (lg_store st)" "lg_lines t' = lg_lines t" "lg_unstack t' = lg_unstack t"
    "lg_objs t' = lg_objs t" "lg_series t' = lg_series t"
    using h e by (simp_all add: t' hovered_def line_series_def fun_eq_iff)
  then have "hovered dc st l (insert k ps) t'" using h A B moved_cong [of t' t] unfolding hovered_def ins(2) by simp
  then show ?thesis by (simp add: t'_def)
qed

lemma over_all:
  assumes "highlight_wf st" and "l \<in> set (lg_lines st)" and "hovered dc st l ps t" and "distinct ks" and "set ks \<inter> ps = {}"
    and "set ks \<union> ps \<subseteq> set (lg_lines st)"
  shows "hovered dc st l (set ks \<union> ps) (fold (over_line dc l) ks t)"
  using assms(3-)
proof (induction ks arbitrary: ps t)
  case (Cons k ks)
  have "hovered dc st l (insert k ps) (over_line dc l k t)"
    using over_step [OF assms(1,2) _ _ _ Cons.prems(1), of k] Cons.prems by auto
  then have "hovered dc st l (set ks \<union> insert k ps) (fold (over_line dc l) ks (over_line dc l k t))"
    by (rule Cons.IH) (use Cons.prems in auto)
  then show ?case by simp
qed simp

text \<open>The state while the pointer leaves \<open>l\<close> and the lines \<open>ps\<close> have been visited, from the state \<open>t\<close> it had on \<open>l\<close>.\<close>

definition left_line :: "legend \<Rightarrow> legend \<Rightarrow> nat \<Rightarrow> nat set \<Rightarrow> legend \<Rightarrow> bool" where
  "left_line st t l ps u = (lg_lines u = lg_lines st \<and> line_series u = line_series st \<and> length (lg_store u) = length (lg_store st)
     \<and> (\<forall>s. lg_store u ! s = (if s \<in> line_series st ` ps then lg_store st ! s else lg_store t ! s)) \<and> lg_colorSafe u = lg_colorSafe t
     \<and> (if l \<in> ps then lg_objs u = lg_objs st \<and> lg_series u = lg_series st else lg_objs u = lg_objs t \<and> lg_series u = lg_series t))"

lemma put_back_ok:
  assumes wf: "highlight_wf st" and l: "l \<in> set (lg_lines st)" and h: "hovered dc st l (set (lg_lines st)) t"
    and "l \<notin> ps" and u: "left_line st t l ps u"
  shows "put_back l u = u\<lparr>lg_objs := lg_objs st, lg_series := lg_series st\<rparr>"
proof (cases "on_top st l")
  case False
  moreover have "ln_originalIndex (lg_objs st ! l) = None" using wf l by (simp add: highlight_wf_def highlight_line_def)
  ultimately show ?thesis using assms by (simp add: put_back_def hovered_def left_line_def moved_def)
next
  case True
  let ?j = "js_indexOf (Some (line_series st l)) (lg_series st)"
  obtain removed rest where sp: "splice_remove (splice_start ?j (lg_series st)) 1 (lg_series st) = (removed, rest)" by fastforce
  have "Some (line_series st l) \<in> set (lg_series st)" "l < length (lg_objs st)" "ln_originalIndex (lg_objs st ! l) = None"
    using wf l by (simp_all add: highlight_wf_def highlight_line_def)
  moreover from this have "splice_insert (splice_start ?j rest) (Some (line_series st l)) rest = lg_series st"
    using move_and_back(2) sp by metis
  moreover have "lg_series u = rest @ [Some (line_series st l)]"
    "lg_objs u = (lg_objs st)[l := (lg_objs st ! l)\<lparr>ln_originalIndex := Some ?j\<rparr>]"
    using assms True sp by (simp_all add: hovered_def left_line_def moved_def)
  moreover have "(lg_objs st)[l := (lg_objs st ! l)\<lparr>ln_originalIndex := None\<rparr>] = lg_objs st"
    using calculation(3) by (metis legend_line.surjective legend_line.update_convs(3) list_update_id)
  ultimately show ?thesis by (simp add: put_back_def set_line_def)
qed

lemma restore_ok:
  assumes wf: "highlight_wf st" and l: "l \<in> set (lg_lines st)" and h: "hovered dc st l (set (lg_lines st)) t"
    and k: "k \<in> set (lg_lines st)" "k \<notin> ps" "ps \<subseteq> set (lg_lines st)"
    and u: "line_series u = line_series st" "lg_colorSafe u = lg_colorSafe t" "length (lg_store u) = length (lg_store st)"
      "\<forall>s. lg_store u ! s = (if s \<in> line_series st ` ps then lg_store st ! s else lg_store t ! s)"
  shows "\<exists>store. restore_color k u = u\<lparr>lg_store := store\<rparr> \<and> length store = length (lg_store st)
    \<and> (\<forall>s. store ! s = (if s \<in> line_series st ` insert k ps then lg_store st ! s else lg_store t ! s))"
proof -
  let ?s = "line_series st k"
  have s: "?s < length (lg_store st)" "?s \<notin> line_series st ` ps" "line_color st k \<notin> {None, Some []}"
    using wf k by (auto simp: highlight_wf_def highlight_line_def inj_on_def)
  have us: "lg_store u ! ?s = lg_store t ! ?s" using u(4) s(2) by simp
  have ek: "ln_series (lg_objs u ! k) = ?s" using u(1) by (metis line_series_def)
  show ?thesis
  proof (cases "k = l")
    case True
    have "?s \<notin> line_series st ` (set (lg_lines st) - {l})" using wf l True by (auto simp: highlight_wf_def inj_on_def)
    then have ts: "lg_store t ! ?s = lg_store st ! ?s" using h by (simp add: hovered_def)
    have "lg_colorSafe t (line_name st k) \<in> {None, line_color st k}"
      using h True l wf by (simp add: hovered_def highlight_wf_def highlight_line_def)
    then have "lg_colorSafe u (s_name (lg_store u ! ?s)) \<in> {None, s_color (lg_store u ! ?s)}"
      using u(2) us ts by (simp add: line_name_def line_color_def)
    moreover have "set_series ?s (\<lambda>x. x\<lparr>s_color := s_color (lg_store u ! ?s)\<rparr>) u = u" by (simp add: set_series_def)
    ultimately have "restore_color k u = u\<lparr>lg_store := lg_store u\<rparr>"
      unfolding restore_color_def ek Let_def by (cases "s_color (lg_store u ! ?s)") auto
    then show ?thesis using u(3,4) us ts by (intro exI [of _ "lg_store u"]) auto
  next
    case False
    obtain c where c: "line_color st k = Some c" "c \<noteq> []" using s(3) by auto
    have ts: "lg_store t ! ?s = (lg_store st ! ?s)\<lparr>s_color := dc (s_color (lg_store st ! ?s))\<rparr>"
      using h False k(1) by (simp add: hovered_def)
    have "lg_colorSafe u (line_name st k) = Some c" using h k(1) u(2) False c(1) by (simp add: hovered_def)
    then have "lg_colorSafe u (s_name (lg_store u ! ?s)) = Some c" using us ts by (simp add: line_name_def)
    then have "restore_color k u = u\<lparr>lg_store := (lg_store u)[?s := (lg_store u ! ?s)\<lparr>s_color := Some c\<rparr>]\<rparr>"
      unfolding restore_color_def ek Let_def using c(2) by (simp add: set_series_def)
    moreover have "(lg_store u ! ?s)\<lparr>s_color := Some c\<rparr> = lg_store st ! ?s" using us ts c(1) by (simp add: line_color_def)
    ultimately have "restore_color k u = u\<lparr>lg_store := (lg_store u)[?s := lg_store st ! ?s]\<rparr>" by simp
    moreover have "\<forall>x. (lg_store u)[?s := lg_store st ! ?s] ! x = (if x \<in> line_series st ` insert k ps then lg_store st ! x else lg_store t ! x)"
      using u(3,4) s(1) by (simp add: nth_list_update)
    ultimately show ?thesis using u(3) by (intro exI [of _ "(lg_store u)[?s := lg_store st ! ?s]"]) simp
  qed
qed

lemma leave_step:
  assumes wf: "highlight_wf st" and l: "l \<in> set (lg_lines st)" and h: "hovered dc st l (set (lg_lines st)) t"
    and k: "k \<in> set (lg_lines st)" "k \<notin> ps" "ps \<subseteq> set (lg_lines st)" and u: "left_line st t l ps u"
  shows "left_line st t l (insert k ps) (restore_color k (if k = l then put_back l u else u))"
proof -
  define v where "v = (if k = l then put_back l u else u)"
  have v: "v = (if k = l then u\<lparr>lg_objs := lg_objs st, lg_series := lg_series st\<rparr> else u)"
    using put_back_ok [OF wf l h _ u] k(2) by (cases "k = l") (auto simp: v_def)
  have ls: "line_series v = line_series st" using u by (auto simp: v left_line_def line_series_def fun_eq_iff)
  have f: "lg_colorSafe v = lg_colorSafe t" "length (lg_store v) = length (lg_store st)"
    "\<forall>s. lg_store v ! s = (if s \<in> line_series st ` ps then lg_store st ! s else lg_store t ! s)" "lg_lines v = lg_lines st"
    "if l \<in> insert k ps then lg_objs v = lg_objs st \<and> lg_series v = lg_series st else lg_objs v = lg_objs t \<and> lg_series v = lg_series t"
    using u by (auto simp: v left_line_def)
  obtain store where r: "restore_color k v = v\<lparr>lg_store := store\<rparr>" "length store = length (lg_store st)"
    "\<forall>s. store ! s = (if s \<in> line_series st ` insert k ps then lg_store st ! s else lg_store t ! s)"
    using restore_ok [OF wf l h k ls f(1-3)] by blast
  have "line_series (v\<lparr>lg_store := store\<rparr>) = line_series st" using ls by (simp add: line_series_def fun_eq_iff)
  then have "left_line st t l (insert k ps) (v\<lparr>lg_store := store\<rparr>)" unfolding left_line_def using r(2,3) f by simp
  then show ?thesis using r(1) by (simp add: v_def)
qed

lemma leave_all:
  assumes "highlight_wf st" and "l \<in> set (lg_lines st)" and "hovered dc st l (set (lg_lines st)) t"
    and "left_line st t l ps u" and "distinct ks" and "set ks \<inter> ps = {}" and "set ks \<union> ps \<subseteq> set (lg_lines st)"
  shows "left_line st t l (set ks \<union> ps) (fold (\<lambda>k st. restore_color k (if k = l then put_back l st else st)) ks u)"
  using assms(4-)
proof (induction ks arbitrary: ps u)
  case (Cons k ks)
  have "left_line st t l (insert k ps) (restore_color k (if k = l then put_back l u else u))"
    using leave_step [OF assms(1-3) _ _ _ Cons.prems(1), of k] Cons.prems by auto
  then have "left_line st t l (set ks \<union> insert k ps)
      (fold (\<lambda>k st. restore_color k (if k = l then put_back l st else st)) ks (restore_color k (if k = l then put_back l u else u)))"
    by (rule Cons.IH) (use Cons.prems in auto)
  then show ?case by simp
qed simp

lemma fold_active_update:
  "lg_activeLine (fold (over_line dc l) ks t) = lg_activeLine t \<and> lg_updates (fold (over_line dc l) ks t) = lg_updates t"
  "lg_activeLine (fold (\<lambda>k st. restore_color k (if k = l then put_back l st else st)) ks t) = lg_activeLine t
    \<and> lg_updates (fold (\<lambda>k st. restore_color k (if k = l then put_back l st else st)) ks t) = lg_updates t"
proof -
  have "lg_activeLine (over_line dc l k t) = lg_activeLine t \<and> lg_updates (over_line dc l k t) = lg_updates t" for k t
    by (simp add: over_line_def bring_to_top_def fade_def set_series_def set_line_def Let_def split: prod.split)
  then show "lg_activeLine (fold (over_line dc l) ks t) = lg_activeLine t \<and> lg_updates (fold (over_line dc l) ks t) = lg_updates t"
    by (induction ks arbitrary: t) auto
  have "lg_activeLine (restore_color k t) = lg_activeLine t \<and> lg_updates (restore_color k t) = lg_updates t"
    "lg_activeLine (put_back l t) = lg_activeLine t \<and> lg_updates (put_back l t) = lg_updates t" for k t
    by (auto simp: restore_color_def put_back_def set_series_def set_line_def Let_def split: option.split)
  then show "lg_activeLine (fold (\<lambda>k st. restore_color k (if k = l then put_back l st else st)) ks t) = lg_activeLine t
    \<and> lg_updates (fold (\<lambda>k st. restore_color k (if k = l then put_back l st else st)) ks t) = lg_updates t"
    by (induction ks arbitrary: t) auto
qed

section \<open>Properties\<close>

text \<open>
  C10. The toggling legend implements a set of shown series: over any clicks on anchors and labels of its lines nothing throws,
  the shown series are those of the specification (an anchor shows or hides its series but never the last one, a label
  shows its series alone, or all of them if it was alone), there is always one, and a line is marked as
  disabled exactly when its series is.
\<close>

theorem toggle_refines_shown:
  assumes "legend_wf st" and "shown st \<noteq> {}" and "\<forall>c \<in> set cs. clicked c \<in> set (lg_lines st)"
  shows "\<exists>st'. for_each click_on cs st = Inr st' \<and> shown st' = fold (spec_click st) cs (shown st) \<and> shown st' \<noteq> {} \<and> legend_wf st'"
proof -
  have "\<exists>st'. for_each click_on cs t = Inr st' \<and> shown st' = fold (spec_click st) cs (shown t) \<and> shown st' \<noteq> {} \<and> legend_wf st'"
    if "legend_wf t" "shown t \<noteq> {}" "frame t = frame st" for t
    using that assms(3)
  proof (induction cs arbitrary: t)
    case (Cons c cs)
    have "clicked c \<in> set (lg_lines t)" using Cons.prems frame_line_series [of t st] by simp
    then obtain u where u: "click_on c t = Inr u" "legend_wf u" "frame u = frame t" "shown u = spec_click t c (shown t)" "shown u \<noteq> {}"
      using click_ok [OF Cons.prems(1,2)] by blast
    have "frame u = frame st" "\<forall>c \<in> set cs. clicked c \<in> set (lg_lines st)" using u(3) Cons.prems(3,4) by simp_all
    with Cons.IH [OF u(2,5)] obtain st' where "for_each click_on cs u = Inr st'" "shown st' = fold (spec_click st) cs (shown u)"
      "shown st' \<noteq> {}" "legend_wf st'" by blast
    with u show ?case using spec_click_frame [OF Cons.prems(3)] by simp
  qed simp
  then show ?thesis using assms(1,2) by blast
qed

definition demo_series :: "string \<Rightarrow> bool \<Rightarrow> lseries" where
  "demo_series name disabled = \<lparr>s_name = name, s_color = Some ''red'', s_disabled = disabled, s_noLegend = False, s_className = '''',
     s_unstack = None, s_toggles = True\<rparr>"

definition demo_legend :: legend where
  "demo_legend = \<lparr>lg_store = [demo_series ''a'' False, demo_series ''b'' False], lg_series = [Some 0, Some 1], lg_unstack = True,
     lg_lis = [new_li (\<lambda>_ c. c) 0 (demo_series ''a'' False), new_li (\<lambda>_ c. c) 1 (demo_series ''b'' False)],
     lg_objs = [\<lparr>ln_element = 0, ln_series = 0, ln_originalIndex = None\<rparr>, \<lparr>ln_element = 1, ln_series = 1, ln_originalIndex = None\<rparr>],
     lg_class = '''', lg_naturalOrder = False, lg_list = [1, 0], lg_lines = [1, 0], lg_shelving = False, lg_highlighter = False,
     lg_anchored = [], lg_highlighted = [], lg_colorSafe = Map.empty, lg_activeLine = None, lg_updates = 0, lg_onUpdates = 0\<rparr>"

lemma demo_legend_facts:
  "legend_wf demo_legend" "shown demo_legend = {0, 1}" "lined demo_legend = {0, 1}" "line_series demo_legend 0 = 0"
proof -
  have c: "classes_of ''line'' = [''line'']" by (simp add: classes_of_def strTrim_def is_space_def)
  show "legend_wf demo_legend"
    using c by (simp add: legend_wf_def line_ok_def demo_legend_def demo_series_def line_series_def line_li_def dis_def new_li_def
        no_repeats_def class_set_def Let_def)
  show "shown demo_legend = {0, 1}" "lined demo_legend = {0, 1}" "line_series demo_legend 0 = 0"
    by (auto simp: shown_def lined_def demo_legend_def demo_series_def line_series_def dis_def)
qed

theorem toggle_refines_shown_witness:
  "\<exists>st'. for_each click_on [Label 0, Anchor 0, Label 0] demo_legend = Inr st' \<and> shown st' = {0, 1}"
proof -
  have "\<forall>c \<in> set [Label 0, Anchor 0, Label 0]. clicked c \<in> set (lg_lines demo_legend)" by (simp add: demo_legend_def)
  moreover have "{0, Suc 0} \<noteq> {0}" by auto
  ultimately show ?thesis
    using toggle_refines_shown [OF demo_legend_facts(1), of "[Label 0, Anchor 0, Label 0]"] demo_legend_facts(2-)
    by (auto simp: Let_def)
qed

text \<open>
  C26. A legend built for a graph and then given the toggle behaviour lists the graph's series, from the last to the
  first unless the natural order is asked for. Every series has its own list element with its name, its colour and its class names, hidden when
  it is not for the legend, with an anchor, and its line has its handlers from the toggle once. The whole is well formed, and shows exactly the series that
  are not disabled. The class names of the series must not use the mark \<open>disabled\<close>.
\<close>

theorem legend_with_toggle:
  assumes "lg_series st = map Some gs" and "distinct gs" and "\<forall>g \<in> set gs. g < length (lg_store st)"
    and "adds_classes classed" and "\<forall>g \<in> set gs. ''disabled'' \<notin> class_set (s_className (lg_store st ! g))"
  shows "\<exists>st1 st2. new_legend classed natural st = Inr st1 \<and> new_toggle True st1 = Inr st2 \<and> legend_wf st2
    \<and> shown st2 = {g \<in> set gs. \<not> dis st g}
    \<and> map (line_series st2) (lg_lines st2) = (if natural then gs else rev gs)
    \<and> lg_anchored st2 = lg_anchored st1 @ lg_lines st2
    \<and> lg_list st2 = map (line_li st2) (lg_lines st2)
    \<and> (\<forall>l \<in> set (lg_lines st2). let e = lg_lis st2 ! line_li st2 l; s = lg_store st ! line_series st2 l in
         li_anchor e \<and> li_series e = line_series st2 l \<and> li_label e = s_name s \<and> li_swatch e = s_color s \<and> li_hidden e = s_noLegend s
         \<and> class_set (li_class e) = {''line''} \<union> (if s_disabled s then {''disabled''} else {}) \<union> class_set (s_className s))"
proof -
  have "valid_token ''rickshaw_legend''" by (simp add: valid_token_def is_space_def)
  then obtain c where c: "on_element (class_add ''rickshaw_legend'') (lg_class st) = Inr c" using element_add by blast
  let ?st = "st\<lparr>lg_class := c, lg_naturalOrder := natural\<rparr>" and ?ss = "if natural then gs else rev gs"
  have g: "lg_series ?st = map Some gs" "\<forall>g \<in> set gs. g < length (lg_store ?st)" using assms by simp_all
  obtain u where u: "render_legend classed ?st = Inr u" "lists_series classed ?st ?ss u" using render_legend_ok [OF g] by auto
  define u' where "u' = u\<lparr>lg_onUpdates := Suc (lg_onUpdates u)\<rparr>"
  define v where "v = fold addAnchor (lg_lines u) u'"
  have lu: "map (line_series u) (lg_lines u) = ?ss" "lg_series u = map Some gs" "same_series (lg_store st) (lg_store u)"
    "lg_list u = map (line_li u) (lg_lines u)"
    using u(2) g(1) by (auto simp: lists_series_def)
  have v: "lg_lines v = lg_lines u" "lg_objs v = lg_objs u" "lg_series v = lg_series u" "lg_store v = lg_store u" "lg_list v = lg_list u"
    "map bare (lg_lis v) = map bare (lg_lis u)" "lg_anchored v = lg_anchored u' @ lg_lines u"
    using addAnchors_keep [of "lg_lines u" u'] addAnchors_anchor [of "lg_lines u" u'] by (simp_all add: v_def u'_def)
  have k: "lg_series v = map Some gs" "\<forall>g \<in> set gs. g < length (lg_store v)"
    using v lu(2) g(2) same_series_nth(1) [OF lu(3)] by auto
  obtain store where w: "addBehavior v = Inr (v\<lparr>lg_store := store\<rparr>)" "same_series (lg_store v) store" "\<forall>g \<in> set gs. s_toggles (store ! g)"
    using addBehavior_ok [OF k] by blast
  define w' where "w' = v\<lparr>lg_store := store\<rparr>"
  have eq: "line_series w' = line_series u" "line_li w' = line_li u" "lg_lines w' = lg_lines u" "lg_list w' = lg_list u" "lg_lis w' = lg_lis v"
    "lg_anchored w' = lg_anchored u' @ lg_lines u" "dis ?st = dis st"
    using v by (auto simp: w'_def line_series_def line_li_def dis_def fun_eq_iff)
  have "legend_wf w' \<and> lined w' = set gs \<and> (\<forall>g \<in> set gs. dis w' g = dis ?st g)"
    by (rule listed_wf [OF u(2) g assms(2)]) (use assms(4,5) v w(2,3) in \<open>auto simp: w'_def\<close>)
  then have wf: "legend_wf w'" "shown w' = {g \<in> set gs. \<not> dis st g}" by (auto simp: shown_def eq)
  have el: "let e = lg_lis v ! line_li u l; s = lg_store st ! line_series u l in li_anchor e \<and> bare e = new_li classed (line_series u l) s"
    if l: "l \<in> set (lg_lines u)" for l
  proof -
    have e: "line_li u l \<in> set (lg_list u)" using l lu(4) by simp
    then have len: "line_li u l < length (lg_lis u)" using u(2) by (auto simp: lists_series_def)
    have "map (\<lambda>e. li_series (lg_lis u ! e)) (lg_list u) = map (line_series u) (lg_lines u)" using u(2) by (simp add: lists_series_def)
    then have "li_series (lg_lis u ! line_li u l) = line_series u l" using l lu(4) by (simp add: comp_def)
    then have "bare (lg_lis u ! line_li u l) = new_li classed (line_series u l) (lg_store st ! line_series u l)"
      using u(2) e by (auto simp: lists_series_def Let_def)
    moreover have "bare (lg_lis v ! line_li u l) = bare (lg_lis u ! line_li u l)" using len v(6) by (metis length_map nth_map)
    moreover have "li_anchor (lg_lis v ! line_li u' l)" using addAnchors_anchor [of "lg_lines u" u'] l len by (simp add: v_def line_li_def u'_def)
    ultimately show ?thesis by (simp add: line_li_def u'_def Let_def)
  qed
  have "li_anchor e \<and> li_series e = i \<and> li_label e = s_name s \<and> li_swatch e = s_color s \<and> li_hidden e = s_noLegend s
      \<and> class_set (li_class e) = {''line''} \<union> (if s_disabled s then {''disabled''} else {}) \<union> class_set (s_className s)"
    if "li_anchor e" "bare e = new_li classed i s" for e i s
    using that(1) bare_new_li [OF that(2)] class_of_li [OF assms(4), of i s] by simp
  with el have "\<forall>l \<in> set (lg_lines u). let e = lg_lis v ! line_li u l; s = lg_store st ! line_series u l in
         li_anchor e \<and> li_series e = line_series u l \<and> li_label e = s_name s \<and> li_swatch e = s_color s \<and> li_hidden e = s_noLegend s
         \<and> class_set (li_class e) = {''line''} \<union> (if s_disabled s then {''disabled''} else {}) \<union> class_set (s_className s)"
    unfolding Let_def by blast
  moreover have "new_legend classed natural st = Inr u'" using c u(1) by (simp add: new_legend_def u'_def)
  moreover have "new_toggle True u' = Inr w'" using w(1) by (simp add: new_toggle_def v_def w'_def u'_def)
  ultimately show ?thesis using wf lu by (intro exI [of _ u'] exI [of _ w']) (simp add: eq)
qed

text \<open>Adding the class names that are missing.\<close>

definition demo_classed :: "string \<Rightarrow> string \<Rightarrow> string" where
  "demo_classed c t = join '' '' (remdups (classes_of t @ classes_of c))"

lemma demo_classed_adds: "adds_classes demo_classed"
proof -
  have "list_all valid_token (remdups (classes_of t @ classes_of c))" for t c
    using classes_of_valid [of t] classes_of_valid [of c] by (auto simp: list_all_iff)
  then have "classes_of (demo_classed c t) = remdups (classes_of t @ classes_of c)" for c t
    unfolding demo_classed_def by (rule classes_of_join)
  then show ?thesis by (simp add: adds_classes_def no_repeats_def class_set_def)
qed

theorem legend_with_toggle_witness:
  "\<exists>st1 st2. new_legend demo_classed False (demo_legend\<lparr>lg_store := [(demo_series ''a'' True)\<lparr>s_className := ''wide''\<rparr>, demo_series ''b'' False]\<rparr>) = Inr st1
    \<and> new_toggle True st1 = Inr st2 \<and> map (line_series st2) (lg_lines st2) = [1, 0] \<and> shown st2 = {1}
    \<and> (\<forall>l \<in> set (lg_lines st2). li_anchor (lg_lis st2 ! line_li st2 l))"
proof -
  define st where "st = demo_legend\<lparr>lg_store := [(demo_series ''a'' True)\<lparr>s_className := ''wide''\<rparr>, demo_series ''b'' False]\<rparr>"
  have "class_set ''wide'' = {''wide''}" "class_set [] = {}" by (simp_all add: class_set_def classes_of_def strTrim_def is_space_def)
  moreover have store: "lg_store st = [(demo_series ''a'' True)\<lparr>s_className := ''wide''\<rparr>, demo_series ''b'' False]" by (simp add: st_def)
  ultimately have cl: "\<forall>g \<in> set [0, 1]. ''disabled'' \<notin> class_set (s_className (lg_store st ! g))"
    by (simp add: demo_series_def)
  have a: "lg_series st = map Some [0, 1]" "distinct [0, 1 :: nat]" "\<forall>g \<in> set [0, 1]. g < length (lg_store st)"
    by (simp_all add: store) (simp add: st_def demo_legend_def)
  have b: "{g \<in> set [0, 1]. \<not> dis st g} = {1}" by (auto simp: dis_def store demo_series_def)
  obtain st1 st2 where "new_legend demo_classed False st = Inr st1" "new_toggle True st1 = Inr st2"
    "shown st2 = {g \<in> set [0, 1]. \<not> dis st g}" "map (line_series st2) (lg_lines st2) = (if False then [0, 1] else rev [0, 1])"
    "\<forall>l \<in> set (lg_lines st2). li_anchor (lg_lis st2 ! line_li st2 l)"
    using legend_with_toggle [OF a demo_classed_adds cl, of False] unfolding Let_def by (elim exE conjE) blast
  moreover have "(if False then [0, 1] else rev [0, 1]) = [1, 0 :: nat]" by simp
  ultimately have "new_legend demo_classed False st = Inr st1 \<and> new_toggle True st1 = Inr st2 \<and> map (line_series st2) (lg_lines st2) = [1, 0]
    \<and> shown st2 = {1} \<and> (\<forall>l \<in> set (lg_lines st2). li_anchor (lg_lis st2 ! line_li st2 l))" unfolding b by metis
  then show ?thesis unfolding st_def by (intro exI)
qed

text \<open>
  Sorting the legend by hand and rendering it again: the graph's series are the sorted list from its end, so the legend
  shows the list as it was sorted, unless it has the natural order, in which it comes out reversed.
\<close>

theorem order_then_render:
  assumes "length (lg_list st) = length (lg_series st)" and "\<forall>e \<in> set (lg_list st). li_series (lg_lis st ! e) < length (lg_store st)"
  shows "lg_series (order_update st) = rev (map (\<lambda>e. Some (li_series (lg_lis st ! e))) (lg_list st))
    \<and> (\<exists>st'. render_legend classed (order_update st) = Inr st' \<and>
        (let sorted = map (\<lambda>e. li_series (lg_lis st ! e)) (lg_list st); again = map (\<lambda>e. li_series (lg_lis st' ! e)) (lg_list st')
         in again = (if lg_naturalOrder st then rev sorted else sorted)))"
proof -
  let ?ss = "map (\<lambda>e. li_series (lg_lis st ! e)) (lg_list st)" and ?u = "order_update st"
  have "lg_series ?u = rev (map Some ?ss)"
    using shifts [of ?ss "length (lg_series st)" "lg_series st"] assms(1) by (simp add: order_update_def Let_def)
  then have s: "lg_series ?u = map Some (rev ?ss)" by (simp only: rev_map)
  have "\<forall>g \<in> set (rev ?ss). g < length (lg_store ?u)" using assms(2) by (auto simp: order_update_def graph_update_def)
  with s obtain st' where "render_legend classed ?u = Inr st'" "lists_series classed ?u (if lg_naturalOrder ?u then rev ?ss else rev (rev ?ss)) st'"
    using render_legend_ok by blast
  moreover have "lg_naturalOrder ?u = lg_naturalOrder st" by (simp add: order_update_def graph_update_def)
  ultimately have "map (\<lambda>e. li_series (lg_lis st' ! e)) (lg_list st') = (if lg_naturalOrder st then rev ?ss else ?ss)"
    by (simp add: lists_series_def)
  moreover have "map Some (rev ?ss) = rev (map (\<lambda>e. Some (li_series (lg_lis st ! e))) (lg_list st))"
    unfolding rev_map [symmetric] by simp
  ultimately show ?thesis using s \<open>render_legend classed ?u = Inr st'\<close> by (simp only: Let_def) blast
qed

theorem order_then_render_witness:
  "lg_series (order_update (demo_legend\<lparr>lg_list := [0, 1]\<rparr>)) = [Some 1, Some 0]"
proof -
  let ?st = "demo_legend\<lparr>lg_list := [0, 1]\<rparr>"
  have "length (lg_list ?st) = length (lg_series ?st)" "\<forall>e \<in> set (lg_list ?st). li_series (lg_lis ?st ! e) < length (lg_store ?st)"
    by (simp_all add: demo_legend_def new_li_def Let_def)
  from order_then_render [OF this] show ?thesis by (simp add: demo_legend_def new_li_def Let_def)
qed

text \<open>
  C23. Moving the pointer onto a line of the legend and off again leaves the graph as it was: the order of the series, their
  colours and the lines. This holds when the names of the series differ and their colours were not
  changed since they were first remembered, and it holds again afterwards.
\<close>

theorem highlight_roundtrip:
  assumes "highlight_wf st" and "l \<in> set (lg_lines st)"
  shows "let st' = on_mouseleave l (on_mouseover dc l st)
    in lg_series st' = lg_series st \<and> lg_store st' = lg_store st \<and> lg_objs st' = lg_objs st \<and> lg_updates st' = lg_updates st + 2
      \<and> highlight_wf st'"
proof -
  let ?L = "set (lg_lines st)"
  define t where "t = fold (over_line dc l) (lg_lines st) (st\<lparr>lg_activeLine := Some l\<rparr>)"
  define u where "u = fold (\<lambda>k st. restore_color k (if k = l then put_back l st else st)) (lg_lines st)
      ((graph_update t)\<lparr>lg_activeLine := None\<rparr>)"
  have d: "distinct (lg_lines st)" using assms(1) by (simp add: highlight_wf_def)
  have "hovered dc st l {} (st\<lparr>lg_activeLine := Some l\<rparr>)" by (simp add: hovered_def moved_def line_series_def fun_eq_iff)
  from over_all [OF assms this d] have h: "hovered dc st l ?L t" by (simp add: t_def)
  then have "left_line st t l {} ((graph_update t)\<lparr>lg_activeLine := None\<rparr>)"
    by (simp add: hovered_def left_line_def line_series_def fun_eq_iff graph_update_def)
  from leave_all [OF assms h this d] have v: "left_line st t l ?L u" by (simp add: u_def)
  have st: "on_mouseleave l (on_mouseover dc l st) = graph_update u"
    using assms(1) h fold_active_update(1) [of dc l "lg_lines st" "st\<lparr>lg_activeLine := Some l\<rparr>"]
    by (simp add: on_mouseover_def on_mouseleave_def highlight_wf_def hovered_def graph_update_def flip: t_def) (simp add: u_def graph_update_def)
  have "lg_store u ! s = lg_store st ! s" for s using v h by (auto simp: left_line_def hovered_def)
  then have store: "lg_store u = lg_store st" using v by (intro nth_equalityI) (auto simp: left_line_def)
  have f: "lg_lines u = lg_lines st" "line_series u = line_series st" "lg_objs u = lg_objs st" "lg_series u = lg_series st" "lg_colorSafe u = lg_colorSafe t"
    using v assms(2) by (auto simp: left_line_def)
  have n: "line_name (graph_update u) = line_name st" "line_color (graph_update u) = line_color st"
    by (auto simp: line_name_def line_color_def f store fun_eq_iff)
  have "lg_colorSafe t (line_name st k) \<in> {None, line_color st k}" if "k \<in> ?L" for k
    using h assms(1) that by (auto simp: hovered_def highlight_wf_def highlight_line_def)
  then have "highlight_line (graph_update u) k" if "k \<in> ?L" for k
    using assms(1) that by (simp add: highlight_wf_def highlight_line_def n f store) (simp add: graph_update_def f)
  moreover have "lg_activeLine u = None" "lg_updates u = Suc (lg_updates st)"
    by (simp_all add: u_def t_def graph_update_def fold_active_update)
  ultimately have "highlight_wf (graph_update u)" "lg_updates (graph_update u) = lg_updates st + 2"
    using assms(1) by (simp_all add: highlight_wf_def n f) (simp_all add: graph_update_def)
  then show ?thesis using store f by (simp add: st Let_def)
qed

lemma demo_highlight: "highlight_wf demo_legend"
  by (simp add: highlight_wf_def highlight_line_def demo_legend_def demo_series_def line_series_def line_name_def line_color_def)

theorem highlight_roundtrip_witness:
  "lg_series (on_mouseleave 0 (on_mouseover (\<lambda>_. Some ''grey'') 0 demo_legend)) = [Some 0, Some 1]
    \<and> lg_series (on_mouseover (\<lambda>_. Some ''grey'') 0 demo_legend) = [Some 1, Some 0]"
proof -
  have "0 \<in> set (lg_lines demo_legend)" by (simp add: demo_legend_def)
  from highlight_roundtrip [OF demo_highlight this] have
    "lg_series (on_mouseleave 0 (on_mouseover (\<lambda>_. Some ''grey'') 0 demo_legend)) = lg_series demo_legend" by (simp add: Let_def)
  moreover have "lg_series (on_mouseover (\<lambda>_. Some ''grey'') 0 demo_legend) = [Some 1, Some 0]"
    by (simp add: on_mouseover_def demo_legend_def over_line_def fade_def bring_to_top_def splice_remove_def splice_start_def set_series_def
        set_line_def graph_update_def demo_series_def Let_def)
  ultimately show ?thesis by (simp add: demo_legend_def)
qed

text \<open>
  Two series of one name share the remembered colour: after the pointer was on a third line and left it, the
  second of them has the colour of the first.
\<close>

theorem highlight_mixes_colors:
  assumes "st = demo_legend\<lparr>lg_store := [(demo_series n False)\<lparr>s_color := Some a\<rparr>, (demo_series n False)\<lparr>s_color := Some b\<rparr>, demo_series m False],
      lg_objs := map (\<lambda>i. \<lparr>ln_element = i, ln_series = i, ln_originalIndex = None\<rparr>) [0, 1, 2], lg_lines := [0, 1, 2],
      lg_series := [Some 0, Some 1, Some 2], lg_unstack := False\<rparr>"
    and "a \<noteq> []" and "n \<noteq> m"
  shows "map s_color (lg_store (on_mouseleave 2 (on_mouseover dc 2 st))) = [Some a, Some a, Some ''red'']"
  using assms(2,3) unfolding assms(1)
  by (simp add: on_mouseover_def on_mouseleave_def demo_legend_def over_line_def fade_def set_series_def restore_color_def put_back_def
      graph_update_def demo_series_def or_color_def Let_def numeral_2_eq_2)

theorem highlight_mixes_colors_witness:
  "\<exists>st. map s_color (lg_store st) = [Some ''blue'', Some ''green'', Some ''red''] \<and>
     map s_color (lg_store (on_mouseleave 2 (on_mouseover (\<lambda>_. Some ''grey'') 2 st))) = [Some ''blue'', Some ''blue'', Some ''red'']"
  by (rule exI, rule conjI [OF _ highlight_mixes_colors [OF refl, where n = "''eth0''" and m = "''eth1''" and a = "''blue''" and b = "''green''"]])
    (simp_all add: demo_series_def)

end
