(* ===== verification/Smoother.thy ===== *)
theory Smoother
  imports GraphData
begin

text \<open>
  \<open>Rickshaw.Graph.Smoother\<close>: a hook on the data of a graph that replaces every run of \<open>aggregationScale\<close> points by their
  average. The loop takes points off the row with \<open>splice\<close> until none is left; with a scale for which \<open>splice\<close> takes
  nothing it does not end, so it is a partial function. The rows it empties are the copies \<open>stackData\<close> made when it cut out the
  window; the points it makes are new.
\<close>

section \<open>The loop\<close>

text \<open>How many elements \<open>splice(0, n)\<close> takes off an array: \<open>n\<close> without its fraction, NaN counts as zero.\<close>

fun splice_count :: "jsnum \<Rightarrow> nat \<Rightarrow> nat" where
  "splice_count (Fin r) len = min len (nat \<lfloor>r\<rfloor>)"
| "splice_count PInf len = len"
| "splice_count _ len = 0"

definition y_num :: "point \<Rightarrow> jsnum" where
  "y_num p = (case py p of None \<Rightarrow> Fin 0 | Some y \<Rightarrow> y)"

definition average :: "point list \<Rightarrow> point" where
  "average part =
     (let n = Fin (of_nat (length part))
      in pt (foldl (\<lambda>avgX d. avgX + px d / n) (Fin 0) part) (foldl (\<lambda>avgY d. avgY + y_num d / n) (Fin 0) part))"

partial_function (option) smooth_row :: "jsnum \<Rightarrow> point list \<Rightarrow> point list option" where
  "smooth_row aggregationScale seriesData =
     (if seriesData = [] then Some []
      else
        let k = splice_count aggregationScale (length seriesData)
        in Option.bind (smooth_row aggregationScale (drop k seriesData)) (\<lambda>rest. Some (average (take k seriesData) # rest)))"

text \<open>The new points of each row go to the end of the store.\<close>

fun smooth_rows :: "jsnum \<Rightarrow> rows \<Rightarrow> heap \<Rightarrow> (rows \<times> heap) option" where
  "smooth_rows sc [] h = Some ([], h)"
| "smooth_rows sc (r # rs) h =
     Option.bind (smooth_row sc (map ((!) h) r)) (\<lambda>ps.
       Option.bind (smooth_rows sc rs (h @ ps)) (\<lambda>(rs', h'). Some ([length h ..< length h + length ps] # rs', h')))"

definition transformer :: "jsnum \<Rightarrow> rows \<Rightarrow> heap \<Rightarrow> (rows \<times> heap) option" where
  "transformer aggregationScale data h =
     (if js_eq aggregationScale (Fin 1) then Some (data, h) else smooth_rows aggregationScale data h)"

section \<open>The object\<close>

record smoother =
  aggregationScale :: jsnum
  sm_hook :: nat
  sm_updates :: nat

text \<open>
  The hook is the transformer bound to the object. As a pass over the rows it is the transformer wherever that ends: for a
  scale of at least one, and for plus infinity, it always does (C25). A pass cannot fail to return, so where the loop does not end
  (\<open>setScale\<close> lets NaN through, see \<open>smoother_diverges_on_NaN\<close>) the pass leaves the rows alone and says nothing about the code.
\<close>

definition smoother_hook :: "jsnum \<Rightarrow> pass" where
  "smoother_hook sc d h = (case transformer sc d h of Some r \<Rightarrow> r | None \<Rightarrow> (d, h))"

text \<open>
  Construction appends the hook; \<open>sm_hook\<close> is its place. It reads \<open>this.aggregationScale\<close> at every run, so a new scale is the
  scale of the hook at that place from then on.
\<close>

definition new_smoother :: "graph_data \<Rightarrow> smoother \<times> graph_data" where
  "new_smoother g = (\<lparr>aggregationScale = Fin 1, sm_hook = length (data_hooks g), sm_updates = 0\<rparr>,
     g\<lparr>data_hooks := data_hooks g @ [smoother_hook (Fin 1)]\<rparr>)"

definition setScale :: "jsnum \<Rightarrow> smoother \<Rightarrow> graph_data \<Rightarrow> (smoother \<times> graph_data) js" where
  "setScale scale sm g =
     (if scale < Fin 1 then Inl (Thrown (''scale out of range: '' @ num_str scale))
      else Inr (sm\<lparr>aggregationScale := scale, sm_updates := Suc (sm_updates sm)\<rparr>,
                g\<lparr>data_hooks := (data_hooks g)[sm_hook sm := smoother_hook scale]\<rparr>))"

text \<open>With an element of its own the smoother shows a slider from one to a hundred, which sets the scale.\<close>

definition smoother_build :: "bool \<Rightarrow> (jsnum \<times> jsnum) option" where
  "smoother_build element = (if element then Some (Fin 1, Fin 100) else None)"

definition smoother_slide :: "jsnum \<Rightarrow> smoother \<Rightarrow> graph_data \<Rightarrow> (smoother \<times> graph_data) js" where
  "smoother_slide value sm g = setScale value sm g"

lemma new_smoother_slide:
  assumes "new_smoother g = (sm, g1)" and "smoother_slide (Fin r) sm g1 = Inr (sm', g2)"
  shows "data_hooks g2 = data_hooks g @ [smoother_hook (aggregationScale sm')]" and "aggregationScale sm' = Fin r" and "1 \<le> r"
  using assms by (auto simp: new_smoother_def smoother_slide_def setScale_def split: if_splits)

lemma smoother_slide_ok:
  assumes "smoother_build element = Some (a, b)" and "a \<le> v" and "v \<le> b"
  shows "\<exists>sm' g'. smoother_slide v sm g = Inr (sm', g') \<and> (\<exists>r \<ge> 1. aggregationScale sm' = Fin r)"
  using assms by (cases v) (auto simp: smoother_build_def smoother_slide_def setScale_def split: if_splits)

section \<open>Runs of points\<close>

function chunks :: "nat \<Rightarrow> 'a list \<Rightarrow> 'a list list" where
  "chunks n xs = (if xs = [] \<or> n = 0 then [] else take n xs # chunks n (drop n xs))"
  by pat_completeness auto
termination
  by (relation "measure (\<lambda>(n, xs). length xs)") auto

declare chunks.simps [simp del]

lemma chunks_Nil [simp]: "chunks n [] = []"
  by (simp add: chunks.simps)

lemma chunks_step: "xs \<noteq> [] \<Longrightarrow> 0 < n \<Longrightarrow> chunks n xs = take n xs # chunks n (drop n xs)"
  by (simp add: chunks.simps [of n xs])

lemma smooth_row_chunks: "1 \<le> r \<Longrightarrow> smooth_row (Fin r) row = Some (map average (chunks (nat \<lfloor>r\<rfloor>) row))"
proof (induction "nat \<lfloor>r\<rfloor>" row rule: chunks.induct)
  case (1 row)
  have n: "0 < nat \<lfloor>r\<rfloor>" using 1(2) by simp
  show ?case
  proof (cases "row = []")
    case True
    then show ?thesis by (simp add: smooth_row.simps)
  next
    case False
    let ?k = "splice_count (Fin r) (length row)"
    have k: "take ?k row = take (nat \<lfloor>r\<rfloor>) row" "drop ?k row = drop (nat \<lfloor>r\<rfloor>) row" by (simp_all add: min_def)
    have "smooth_row (Fin r) (drop ?k row) = Some (map average (chunks (nat \<lfloor>r\<rfloor>) (drop (nat \<lfloor>r\<rfloor>) row)))"
      unfolding k(2) using 1(1) False n 1(2) by simp
    then show ?thesis using False n k(1)
      by (subst smooth_row.simps) (simp add: chunks_step Let_def del: splice_count.simps)
  qed
qed

lemma smooth_row_stuck: "splice_count sc (length row) = 0 \<Longrightarrow> row \<noteq> [] \<Longrightarrow> smooth_row sc row = None"
proof -
  assume stuck: "splice_count sc (length row) = 0" "row \<noteq> []"
  have "smooth_row s r = Some z \<Longrightarrow> \<not> (splice_count s (length r) = 0 \<and> r \<noteq> [])" for s r z
    by (induction arbitrary: z rule: smooth_row.raw_induct [rotated, consumes 1]) (auto simp: Let_def split: if_splits bind_splits, metis drop0 neq0_conv)
  with stuck show ?thesis by (cases "smooth_row sc row") blast+
qed

lemma chunks_concat: "0 < n \<Longrightarrow> concat (chunks n xs) = xs"
  by (induction n xs rule: chunks.induct) (simp add: chunks.simps)

lemma chunks_nonempty: "c \<in> set (chunks n xs) \<Longrightarrow> c \<noteq> []"
proof (induction n xs rule: chunks.induct)
  case (1 n xs)
  then show ?case by (cases "xs = [] \<or> n = 0") (auto simp: chunks.simps [of n xs])
qed

lemma chunks_length: "0 < n \<Longrightarrow> length (chunks n xs) = (length xs + n - 1) div n"
proof (induction n xs rule: chunks.induct)
  case (1 n xs)
  show ?case
  proof (cases "xs = []")
    case True
    with 1(2) show ?thesis by simp
  next
    case False
    have "length (chunks n (drop n xs)) = (length (drop n xs) + n - 1) div n" by (rule 1(1)) (use False 1(2) in simp_all)
    then have "length (chunks n xs) = Suc ((length xs - n + n - 1) div n)"
      using chunks_step [OF False 1(2)] by simp
    also have "\<dots> = (length xs + n - 1) div n"
    proof (cases "n \<le> length xs")
      case True
      then have e: "length xs + n - 1 = (length xs - n + n - 1) + n" using 1(2) by simp
      show ?thesis unfolding e using 1(2) by (simp only: div_add_self2)
    next
      case small: False
      then have e: "length xs + n - 1 = (length xs - 1) + n" using False by (cases xs) auto
      have "(length xs - 1) div n = 0" "(length xs - n + n - 1) div n = 0" using small 1(2) by simp_all
      then show ?thesis unfolding e using 1(2) by (simp only: div_add_self2)
    qed
    finally show ?thesis .
  qed
qed

section \<open>Averages\<close>

lemma foldl_mean:
  assumes "0 < n" and "\<forall>p \<in> set ps. f p = Fin (g p)"
  shows "foldl (\<lambda>a p. a + f p / Fin n) (Fin b) ps = Fin (b + sum_list (map g ps) / n)"
  using assms(2)
proof (induction ps arbitrary: b)
  case (Cons p ps)
  have "foldl (\<lambda>a p. a + f p / Fin n) (Fin b) (p # ps) = foldl (\<lambda>a p. a + f p / Fin n) (Fin (b + g p / n)) ps"
    using Cons.prems assms(1) by simp
  with Cons show ?case using assms(1) by (simp add: add_divide_distrib)
qed simp

lemma mean_between:
  fixes g :: "point \<Rightarrow> rat"
  assumes "ps \<noteq> []" and "\<forall>p \<in> set ps. lo \<le> g p \<and> g p \<le> hi"
  shows "lo \<le> sum_list (map g ps) / of_nat (length ps) \<and> sum_list (map g ps) / of_nat (length ps) \<le> hi"
proof -
  have "of_nat (length ps) * lo \<le> sum_list (map g ps)" "sum_list (map g ps) \<le> of_nat (length ps) * hi"
    using assms(2) by (induction ps) (auto simp: distrib_right algebra_simps add_mono)
  then show ?thesis using assms(1) by (simp add: field_simps)
qed

lemma average_px:
  assumes "ps \<noteq> []" and "\<forall>p \<in> set ps. is_fin (px p)"
  shows "px (average ps) = Fin (sum_list (map (fin_val \<circ> px) ps) / of_nat (length ps))"
  using foldl_mean [of "of_nat (length ps)" ps px "fin_val \<circ> px" 0] assms by (simp add: average_def Let_def)

lemma average_py:
  assumes "ps \<noteq> []" and "\<forall>p \<in> set ps. is_fin (y_num p)"
  shows "py (average ps) = Some (Fin (sum_list (map (fin_val \<circ> y_num) ps) / of_nat (length ps)))"
  using foldl_mean [of "of_nat (length ps)" ps y_num "fin_val \<circ> y_num" 0] assms by (simp add: average_def Let_def)

lemma average_less:
  assumes "ps \<noteq> []" "qs \<noteq> []" and fin: "\<forall>p \<in> set ps \<union> set qs. is_fin (px p)" and lt: "\<forall>p \<in> set ps. \<forall>q \<in> set qs. px p < px q"
  shows "px (average ps) < px (average qs)"
proof -
  let ?f = "fin_val \<circ> px"
  have lt': "?f p < ?f q" if "p \<in> set ps" "q \<in> set qs" for p q
    using lt fin that by (auto simp: is_fin_iff) (metis fin_val.simps(1) is_fin_iff jsnum_arith(5) UnCI)
  define m where "m = Max (?f ` set ps)"
  define l where "l = Min (?f ` set qs)"
  have "m < l" using lt' assms(1,2) by (simp add: m_def l_def)
  moreover have "sum_list (map ?f ps) / of_nat (length ps) \<le> m"
    using mean_between [OF assms(1), of "Min (?f ` set ps)" ?f m] by (simp add: m_def)
  moreover have "l \<le> sum_list (map ?f qs) / of_nat (length qs)"
    using mean_between [OF assms(2), of l ?f "Max (?f ` set qs)"] by (simp add: l_def)
  ultimately show ?thesis using fin assms(1,2) by (simp add: average_px)
qed

lemma sorted_averages:
  assumes "\<forall>c \<in> set cs. c \<noteq> []" and "\<forall>p \<in> set (concat cs). is_fin (px p)" and "sorted_wrt (\<lambda>p q. px p < px q) (concat cs)"
  shows "sorted_wrt (\<lambda>p q. px p < px q) (map average cs)"
  using assms
proof (induction cs)
  case (Cons c cs)
  have "px (average c) < px (average d)" if "d \<in> set cs" for d
    by (rule average_less) (use Cons.prems that in \<open>auto simp: sorted_wrt_append\<close>)
  then show ?case using Cons by (auto simp: sorted_wrt_append)
qed simp

section \<open>The smoother as a hook\<close>

definition smooth_points :: "nat \<Rightarrow> point list \<Rightarrow> point list" where
  "smooth_points n ps = map average (chunks n ps)"

lemma smooth_rows_ok:
  assumes "1 \<le> r" and "\<forall>a \<in> set (concat rs). a < length h"
  shows "\<exists>rs' h'. smooth_rows (Fin r) rs h = Some (rs', h') \<and> take (length h) h' = h \<and> length h \<le> length h'
    \<and> concat rs' = [length h ..< length h'] \<and> length rs' = length rs
    \<and> map (map ((!) h')) rs' = map (\<lambda>r'. smooth_points (nat \<lfloor>r\<rfloor>) (map ((!) h) r')) rs"
  using assms(2)
proof (induction rs arbitrary: h)
  case (Cons row rs)
  let ?ps = "smooth_points (nat \<lfloor>r\<rfloor>) (map ((!) h) row)" let ?h = "h @ ?ps"
  have "\<forall>a \<in> set (concat rs). a < length ?h" using Cons.prems by (auto intro: trans_less_add1)
  from Cons.IH [OF this] obtain rs' h' where ih: "smooth_rows (Fin r) rs ?h = Some (rs', h')" "take (length ?h) h' = ?h"
    "length ?h \<le> length h'" "concat rs' = [length ?h ..< length h']" "length rs' = length rs"
    "map (map ((!) h')) rs' = map (\<lambda>r'. smooth_points (nat \<lfloor>r\<rfloor>) (map ((!) ?h) r')) rs" by blast
  have low: "h' ! i = ?h ! i" if "i < length ?h" for i using that ih(2) by (metis nth_take)
  have "map ((!) h') [length h ..< length h + length ?ps] = ?ps"
    by (rule nth_equalityI) (simp_all add: low nth_append)
  moreover have "map (\<lambda>r'. smooth_points (nat \<lfloor>r\<rfloor>) (map ((!) ?h) r')) rs = map (\<lambda>r'. smooth_points (nat \<lfloor>r\<rfloor>) (map ((!) h) r')) rs"
  proof (rule map_cong [OF refl])
    fix r'
    assume "r' \<in> set rs"
    then have "map ((!) ?h) r' = map ((!) h) r'" using Cons.prems by (intro map_cong) (auto simp: nth_append)
    then show "smooth_points (nat \<lfloor>r\<rfloor>) (map ((!) ?h) r') = smooth_points (nat \<lfloor>r\<rfloor>) (map ((!) h) r')" by (rule arg_cong)
  qed
  moreover have "take (length h) h' = h" by (rule nth_equalityI) (use ih(3) low in \<open>auto simp: nth_append\<close>)
  moreover have "[length h ..< length h'] = [length h ..< length ?h] @ [length ?h ..< length h']"
    using ih(3) by (metis le_add1 le_Suc_ex upt_add_eq_append length_append)
  ultimately show ?case using ih smooth_row_chunks [OF assms(1), of "map ((!) h) row"] by (simp add: smooth_points_def)
qed simp

lemma smooth_rows_fresh:
  "smooth_rows sc rs h = Some (rs', h') \<Longrightarrow> take (length h) h' = h \<and> length h \<le> length h' \<and> concat rs' = [length h ..< length h']"
proof (induction rs arbitrary: h rs' h')
  case (Cons r rs)
  then obtain ps rs2 where s: "smooth_row sc (map ((!) h) r) = Some ps" "smooth_rows sc rs (h @ ps) = Some (rs2, h')"
    "rs' = [length h ..< length h + length ps] # rs2" by (auto split: bind_splits)
  have ih: "take (length (h @ ps)) h' = h @ ps" "length (h @ ps) \<le> length h'" "concat rs2 = [length (h @ ps) ..< length h']"
    using Cons.IH [OF s(2)] by auto
  have "take (length h) h' = h" using ih(1) by (metis append_eq_conv_conj length_append le_add1 min.absorb1 take_take)
  moreover have "[length h ..< length h'] = [length h ..< length (h @ ps)] @ [length (h @ ps) ..< length h']"
    using ih(2) by (metis le_add1 le_Suc_ex upt_add_eq_append length_append)
  ultimately show ?case using ih s(3) by simp
qed simp

interpretation smoother_pass: row_pass "smoother_hook sc" for sc
proof
  fix n d h d' h'
  assume p: "private_rows n d h" and e: "smoother_hook sc d h = (d', h')"
  show "private_rows n d' h' \<and> take n h' = take n h"
  proof (cases "transformer sc d h = Some (d', h') \<and> \<not> js_eq sc (Fin 1)")
    case True
    then have "smooth_rows sc d h = Some (d', h')" by (auto simp: transformer_def)
    then have f: "take (length h) h' = h" "length h \<le> length h'" "concat d' = [length h ..< length h']"
      using smooth_rows_fresh by blast+
    then have "take n h' = take n h" using p by (metis min.absorb1 private_rows_def take_take)
    then show ?thesis using f p by (auto simp: private_rows_def simp del: set_concat)
  next
    case False
    then have "d' = d" "h' = h" using e by (auto simp: smoother_hook_def transformer_def split: option.splits if_splits)
    then show ?thesis using p by simp
  qed
next
  fix d h d' h'
  assume "smoother_hook sc d h = (d', h')"
  then show "length h \<le> length h'"
    using smooth_rows_fresh [of sc d h] by (auto simp: smoother_hook_def transformer_def split: option.splits if_splits)
qed

section \<open>Properties\<close>

text \<open>
  C25. For every scale of at least one the smoother ends and gives the averages of consecutive runs of as many points as the
  whole part of the scale (the last run may be shorter): one point for each run, in increasing order of time if the row was, and the
  mean of a run that has values is the sum of its values over their number.
\<close>

theorem smoother_averages_runs:
  assumes "1 \<le> r"
  shows "let n = nat \<lfloor>r\<rfloor> in
    \<exists>out. smooth_row (Fin r) row = Some out \<and> out = map average (chunks n row) \<and> concat (chunks n row) = row
      \<and> length out = (length row + n - 1) div n
      \<and> (\<forall>c \<in> set (chunks n row). (\<forall>p \<in> set c. is_fin (y_num p)) \<longrightarrow>
           py (average c) = Some (Fin (sum_list (map (fin_val \<circ> y_num) c) / of_nat (length c))))
      \<and> ((\<forall>p \<in> set row. is_fin (px p)) \<longrightarrow> sorted_wrt (\<lambda>p q. px p < px q) row \<longrightarrow> sorted_wrt (\<lambda>p q. px p < px q) out)"
proof -
  let ?n = "nat \<lfloor>r\<rfloor>"
  have n: "0 < ?n" using assms by simp
  have "sorted_wrt (\<lambda>p q. px p < px q) (map average (chunks ?n row))"
    if "\<forall>p \<in> set row. is_fin (px p)" "sorted_wrt (\<lambda>p q. px p < px q) row"
    by (rule sorted_averages) (use that chunks_nonempty chunks_concat [OF n, of row] in \<open>auto simp del: set_concat\<close>)
  then show ?thesis
    using smooth_row_chunks [OF assms, of row] chunks_concat [OF n, of row] chunks_length [OF n, of row]
    by (auto simp: Let_def average_py chunks_nonempty)
qed

theorem smoother_averages_runs_witness:
  "\<exists>out. smooth_row (Fin (5 / 2)) [pt (Fin 1) (Fin 4), pt (Fin 2) (Fin 6), pt (Fin 3) (Fin 9)] = Some out \<and> length out = 2"
proof -
  have "\<lfloor>5 / 2 :: rat\<rfloor> = 2" by (rule floor_unique) simp_all
  then have "nat \<lfloor>5 / 2 :: rat\<rfloor> = 2" by simp
  then show ?thesis
    using smoother_averages_runs [of "5 / 2" "[pt (Fin 1) (Fin 4), pt (Fin 2) (Fin 6), pt (Fin 3) (Fin 9)]"] by (auto simp: Let_def)
qed

text \<open>
  \<open>setScale\<close> refuses scales below one but lets NaN through, and with it the loop does not end on a row
  that has a point.
\<close>

theorem smoother_diverges_on_NaN:
  assumes "row \<noteq> []"
  shows "(\<exists>sm' g'. setScale NaN sm g = Inr (sm', g') \<and> smooth_row (aggregationScale sm') row = None)
    \<and> (\<forall>r < 1. \<exists>e. setScale (Fin r) sm g = Inl e)"
  using assms by (simp add: setScale_def smooth_row_stuck)

theorem smoother_diverges_on_NaN_witness: "smooth_row NaN [pt (Fin 1) (Fin 2)] = None"
  using smoother_diverges_on_NaN [of "[pt (Fin 1) (Fin 2)]" "\<lparr>aggregationScale = Fin 1, sm_hook = 0, sm_updates = 0\<rparr>" sample_graph] by (simp add: setScale_def)

text \<open>
  C15. A graph with the smoother as its hook shows, for every active series, the averages of the runs of its scaled points in
  the window, based at zero. The points of the series themselves are never written to, even when no copy is
  asked for, since the averages are new points.
\<close>

theorem smoothed_stackData:
  assumes valid: "valid_addresses g" and sc: "2 \<le> r" and hooks: "data_hooks g = [smoother_hook (Fin r)]" "after_hooks g = []"
    and "unstack g" and rows: "scaled_rows g = (d, h)"
  shows "\<exists>g' rs. stackData layout g = Inr g' \<and> map gs_stack (active (gseries g')) = map Some rs
    \<and> map (map ((!) (heap g'))) rs = map (\<lambda>row. map default_y0 (smooth_points (nat \<lfloor>r\<rfloor>) (map ((!) h) row))) d
    \<and> take (length (heap g)) (heap g') = heap g"
proof -
  have d: "(\<forall>a \<in> set (concat d). a < length h) \<and> length d = length (active (gseries g)) \<and> take (length (heap g)) h = heap g"
  proof (cases "preserving g")
    case True
    from scaled_rows_private [OF valid True rows] show ?thesis by (auto simp: private_rows_def simp del: set_concat)
  next
    case False
    have "apply_scales ss rs h0 = h0" if "\<forall>s \<in> set ss. gs_scale s = None" for ss rs h0
      using that by (induction ss rs h0 rule: apply_scales.induct) auto
    moreover have "\<forall>s \<in> set (active (gseries g)). gs_scale s = None" using False by (auto simp: preserving_def active_def)
    ultimately have "d = sliced_rows g" "h = heap g" using False rows by (auto simp: scaled_rows_def)
    then show ?thesis using sliced_rows_valid [OF valid] by (simp add: sliced_rows_def)
  qed
  then obtain rs h1 where s: "smooth_rows (Fin r) d h = Some (rs, h1)" "take (length h) h1 = h" "length h \<le> length h1"
    "concat rs = [length h ..< length h1]" "length rs = length d"
    "map (map ((!) h1)) rs = map (\<lambda>row. smooth_points (nat \<lfloor>r\<rfloor>) (map ((!) h) row)) d"
    using smooth_rows_ok [of r d h] sc by auto
  let ?h = "fold (upd_points default_y0) rs h1"
  let ?g = "g\<lparr>heap := ?h, gseries := assign_stacks (gseries g) rs, stackedData := Some rs\<rparr>"
  have "stackData layout g = Inr ?g"
    using assms s(1) by (simp add: stackData_def run_data_hooks_def run_after_hooks_def default_rows_def smoother_hook_def transformer_def)
  moreover have dist: "distinct (concat rs)" "\<forall>a \<in> set (concat rs). a < length h1" by (simp only: s(4), simp)+
  have "map (map ((!) ?h)) rs = map (map (\<lambda>a. default_y0 (h1 ! a))) rs"
  proof (intro map_cong refl)
    fix row a
    assume "row \<in> set rs" "a \<in> set row"
    then have "a \<in> set (concat rs)" by auto
    then show "?h ! a = default_y0 (h1 ! a)" by (simp only: fold_upd_points [OF dist] if_True)
  qed
  then have "map (map ((!) ?h)) rs = map (map default_y0) (map (map ((!) h1)) rs)" by (simp add: comp_def)
  moreover have len: "length (heap g) \<le> length h" using arg_cong [of _ _ length, OF conjunct2 [OF conjunct2 [OF d]]] by simp
  have "?h ! a = heap g ! a" if "a < length (heap g)" for a
  proof -
    have "a \<notin> set (concat rs)" using that len by (simp only: s(4)) simp
    then have "?h ! a = h1 ! a" by (rule fold_upd_other)
    also have "\<dots> = h ! a" using s(2) that len by (metis nth_take order_less_le_trans)
    also have "\<dots> = heap g ! a" using d that by (metis nth_take)
    finally show ?thesis .
  qed
  then have "take (length (heap g)) ?h = heap g" using len s(3) by (intro nth_equalityI) simp_all
  ultimately show ?thesis
    using s(5) d assign_stacks_active [of rs "gseries g"] by (intro exI [of _ ?g] exI [of _ rs]) (simp add: s(6) comp_def)
qed

theorem smoothed_stackData_witness:
  "\<exists>g'. stackData (\<lambda>_. default_rows) (sample_graph\<lparr>data_hooks := [smoother_hook (Fin 2)], preserve := False\<rparr>) = Inr g'
     \<and> take 3 (heap g') = heap sample_graph"
proof -
  let ?g = "sample_graph\<lparr>data_hooks := [smoother_hook (Fin 2)], preserve := False\<rparr>"
  obtain d h where "scaled_rows ?g = (d, h)" by fastforce
  moreover have "valid_addresses ?g" "data_hooks ?g = [smoother_hook (Fin 2)]" "after_hooks ?g = []" "unstack ?g" "length (heap ?g) = 3"
    "heap ?g = heap sample_graph" by (simp_all add: sample_graph_def valid_addresses_def)
  ultimately show ?thesis using smoothed_stackData [of ?g 2 d h "\<lambda>_. default_rows"] by auto
qed

end
