(* ===== verification/Drawing.thy ===== *)
theory Drawing
  imports Renderer "HOL-Library.Multiset"
begin

text \<open>
  What the renderers draw: the nodes each \<open>render\<close> puts into the drawing, in their order, with the attributes the code
  sets, and how the multi renderer groups and stacks series. The path generators, colour interpolation and class handling of
  d3 are arguments; the scales of the graph are functions.
\<close>

section \<open>Data\<close>

text \<open>A point may carry its own radius and opacity; \<open>series.stroke\<close> is a colour the caller gave, or the node a renderer put there.\<close>

record dpoint = point +
  dp_r :: "jsnum option"
  dp_opacity :: "jsnum option"

datatype stroke_val = NoStroke | StrokeColor string | StrokeNode nat

record dseries =
  ds_stack :: "dpoint list"
  ds_disabled :: bool
  ds_renderer :: string
  ds_style :: style_args
  ds_className :: string
  ds_stroke :: stroke_val
  ds_path :: "nat option"
  ds_saved :: "dpoint list option"

record svg_path =
  sp_class :: "string list"
  sp_d :: "string option"
  sp_style :: "path_style option"

record svg_rect =
  sr_x :: jsnum
  sr_y :: jsnum
  sr_width :: jsnum
  sr_height :: jsnum
  sr_opacity :: "jsnum option"
  sr_matrix :: "jsnum list"
  sr_fill :: string

record svg_circle =
  sc_class :: "string list"
  sc_cx :: jsnum
  sc_cy :: jsnum
  sc_r :: jsnum
  sc_opacity :: "jsnum option"
  sc_fill :: string
  sc_stroke :: "(string \<times> jsnum) option"

record svg_area =
  sa_area :: "string option"
  sa_fill :: "string option"
  sa_line :: "string option"
  sa_line_stroke :: "(string \<times> jsnum) option"
  sa_class :: "string option"

record draw_env =
  e_x :: "jsnum \<Rightarrow> jsnum"
  e_y :: "jsnum \<Rightarrow> jsnum"
  e_x_magnitude :: "jsnum \<Rightarrow> jsnum"
  e_y_magnitude :: "jsnum \<Rightarrow> jsnum"
  e_line :: "(jsnum \<times> jsnum) option list \<Rightarrow> string"
  e_area :: "(jsnum \<times> jsnum \<times> jsnum) option list \<Rightarrow> string"
  e_classed :: "string \<Rightarrow> string list \<Rightarrow> string list"
  e_darker :: "string \<Rightarrow> string"

record draw_opts =
  o_fill :: bool
  o_stroke :: bool
  o_strokeWidth :: jsnum
  o_opacity :: jsnum
  o_unstack :: bool
  o_gapSize :: jsnum
  o_dotSize :: jsnum

definition active_stacks :: "dseries list \<Rightarrow> dpoint list list" where
  "active_stacks series = map ds_stack (filter (\<lambda>s. \<not> ds_disabled s) series)"

section \<open>Path factories\<close>

text \<open>A vertex is absent where \<open>defined\<close> is false, that is where \<open>y\<close> is null. The generators carry interpolation and tension.\<close>

definition y0_num :: "'a point_scheme \<Rightarrow> jsnum" where
  "y0_num d = (case py0 d of None \<Rightarrow> NaN | Some z \<Rightarrow> z)"

definition line_vertices :: "draw_env \<Rightarrow> 'a point_scheme list \<Rightarrow> (jsnum \<times> jsnum) option list" where
  "line_vertices e row = map (\<lambda>d. map_option (\<lambda>y. (e_x e (px d), e_y e y)) (py d)) row"

definition area_vertices :: "draw_env \<Rightarrow> 'a point_scheme list \<Rightarrow> (jsnum \<times> jsnum \<times> jsnum) option list" where
  "area_vertices e row = map (\<lambda>d. map_option (\<lambda>y. (e_x e (px d), e_y e (y0_num d), e_y e (y + y0_num d))) (py d)) row"

definition top_vertices :: "draw_env \<Rightarrow> 'a point_scheme list \<Rightarrow> (jsnum \<times> jsnum) option list" where
  "top_vertices e row = map (\<lambda>d. map_option (\<lambda>y. (e_x e (px d), e_y e (y + y0_num d))) (py d)) row"

definition no_path :: "draw_env \<Rightarrow> dpoint list \<Rightarrow> string option" where
  "no_path e row = None"

definition line_path :: "draw_env \<Rightarrow> dpoint list \<Rightarrow> string option" where
  "line_path e row = Some (e_line e (line_vertices e row))"

definition area_path :: "draw_env \<Rightarrow> dpoint list \<Rightarrow> string option" where
  "area_path e row = Some (e_area e (area_vertices e row))"

definition stack_path :: "draw_env \<Rightarrow> dpoint list \<Rightarrow> string option" where
  "stack_path e row = Some (e_area e (area_vertices e row))"

definition lineplot_path :: "draw_env \<Rightarrow> dpoint list \<Rightarrow> string option" where
  "lineplot_path e row = Some (e_line e (line_vertices e row))"

definition area_stroke_path :: "draw_env \<Rightarrow> dpoint list \<Rightarrow> string option" where
  "area_stroke_path e row = Some (e_line e (top_vertices e row))"

section \<open>Renderer.render\<close>

text \<open>
  One node for each active row, then with strokes one more for each; the loop over the series hands the nodes out in order.
  \<open>offset\<close> is the number of path nodes, after which the stroke nodes come.
\<close>

definition style_path :: "draw_env \<Rightarrow> draw_opts \<Rightarrow> dseries \<Rightarrow> svg_path \<Rightarrow> svg_path" where
  "style_path e opts s p =
     p\<lparr>sp_style := Some (styleSeries (o_fill opts) (o_stroke opts) (o_strokeWidth opts) (o_opacity opts) (ds_style s)),
       sp_class := (if ds_className s \<noteq> [] then e_classed e (ds_className s) (sp_class p) else sp_class p)\<rparr>"

definition style_stroke :: "draw_env \<Rightarrow> draw_opts \<Rightarrow> dseries \<Rightarrow> svg_path \<Rightarrow> svg_path" where
  "style_stroke e opts s p = (if ds_className s \<noteq> [] \<and> o_stroke opts then p\<lparr>sp_class := e_classed e (ds_className s) (sp_class p)\<rparr> else p)"

fun hand_out :: "draw_env \<Rightarrow> draw_opts \<Rightarrow> nat \<Rightarrow> nat \<Rightarrow> dseries list \<Rightarrow> svg_path list \<Rightarrow> dseries list \<times> svg_path list" where
  "hand_out e opts offset i [] nodes = ([], nodes)"
| "hand_out e opts offset i (s # ss) nodes =
     (if ds_disabled s then let (ss', nodes') = hand_out e opts offset i ss nodes in (s # ss', nodes')
      else
        let s' = s\<lparr>ds_path := Some i, ds_stroke := (if o_stroke opts then StrokeNode (offset + i) else ds_stroke s)\<rparr>;
            nodes1 = nodes[i := style_path e opts s (nodes ! i)];
            nodes2 = (if o_stroke opts then nodes1[offset + i := style_stroke e opts s (nodes1 ! (offset + i))] else nodes1);
            (ss', nodes') = hand_out e opts offset (Suc i) ss nodes2
        in (s' # ss', nodes'))"

definition render_paths ::
  "(draw_env \<Rightarrow> dpoint list \<Rightarrow> string option) \<Rightarrow> (draw_env \<Rightarrow> dpoint list \<Rightarrow> string option) \<Rightarrow> draw_env \<Rightarrow> draw_opts \<Rightarrow> dseries list \<Rightarrow>
   dseries list \<times> svg_path list"
where
  "render_paths pathFactory strokeFactory e opts series =
     (let data = active_stacks series;
          pathNodes = map (\<lambda>row. \<lparr>sp_class = [''path''], sp_d = pathFactory e row, sp_style = None\<rparr>) data;
          strokeNodes = (if o_stroke opts then map (\<lambda>row. \<lparr>sp_class = [''stroke''], sp_d = strokeFactory e row, sp_style = None\<rparr>) data else [])
      in hand_out e opts (length data) 0 series (pathNodes @ strokeNodes))"

section \<open>Bar.render\<close>

fun js_sign :: "jsnum \<Rightarrow> jsnum" where
  "js_sign y = (if y < Fin 0 then Fin (- 1) else Fin 1)"

definition bar_matrix :: "draw_env \<Rightarrow> jsnum \<Rightarrow> jsnum list" where
  "bar_matrix e y = [Fin 1, Fin 0, Fin 0, js_sign y, Fin 0, (if y < Fin 0 then e_y_magnitude e (js_abs y) * Fin 2 else Fin 0)]"

definition bar_rect :: "draw_env \<Rightarrow> jsnum \<Rightarrow> jsnum \<Rightarrow> dseries \<Rightarrow> dpoint \<Rightarrow> svg_rect option" where
  "bar_rect e barXOffset seriesBarWidth s d =
     map_option (\<lambda>y. \<lparr>sr_x = e_x e (px d) + barXOffset, sr_y = e_y e (y0_num d + js_abs y) * js_sign y, sr_width = seriesBarWidth,
        sr_height = e_y_magnitude e (js_abs y), sr_opacity = st_opacity (ds_style s), sr_matrix = bar_matrix e y,
        sr_fill = st_color (ds_style s)\<rparr>) (py d)"

fun bar_loop :: "draw_env \<Rightarrow> draw_opts \<Rightarrow> jsnum \<Rightarrow> jsnum \<Rightarrow> dseries list \<Rightarrow> svg_rect list" where
  "bar_loop e opts seriesBarWidth barXOffset [] = []"
| "bar_loop e opts seriesBarWidth barXOffset (s # ss) =
     (if ds_disabled s then bar_loop e opts seriesBarWidth barXOffset ss
      else List.map_filter (bar_rect e barXOffset seriesBarWidth s) (ds_stack s)
        @ bar_loop e opts seriesBarWidth (if o_unstack opts then barXOffset + seriesBarWidth else barXOffset) ss)"

definition series_bar_width :: "draw_env \<Rightarrow> draw_opts \<Rightarrow> dseries list \<Rightarrow> jsnum js" where
  "series_bar_width e opts series =
     (case filter (\<lambda>s. \<not> ds_disabled s) series of
        [] \<Rightarrow> Inl TypeError
      | s # ss \<Rightarrow>
          let w = barWidth (e_x_magnitude e) (o_gapSize opts) (map point.truncate (ds_stack s))
          in Inr (if o_unstack opts then w / Fin (of_nat (length (s # ss))) else w))"

definition bar_render :: "draw_env \<Rightarrow> draw_opts \<Rightarrow> dseries list \<Rightarrow> svg_rect list js" where
  "bar_render e opts series = js_bind (series_bar_width e opts series) (\<lambda>w. Inr (bar_loop e opts w (Fin 0) series))"

section \<open>Area.render\<close>

definition stroke_text :: "draw_env \<Rightarrow> dseries \<Rightarrow> string" where
  "stroke_text e s =
     (case ds_stroke s of
        StrokeColor c \<Rightarrow> if c = [] then e_darker e (st_color (ds_style s)) else c
      | StrokeNode _ \<Rightarrow> ''[object SVGPathElement]''
      | NoStroke \<Rightarrow> e_darker e (st_color (ds_style s)))"

definition area_style :: "draw_env \<Rightarrow> draw_opts \<Rightarrow> dseries \<Rightarrow> svg_area \<Rightarrow> svg_area" where
  "area_style e opts s a =
     a\<lparr>sa_fill := Some (st_color (ds_style s)),
       sa_line_stroke := (if o_stroke opts then Some (stroke_text e s, o_strokeWidth opts) else sa_line_stroke a),
       sa_class := (if ds_className s \<noteq> [] then Some (ds_className s) else sa_class a)\<rparr>"

fun area_loop :: "draw_env \<Rightarrow> draw_opts \<Rightarrow> nat \<Rightarrow> dseries list \<Rightarrow> svg_area list \<Rightarrow> dseries list \<times> svg_area list" where
  "area_loop e opts i [] nodes = ([], nodes)"
| "area_loop e opts i (s # ss) nodes =
     (if ds_disabled s then let (ss', nodes') = area_loop e opts i ss nodes in (s # ss', nodes')
      else let (ss', nodes') = area_loop e opts (Suc i) ss (nodes[i := area_style e opts s (nodes ! i)])
           in (s\<lparr>ds_path := Some i\<rparr> # ss', nodes'))"

text \<open>
  With stacking the groups are inserted before the first one, so the last series is drawn first; the result has the groups in the
  order of the data, and the flag says whether the drawing has them reversed.
\<close>

definition area_render :: "draw_env \<Rightarrow> draw_opts \<Rightarrow> dseries list \<Rightarrow> bool \<times> dseries list \<times> svg_area list" where
  "area_render e opts series =
     (let nodes = map (\<lambda>row. \<lparr>sa_area = area_path e row, sa_fill = None, sa_line = (if o_stroke opts then area_stroke_path e row else None),
                          sa_line_stroke = None, sa_class = None\<rparr>) (active_stacks series)
      in (\<not> o_unstack opts, area_loop e opts 0 series nodes))"

section \<open>ScatterPlot.render and LinePlot.render\<close>

definition scatter_circle :: "draw_env \<Rightarrow> draw_opts \<Rightarrow> dseries \<Rightarrow> dpoint \<Rightarrow> svg_circle option" where
  "scatter_circle e opts s d =
     map_option (\<lambda>y. \<lparr>sc_class = (if ds_className s \<noteq> [] then e_classed e (ds_className s) [] else []), sc_cx = e_x e (px d), sc_cy = e_y e y,
        sc_r = (case dp_r d of None \<Rightarrow> o_dotSize opts | Some r \<Rightarrow> r),
        sc_opacity = Some (case dp_opacity d of None \<Rightarrow> or_opt (st_opacity (ds_style s)) (Fin 1) | Some p \<Rightarrow> p),
        sc_fill = st_color (ds_style s), sc_stroke = None\<rparr>) (py d)"

definition scatter_render :: "draw_env \<Rightarrow> draw_opts \<Rightarrow> dseries list \<Rightarrow> svg_circle list" where
  "scatter_render e opts series =
     concat (map (\<lambda>s. if ds_disabled s then [] else List.map_filter (scatter_circle e opts s) (ds_stack s)) series)"

definition plot_circle :: "draw_env \<Rightarrow> draw_opts \<Rightarrow> dseries \<Rightarrow> dpoint \<Rightarrow> svg_circle option" where
  "plot_circle e opts s d =
     map_option (\<lambda>y. \<lparr>sc_class = [], sc_cx = e_x e (px d), sc_cy = e_y e y, sc_r = (case dp_r d of None \<Rightarrow> o_dotSize opts | Some r \<Rightarrow> r),
        sc_opacity = None, sc_fill = ''white'', sc_stroke = Some (st_color (ds_style s), o_strokeWidth opts)\<rparr>) (py d)"

fun plot_loop :: "draw_env \<Rightarrow> draw_opts \<Rightarrow> nat \<Rightarrow> dseries list \<Rightarrow> svg_path list \<Rightarrow> dseries list \<times> svg_path list" where
  "plot_loop e opts i [] nodes = ([], nodes)"
| "plot_loop e opts i (s # ss) nodes =
     (if ds_disabled s then let (ss', nodes') = plot_loop e opts i ss nodes in (s # ss', nodes')
      else let (ss', nodes') = plot_loop e opts (Suc i) ss (nodes[i := style_path e opts s (nodes ! i)])
           in (s\<lparr>ds_path := Some i\<rparr> # ss', nodes'))"

definition lineplot_render :: "draw_env \<Rightarrow> draw_opts \<Rightarrow> dseries list \<Rightarrow> dseries list \<times> svg_path list \<times> svg_circle list" where
  "lineplot_render e opts series =
     (let nodes = map (\<lambda>row. \<lparr>sp_class = [], sp_d = lineplot_path e row, sp_style = None\<rparr>) (active_stacks series);
          (series', paths) = plot_loop e opts 0 series nodes
      in (series', paths, concat (map (\<lambda>s. if ds_disabled s then [] else List.map_filter (plot_circle e opts s) (ds_stack s)) series')))"

section \<open>The multi renderer\<close>

text \<open>
  \<open>renderGroups\<close> is an object keyed by the name of the renderer; its keys are enumerated in the order of their first use. A group has
  the numbers of its series. \<open>known\<close> says which names the graph's registry has, \<open>config\<close> holds the options that the renderer of a new
  group is configured with.
\<close>

definition group_config :: "jsval \<Rightarrow> jsval \<Rightarrow> jsval \<Rightarrow> jsval \<Rightarrow> jsval" where
  "group_config multi_default renderer_default config graph = fold (\<lambda>d c. extend_obj c d) [multi_default, renderer_default, config, graph] (JObj [])"

fun add_to_group :: "string \<Rightarrow> nat \<Rightarrow> (string \<times> nat list) list \<Rightarrow> (string \<times> nat list) list" where
  "add_to_group name i [] = [(name, [i])]"
| "add_to_group name i ((n, is) # gs) = (if n = name then (n, is @ [i]) # gs else (n, is) # add_to_group name i gs)"

fun multi_groups :: "(string \<Rightarrow> bool) \<Rightarrow> (nat \<times> dseries) list \<Rightarrow> (string \<times> nat list) list \<Rightarrow> (string \<times> nat list) list js" where
  "multi_groups known [] groups = Inr groups"
| "multi_groups known ((i, s) # ss) groups =
     (if ds_disabled s then multi_groups known ss groups
      else if ds_renderer s \<notin> fst ` set groups \<and> \<not> known (ds_renderer s) then Inl TypeError
      else multi_groups known ss (add_to_group (ds_renderer s) i groups))"

text \<open>
  \<open>_stack\<close>: the layout of d3 writes the offsets into the points of the rows it is given, so the rows of a group that stacks change
  at once; each series also keeps a copy of its stacked row.
\<close>

definition stack_group :: "(string \<Rightarrow> bool) \<Rightarrow> (dpoint list list \<Rightarrow> dpoint list list) \<Rightarrow> string \<times> nat list \<Rightarrow> dseries list \<Rightarrow> dseries list" where
  "stack_group unstacks layout g series =
     (if unstacks (fst g) then series
      else fold (\<lambda>(i, row) ss. ss[i := (ss ! i)\<lparr>ds_stack := row, ds_saved := Some row\<rparr>])
             (zip (snd g) (layout (map (\<lambda>i. ds_stack (series ! i)) (snd g)))) series)"

text \<open>
  \<open>render\<close>: every group is drawn with its own renderer, which may set fields of the series; then its series take up the row they kept,
  which may be one of an earlier rendering.
\<close>

definition keep_saved :: "dseries \<Rightarrow> dseries" where
  "keep_saved s = s\<lparr>ds_stack := (case ds_saved s of Some row \<Rightarrow> row | None \<Rightarrow> ds_stack s)\<rparr>"

definition draw_group ::
  "(string \<Rightarrow> jsval) \<Rightarrow> (string \<Rightarrow> jsval \<Rightarrow> dseries list \<Rightarrow> (dseries list \<times> 'd) js) \<Rightarrow> string \<times> nat list \<Rightarrow>
   dseries list \<times> (string \<times> nat list \<times> 'd) list \<Rightarrow> (dseries list \<times> (string \<times> nat list \<times> 'd) list) js"
where
  "draw_group config draw g st =
     js_bind (draw (fst g) (config (fst g)) (map ((!) (fst st)) (snd g)))
       (\<lambda>(drawn, d). Inr (fold (\<lambda>(i, s) ss. ss[i := keep_saved s]) (zip (snd g) drawn) (fst st), snd st @ [(fst g, snd g, d)]))"

definition multi_render ::
  "(string \<Rightarrow> bool) \<Rightarrow> (string \<Rightarrow> bool) \<Rightarrow> (dpoint list list \<Rightarrow> dpoint list list) \<Rightarrow> (string \<Rightarrow> jsval) \<Rightarrow>
   (string \<Rightarrow> jsval \<Rightarrow> dseries list \<Rightarrow> (dseries list \<times> 'd) js) \<Rightarrow> dseries list \<Rightarrow> (dseries list \<times> (string \<times> nat list \<times> 'd) list) js"
where
  "multi_render known unstacks layout config draw series =
     (if list_ex (\<lambda>s. ds_renderer s = []) series
      then Inl (Thrown ''Each series needs a renderer for graph 'multi' renderer'')
      else
        js_bind (multi_groups known (enumerate 0 series) [])
          (\<lambda>groups. for_each (draw_group config draw) groups (fold (stack_group unstacks layout) groups series, [])))"

text \<open>
  \<open>domain\<close>, of the series after \<open>stackData\<close>: it stacks the groups as well, and gives the smallest and largest ends over them;
  \<open>d3_min\<close> and \<open>d3_max\<close> are those of d3.
\<close>

definition multi_domain ::
  "(string \<Rightarrow> bool) \<Rightarrow> (string \<Rightarrow> bool) \<Rightarrow> (dpoint list list \<Rightarrow> dpoint list list) \<Rightarrow> (jsnum list \<Rightarrow> jsnum) \<Rightarrow> (jsnum list \<Rightarrow> jsnum) \<Rightarrow>
   (string \<Rightarrow> dpoint list list \<Rightarrow> domain_xy) \<Rightarrow> dseries list \<Rightarrow> (dseries list \<times> domain_xy) js"
where
  "multi_domain known unstacks layout d3_min d3_max group_domain series =
     js_bind (multi_groups known (enumerate 0 series) [])
       (\<lambda>groups.
          let series' = fold (stack_group unstacks layout) groups series;
              domains = map (\<lambda>g. group_domain (fst g) (map (\<lambda>i. ds_stack (series' ! i)) (snd g))) groups
          in Inr (series', \<lparr>dom_x = (d3_min (map (fst \<circ> dom_x) domains), d3_max (map (snd \<circ> dom_x) domains)),
                           dom_y = (d3_min (map (fst \<circ> dom_y) domains), d3_max (map (snd \<circ> dom_y) domains))\<rparr>))"

section \<open>Every series gets its own node\<close>

abbreviation drawn_series :: "dseries list \<Rightarrow> dseries list" where
  "drawn_series ss \<equiv> filter (\<lambda>s. \<not> ds_disabled s) ss"

lemma hand_out_nodes:
  assumes "length A = i" and "length P = length (drawn_series ss)"
    and "o_stroke opts \<Longrightarrow> length Q = length (drawn_series ss) \<and> offset = length P + length B"
  shows "snd (hand_out e opts offset i ss (A @ P @ B @ Q)) =
    A @ map2 (style_path e opts) (drawn_series ss) P @ B @ (if o_stroke opts then map2 (style_stroke e opts) (drawn_series ss) Q else Q)"
  using assms
proof (induction ss arbitrary: A P B Q i offset)
  case (Cons s ss)
  show ?case
  proof (cases "ds_disabled s")
    case True
    then show ?thesis using Cons.IH [of A i P Q offset B] Cons.prems by (simp add: split_beta)
  next
    case False
    obtain p P' where P: "P = p # P'" using False Cons.prems(2) by (cases P) auto
    let ?p = "style_path e opts s p"
    have n1: "(A @ P @ B @ Q)[i := style_path e opts s ((A @ P @ B @ Q) ! i)] = (A @ [?p]) @ P' @ B @ Q"
      using Cons.prems(1) P by (simp add: nth_append list_update_append)
    show ?thesis
    proof (cases "o_stroke opts")
      case True
      obtain q Q' where Q: "Q = q # Q'" using False True Cons.prems(3) by (cases Q) auto
      have off: "offset + i = length ((A @ [?p]) @ P' @ B)" using Cons.prems(1,3) True P by simp
      have "((A @ [?p]) @ P' @ B @ Q)[offset + i := style_stroke e opts s (((A @ [?p]) @ P' @ B @ Q) ! (offset + i))] =
          (A @ [?p]) @ P' @ (B @ [style_stroke e opts s q]) @ Q'"
        unfolding off Q by (metis append.assoc append_Cons append_Nil list_update_length nth_append_length)
      moreover have "length (A @ [?p]) = Suc i" "length P' = length (drawn_series ss)"
        "length Q' = length (drawn_series ss) \<and> offset = length P' + length (B @ [style_stroke e opts s q])"
        using Cons.prems True False P Q by simp_all
      ultimately show ?thesis
        using Cons.IH [of "A @ [?p]" "Suc i" P' Q' offset "B @ [style_stroke e opts s q]"] False True n1 P Q
        by (simp add: split_beta Let_def)
    next
      case plain: False
      then show ?thesis
        using Cons.IH [of "A @ [?p]" "Suc i" P' Q offset B] Cons.prems(1,2) False n1 P by (simp add: split_beta Let_def)
    qed
  qed
qed simp

lemma hand_out_series:
  "map ds_path (drawn_series (fst (hand_out e opts offset i ss nodes))) = map Some [i ..< i + length (drawn_series ss)]
   \<and> map (\<lambda>s. s\<lparr>ds_path := None, ds_stroke := NoStroke\<rparr>) (fst (hand_out e opts offset i ss nodes)) = map (\<lambda>s. s\<lparr>ds_path := None, ds_stroke := NoStroke\<rparr>) ss
   \<and> (o_stroke opts \<longrightarrow> (\<forall>s \<in> set (drawn_series (fst (hand_out e opts offset i ss nodes))). \<exists>n. ds_stroke s = StrokeNode n))"
proof (induction ss arbitrary: i nodes)
  case (Cons s ss)
  then show ?case by (auto simp: split_beta Let_def upt_rec)
qed simp

lemma area_loop_nodes:
  assumes "length A = i" and "length P = length (drawn_series ss)"
  shows "snd (area_loop e opts i ss (A @ P)) = A @ map2 (area_style e opts) (drawn_series ss) P"
  using assms
proof (induction ss arbitrary: A P i)
  case (Cons s ss)
  show ?case
  proof (cases "ds_disabled s")
    case True
    then show ?thesis using Cons.IH [of A i P] Cons.prems by (simp add: split_beta)
  next
    case False
    obtain p P' where P: "P = p # P'" using False Cons.prems(2) by (cases P) auto
    have "(A @ P)[i := area_style e opts s ((A @ P) ! i)] = (A @ [area_style e opts s p]) @ P'"
      using Cons.prems(1) P by (simp add: nth_append list_update_append)
    then show ?thesis
      using Cons.IH [of "A @ [area_style e opts s p]" "Suc i" P'] Cons.prems False P by (simp add: split_beta Let_def)
  qed
qed simp

lemma unstacked_loop:
  assumes "o_unstack opts"
  shows "bar_loop e opts (Fin w) (Fin (of_nat k * w)) ss =
    concat (map (\<lambda>(k, s). List.map_filter (bar_rect e (Fin (of_nat k * w)) (Fin w) s) (ds_stack s)) (enumerate k (drawn_series ss)))"
proof (induction ss arbitrary: k)
  case (Cons s ss)
  have "Fin (of_nat k * w) + Fin w = Fin (of_nat (Suc k) * w)" by (simp add: algebra_simps)
  then show ?case using Cons [of k] Cons [of "Suc k"] assms by (cases "ds_disabled s") (simp_all only: bar_loop.simps if_True if_False
      filter.simps enumerate_simps list.map concat.simps prod.case simp_thms)
qed simp

section \<open>Groups\<close>

lemma add_to_group_concat: "mset (concat (map snd (add_to_group name i gs))) = add_mset i (mset (concat (map snd gs)))"
  by (induction gs) auto

lemma add_to_group_map: "map fst (add_to_group name i gs) = (if name \<in> set (map fst gs) then map fst gs else map fst gs @ [name])"
  by (induction gs) force+

lemma add_to_group_names: "distinct (map fst gs) \<Longrightarrow> distinct (map fst (add_to_group name i gs))"
  by (simp add: add_to_group_map)

lemma add_to_group_in:
  "(n, is) \<in> set (add_to_group name i gs) \<Longrightarrow> (n, is) \<in> set gs \<or> n = name \<and> (is = [i] \<or> (\<exists>is'. (n, is') \<in> set gs \<and> is = is' @ [i]))"
  by (induction gs) (auto split: if_splits)

lemma add_to_group_members:
  assumes "\<forall>(n, is) \<in> set gs. is \<noteq> [] \<and> (\<forall>j \<in> set is. f j = n) \<and> sorted_wrt (<) is \<and> (\<forall>j \<in> set is. j < i)" and "f i = name"
  shows "\<forall>(n, is) \<in> set (add_to_group name i gs). is \<noteq> [] \<and> (\<forall>j \<in> set is. f j = n) \<and> sorted_wrt (<) is \<and> (\<forall>j \<in> set is. j < Suc i)"
  using assms by (fastforce dest!: add_to_group_in simp: sorted_wrt_append less_Suc_eq)

definition groups_inv :: "dseries list \<Rightarrow> nat \<Rightarrow> (string \<times> nat list) list \<Rightarrow> bool" where
  "groups_inv series k gs = (distinct (map fst gs) \<and> mset (concat (map snd gs)) = mset (filter (\<lambda>i. \<not> ds_disabled (series ! i)) [0 ..< k])
     \<and> (\<forall>(n, is) \<in> set gs. is \<noteq> [] \<and> (\<forall>j \<in> set is. ds_renderer (series ! j) = n) \<and> sorted_wrt (<) is \<and> (\<forall>j \<in> set is. j < k)))"

lemma multi_groups_step:
  assumes "groups_inv series k gs" and "k \<le> length series" and "\<forall>s \<in> set (drawn_series series). known (ds_renderer s)"
  shows "\<exists>gs'. multi_groups known (enumerate k (drop k series)) gs = Inr gs' \<and> groups_inv series (length series) gs'"
  using assms(1,2)
proof (induction "length series - k" arbitrary: k gs)
  case 0
  then show ?case by simp
next
  case (Suc m)
  then have k: "k < length series" by simp
  then have d: "enumerate k (drop k series) = (k, series ! k) # enumerate (Suc k) (drop (Suc k) series)"
    by (simp add: Cons_nth_drop_Suc [symmetric])
  have up: "[0 ..< Suc k] = [0 ..< k] @ [k]" by simp
  show ?case
  proof (cases "ds_disabled (series ! k)")
    case True
    then have "groups_inv series (Suc k) gs" using Suc.prems(1) by (auto simp: groups_inv_def less_Suc_eq)
    then show ?thesis using Suc.hyps(1) [of "Suc k" gs] Suc.hyps(2) k d True by simp
  next
    case False
    then have kn: "known (ds_renderer (series ! k))" using assms(3) k by simp
    let ?g = "add_to_group (ds_renderer (series ! k)) k gs"
    have "groups_inv series (Suc k) ?g"
      using Suc.prems(1) False add_to_group_names [of gs] add_to_group_members [of gs "\<lambda>j. ds_renderer (series ! j)" k]
      unfolding groups_inv_def up by (simp add: add_to_group_concat)
    then show ?thesis using Suc.hyps(1) [of "Suc k" ?g] Suc.hyps(2) k d False kn by simp
  qed
qed

lemma draw_groups:
  assumes "\<forall>n c ss. \<exists>r. draw n c ss = Inr r"
  shows "\<exists>ss out. for_each (draw_group config draw) gs st = Inr (ss, out) \<and> map (\<lambda>(n, is, _). (n, is)) out = map (\<lambda>(n, is, _). (n, is)) (snd st) @ gs"
proof (induction gs arbitrary: st)
  case Nil
  then show ?case by (cases st) simp
next
  case (Cons g gs)
  obtain drawn d where d: "draw (fst g) (config (fst g)) (map ((!) (fst st)) (snd g)) = Inr (drawn, d)"
    using assms by (metis surj_pair)
  let ?st = "(fold (\<lambda>(i, s) ss. ss[i := keep_saved s]) (zip (snd g) drawn) (fst st), snd st @ [(fst g, snd g, d)])"
  from Cons [of ?st] show ?case using d by (cases g) (simp add: draw_group_def)
qed

lemma render_paths_nodes:
  shows "let (series', nodes) = render_paths pf sf e opts series; act = filter (\<lambda>s. \<not> ds_disabled s) series in
    nodes = map (\<lambda>s. style_path e opts s \<lparr>sp_class = [''path''], sp_d = pf e (ds_stack s), sp_style = None\<rparr>) act
      @ (if o_stroke opts then map (\<lambda>s. style_stroke e opts s \<lparr>sp_class = [''stroke''], sp_d = sf e (ds_stack s), sp_style = None\<rparr>) act else [])
    \<and> map ds_path (filter (\<lambda>s. \<not> ds_disabled s) series') = map Some [0 ..< length act]
    \<and> map ds_stack series' = map ds_stack series \<and> map ds_style series' = map ds_style series"
proof -
  let ?act = "drawn_series series"
  define P where "P = map (\<lambda>s. \<lparr>sp_class = [''path''], sp_d = pf e (ds_stack s), sp_style = None :: path_style option\<rparr>) ?act"
  define Q where "Q = (if o_stroke opts then map (\<lambda>s. \<lparr>sp_class = [''stroke''], sp_d = sf e (ds_stack s), sp_style = None\<rparr>) ?act else [])"
  obtain series' nodes where h: "hand_out e opts (length ?act) 0 series (P @ Q) = (series', nodes)" by fastforce
  have r: "render_paths pf sf e opts series = (series', nodes)"
    using h by (cases "o_stroke opts") (simp_all add: render_paths_def active_stacks_def Let_def P_def Q_def comp_def)
  have z: "map2 f xs (map k xs) = map (\<lambda>s. f s (k s)) xs" for f :: "dseries \<Rightarrow> svg_path \<Rightarrow> svg_path" and k xs
    by (induction xs) auto
  have "nodes = map2 (style_path e opts) ?act P @ (if o_stroke opts then map2 (style_stroke e opts) ?act Q else Q)"
    using hand_out_nodes [of "[]" 0 P series opts Q "length ?act" "[]" e] h by (simp add: P_def Q_def)
  then have "nodes = map (\<lambda>s. style_path e opts s \<lparr>sp_class = [''path''], sp_d = pf e (ds_stack s), sp_style = None\<rparr>) ?act
      @ (if o_stroke opts then map (\<lambda>s. style_stroke e opts s \<lparr>sp_class = [''stroke''], sp_d = sf e (ds_stack s), sp_style = None\<rparr>) ?act else [])"
    by (cases "o_stroke opts") (simp_all add: P_def Q_def z)
  moreover have s: "map ds_path (drawn_series series') = map Some [0 ..< length ?act]"
    "map (\<lambda>s. s\<lparr>ds_path := None, ds_stroke := NoStroke\<rparr>) series' = map (\<lambda>s. s\<lparr>ds_path := None, ds_stroke := NoStroke\<rparr>) series"
    using hand_out_series [of e opts "length ?act" 0 series "P @ Q"] h by auto
  moreover have "map ds_stack series' = map ds_stack series" "map ds_style series' = map ds_style series"
    using arg_cong [OF s(2), of "map ds_stack"] arg_cong [OF s(2), of "map ds_style"] by (simp_all add: comp_def)
  ultimately show ?thesis unfolding r Let_def by simp
qed

section \<open>Properties\<close>

text \<open>
  The renderers that draw paths give every active series, in the order of the series, one path of its own points with its own
  style and, with strokes, one stroke node; the series refer to their paths, and nothing else about them changes.
\<close>

theorem render_paths_own_nodes:
  shows "let (series', nodes) = render_paths pf sf e opts series; act = filter (\<lambda>s. \<not> ds_disabled s) series in
    nodes = map (\<lambda>s. style_path e opts s \<lparr>sp_class = [''path''], sp_d = pf e (ds_stack s), sp_style = None\<rparr>) act
      @ (if o_stroke opts then map (\<lambda>s. style_stroke e opts s \<lparr>sp_class = [''stroke''], sp_d = sf e (ds_stack s), sp_style = None\<rparr>) act else [])
    \<and> map ds_path (filter (\<lambda>s. \<not> ds_disabled s) series') = map Some [0 ..< length act]
    \<and> map ds_stack series' = map ds_stack series \<and> map ds_style series' = map ds_style series"
  by (rule render_paths_nodes)

text \<open>The vertical extent of a rectangle on the screen, after its matrix.\<close>

definition screen_y :: "svg_rect \<Rightarrow> jsnum \<Rightarrow> jsnum" where
  "screen_y r v = (sr_matrix r ! 3) * v + (sr_matrix r ! 5)"

text \<open>
  A bar covers exactly the span between the base of its point and its value, upwards for a positive and, through the mirror
  matrix, downwards for a negative one, for every linear vertical scale.
\<close>

theorem bar_covers_value:
  assumes "\<forall>v. e_y e (Fin v) = Fin (height - m * v)" and "\<forall>v. e_y_magnitude e (Fin v) = Fin (m * v)"
    and "py d = Some (Fin y)" and "py0 d = Some (Fin y0)"
  shows "\<exists>r. bar_rect e off w s d = Some r \<and> sr_width r = w \<and> sr_x r = e_x e (px d) + off
    \<and> {screen_y r (sr_y r), screen_y r (sr_y r + sr_height r)} = {e_y e (Fin y0), e_y e (Fin (y0 + y))}"
proof (cases "y < 0")
  case True
  then show ?thesis using assms
    by (simp add: bar_rect_def bar_matrix_def screen_y_def y0_num_def algebra_simps insert_commute)
next
  case False
  then show ?thesis using assms
    by (simp add: bar_rect_def bar_matrix_def screen_y_def y0_num_def algebra_simps insert_commute)
qed

definition linear_env :: draw_env where
  "linear_env = \<lparr>e_x = (\<lambda>t. t * Fin 10), e_y = (\<lambda>v. Fin 100 - Fin 2 * v), e_x_magnitude = (\<lambda>t. t * Fin 10), e_y_magnitude = (\<lambda>v. Fin 2 * v),
     e_line = (\<lambda>_. ''''), e_area = (\<lambda>_. ''''), e_classed = (\<lambda>c cs. cs @ [c]), e_darker = (\<lambda>c. c)\<rparr>"

definition drawn_row :: "dpoint list \<Rightarrow> dseries" where
  "drawn_row row = \<lparr>ds_stack = row, ds_disabled = False, ds_renderer = ''bar'',
     ds_style = \<lparr>st_color = ''red'', st_strokeWidth = None, st_opacity = None\<rparr>, ds_className = '''', ds_stroke = NoStroke, ds_path = None, ds_saved = None\<rparr>"

definition dpt :: "rat \<Rightarrow> rat \<Rightarrow> dpoint" where
  "dpt x y = \<lparr>px = Fin x, py = Some (Fin y), py0 = Some (Fin 0), pidx = None, dp_r = None, dp_opacity = None\<rparr>"

theorem bar_covers_value_witness:
  "\<exists>r. bar_rect linear_env (Fin 0) (Fin 9) (drawn_row []) (dpt 3 (- 5)) = Some r
     \<and> {screen_y r (sr_y r), screen_y r (sr_y r + sr_height r)} = {Fin 100, Fin 110}"
  using bar_covers_value [of linear_env 100 2 "dpt 3 (- 5)" "- 5" 0 "Fin 0" "Fin 9" "drawn_row []"]
  by (auto simp: linear_env_def dpt_def)

text \<open>One rectangle ends where the other begins, or before.\<close>

definition beside :: "svg_rect \<Rightarrow> svg_rect \<Rightarrow> bool" where
  "beside r r' = (sr_x r + sr_width r \<le> sr_x r' \<or> sr_x r' + sr_width r' \<le> sr_x r)"

text \<open>The bars are as wide as the gap allows, and each has its slot in the gap behind its time.\<close>

lemma bar_slots:
  assumes scale: "\<forall>t. e_x e (Fin t) = Fin (a + b * t)" "0 < b" and w: "0 \<le> w" "of_nat n * w \<le> b * step"
    and ij: "i < n" "j < n" and t: "px d = Fin t" "px d' = Fin t'"
    and r: "bar_rect e (Fin (of_nat i * w)) (Fin w) s d = Some r" "bar_rect e (Fin (of_nat j * w)) (Fin w) s' d' = Some r'"
    and apart: "t = t' \<and> i < j \<or> t + step \<le> t'"
  shows "sr_x r + sr_width r \<le> sr_x r'"
proof -
  have x: "sr_x r + sr_width r = Fin (a + b * t + of_nat (Suc i) * w)" "sr_x r' = Fin (a + b * t' + of_nat j * w)"
    using r t scale(1) by (auto simp: bar_rect_def algebra_simps)
  have le: "of_nat m * w \<le> of_nat k * w" if "m \<le> k" for m k using that w(1) by (simp add: mult_right_mono)
  from apart have "a + b * t + of_nat (Suc i) * w \<le> a + b * t' + of_nat j * w"
  proof
    assume "t = t' \<and> i < j"
    then show ?thesis using le [of "Suc i" j] by simp
  next
    assume "t + step \<le> t'"
    then have "b * (t + step) \<le> b * t'" using scale(2) by simp
    moreover have "of_nat (Suc i) * w \<le> of_nat n * w" using ij(1) by (intro le) simp
    moreover have "0 \<le> of_nat j * w" using w(1) by simp
    ultimately show ?thesis using w(2) by (simp add: algebra_simps)
  qed
  then show ?thesis by (simp only: x jsnum_arith)
qed

lemma fin_times: "\<exists>ts. map px ds = map Fin ts \<and> P ts \<Longrightarrow> d \<in> set ds \<Longrightarrow> \<exists>t. px d = Fin t"
proof -
  assume "\<exists>ts. map px ds = map Fin ts \<and> P ts" and d: "d \<in> set ds"
  then obtain ts where "map px ds = map Fin ts" by blast
  then have "px d \<in> set (map Fin ts)" using d by (metis image_eqI list.set_map)
  then show ?thesis by auto
qed

lemma sorted_times:
  assumes "map px ds = map Fin ts" and "sorted_wrt (<) ts"
  shows "sorted_wrt (\<lambda>d d'. \<exists>t t'. px d = Fin t \<and> px d' = Fin t' \<and> t < t') ds"
  using assms
proof (induction ds arbitrary: ts)
  case (Cons d ds)
  then obtain u us where ts: "ts = u # us" by (cases ts) auto
  have "\<exists>t'. px d' = Fin t' \<and> u < t'" if "d' \<in> set ds" for d'
  proof -
    have "px d' \<in> set (map px ds)" using that by simp
    moreover have "map px ds = map Fin us" using Cons.prems(1) ts by simp
    ultimately have "px d' \<in> Fin ` set us" by (simp only: set_map)
    then show ?thesis using Cons.prems(2) ts by auto
  qed
  with Cons ts show ?case by auto
qed simp

lemma sorted_wrt_map_filter: "sorted_wrt (\<lambda>x y. \<forall>u v. f x = Some u \<longrightarrow> f y = Some v \<longrightarrow> R u v) xs \<Longrightarrow> sorted_wrt R (List.map_filter f xs)"
  by (induction xs) (auto simp: map_filter_def split: option.splits)

lemma sorted_wrt_concat:
  "\<forall>xs \<in> set xss. sorted_wrt R xs \<Longrightarrow> sorted_wrt (\<lambda>xs ys. \<forall>x \<in> set xs. \<forall>y \<in> set ys. R x y) xss \<Longrightarrow> sorted_wrt R (concat xss)"
  by (induction xss) (auto simp: sorted_wrt_append)


text \<open>
  The width is based on the most frequent gap, not on the smallest: for the times 0, 10, 20 and 21 the bars at 20 and 21 overlap.
\<close>

theorem uneven_bars_overlap:
  assumes "o_unstack opts" and scale: "\<forall>t. e_x e (Fin t) = Fin (a + b * t)" "\<forall>t. e_x_magnitude e (Fin t) = Fin (b * t)" "0 < b"
    and gap: "o_gapSize opts = Fin gap" "gap < 9 / 10"
    and s: "ds_disabled s = False" "map px (ds_stack s) = map Fin [0, 10, 20, 21]" "\<forall>d \<in> set (ds_stack s). py d \<noteq> None"
  shows "\<exists>rs. bar_render e opts [s] = Inr rs \<and> length rs = 4 \<and> \<not> beside (rs ! 2) (rs ! 3)"
proof -
  obtain d0 d1 d2 d3 where d: "ds_stack s = [d0, d1, d2, d3]" "px d0 = Fin 0" "px d1 = Fin 10" "px d2 = Fin 20" "px d3 = Fin 21"
    using s(2) by (auto simp: map_eq_Cons_conv)
  obtain y0 y1 y2 y3 where y: "py d0 = Some y0" "py d1 = Some y1" "py d2 = Some y2" "py d3 = Some y3" using s(3) d(1) by auto
  have "px (point.truncate p) = px p" for p :: dpoint by (simp add: point.defs)
  then have "fr_magnitude (frequentInterval (map point.truncate (ds_stack s))) = Fin 10"
    using d by (simp add: frequentInterval_def interval_counts_def row_intervals_def sort_asc_def Let_def)
  then have "series_bar_width e opts [s] = Inr (Fin (b * 10 * (1 - gap)))"
    using assms(1) s(1) scale(2) gap(1) by (simp add: series_bar_width_def barWidth_def Let_def)
  then have "bar_render e opts [s] = Inr (List.map_filter (bar_rect e (Fin 0) (Fin (b * 10 * (1 - gap))) s) (ds_stack s))"
    using s(1) by (simp add: bar_render_def)
  moreover have "b * 20 < b * 21" "b * 1 < b * 10 * (1 - gap)" using scale(3) gap(2) by simp_all
  ultimately show ?thesis using d y scale(1)
    by (auto simp: map_filter_def bar_rect_def beside_def numeral_2_eq_2 numeral_3_eq_3 algebra_simps)
qed

text \<open>
  C31. The multi renderer draws every active series exactly once: the groups have distinct renderers, together they hold the active series,
  each group only series of its renderer and in the order of the graph, and when no renderer throws these are the groups it draws. A series
  without a renderer stops it before anything is drawn.
\<close>

theorem multi_groups_partition:
  assumes "\<forall>s \<in> set series. \<not> ds_disabled s \<longrightarrow> known (ds_renderer s)" and "\<forall>n c ss. \<exists>r. draw n c ss = Inr r"
  shows "(\<exists>gs. multi_groups known (enumerate 0 series) [] = Inr gs \<and> distinct (map fst gs)
      \<and> mset (concat (map snd gs)) = mset (filter (\<lambda>i. \<not> ds_disabled (series ! i)) [0 ..< length series])
      \<and> (\<forall>(n, is) \<in> set gs. is \<noteq> [] \<and> sorted_wrt (<) is \<and> (\<forall>i \<in> set is. ds_renderer (series ! i) = n))
      \<and> ((\<forall>s \<in> set series. ds_renderer s \<noteq> []) \<longrightarrow>
          (\<exists>series' out. multi_render known unstacks layout config draw series = Inr (series', out) \<and> map (\<lambda>(n, is, _). (n, is)) out = gs)))
    \<and> ((\<exists>s \<in> set series. ds_renderer s = []) \<longrightarrow> (\<exists>t. multi_render known unstacks layout config draw series = Inl (Thrown t)))"
proof -
  have "groups_inv series 0 []" by (simp add: groups_inv_def)
  from multi_groups_step [OF this, of known] assms(1) obtain gs where
    gs: "multi_groups known (enumerate 0 series) [] = Inr gs" "groups_inv series (length series) gs" by auto
  obtain ss out where "for_each (draw_group config draw) gs (fold (stack_group unstacks layout) gs series, []) = Inr (ss, out)"
    "map (\<lambda>(n, is, _). (n, is)) out = gs"
    using draw_groups [OF assms(2), of config gs "(fold (stack_group unstacks layout) gs series, [])"] by auto
  then have "(\<forall>s \<in> set series. ds_renderer s \<noteq> []) \<longrightarrow>
      (\<exists>series' out. multi_render known unstacks layout config draw series = Inr (series', out) \<and> map (\<lambda>(n, is, _). (n, is)) out = gs)"
    by (auto simp: multi_render_def list_ex_iff gs(1))
  moreover have "(\<exists>s \<in> set series. ds_renderer s = []) \<longrightarrow> (\<exists>t. multi_render known unstacks layout config draw series = Inl (Thrown t))"
    by (auto simp: multi_render_def list_ex_iff)
  ultimately show ?thesis using gs by (fastforce simp: groups_inv_def)
qed

theorem multi_groups_partition_witness:
  "\<exists>gs. multi_groups (\<lambda>_. True) (enumerate 0 [drawn_row [], drawn_row []]) [] = Inr gs \<and> distinct (map fst gs)"
  using multi_groups_partition [of "[drawn_row [], drawn_row []]" "\<lambda>_. True" "\<lambda>_ _ ss. Inr (ss, ())"] by blast

text \<open>
  A renderer with strokes leaves its stroke node in \<open>series.stroke\<close>, where the area renderer expects a colour: after a switch to it,
  the outline of every active series is given the text of an element as its colour.
\<close>

theorem area_outline_after_line:
  assumes "o_stroke opts" and "o_stroke opts'"
  shows "let series' = fst (render_paths pf sf e opts series); (_, _, nodes) = area_render e opts' series' in
    length nodes = length (filter (\<lambda>s. \<not> ds_disabled s) series') \<and> (\<forall>a \<in> set nodes. sa_line_stroke a = Some (''[object SVGPathElement]'', o_strokeWidth opts'))"
proof -
  let ?s = "fst (render_paths pf sf e opts series)"
  obtain nodes0 where r: "?s = fst (hand_out e opts (length (active_stacks series)) 0 series nodes0)" by (simp add: render_paths_def Let_def)
  have st: "\<forall>s \<in> set (drawn_series ?s). \<exists>n. ds_stroke s = StrokeNode n"
    unfolding r using hand_out_series [of e opts _ 0 series nodes0] assms(1) by blast
  define P where "P = map (\<lambda>row. \<lparr>sa_area = area_path e row, sa_fill = None, sa_line = (if o_stroke opts' then area_stroke_path e row else None),
      sa_line_stroke = None, sa_class = None\<rparr>) (active_stacks ?s)"
  have l: "length P = length (drawn_series ?s)" by (simp add: P_def active_stacks_def)
  have "snd (snd (area_render e opts' ?s)) = map2 (area_style e opts') (drawn_series ?s) P"
    using area_loop_nodes [of "[]" 0 P ?s e opts'] l by (simp add: area_render_def P_def Let_def)
  moreover have "sa_line_stroke (area_style e opts' s p) = Some (''[object SVGPathElement]'', o_strokeWidth opts')" if "s \<in> set (drawn_series ?s)" for s p
    using st that assms(2) by (auto simp: area_style_def stroke_text_def)
  ultimately show ?thesis using l by (auto simp: Let_def split_beta dest: set_zip_leftD)
qed

definition demo_opts :: draw_opts where
  "demo_opts = \<lparr>o_fill = False, o_stroke = True, o_strokeWidth = Fin 2, o_opacity = Fin 1, o_unstack = True, o_gapSize = Fin (1 / 20), o_dotSize = Fin 3\<rparr>"

theorem area_outline_after_line_witness:
  "map sa_line_stroke (snd (snd (area_render linear_env demo_opts (fst (render_paths line_path no_path linear_env demo_opts [drawn_row []]))))) =
     [Some (''[object SVGPathElement]'', Fin 2)]"
proof -
  let ?s = "fst (render_paths line_path no_path linear_env demo_opts [drawn_row []])"
  let ?n = "snd (snd (area_render linear_env demo_opts ?s))"
  have "filter (\<lambda>s. \<not> ds_disabled s) ?s = ?s" "length ?s = 1"
    by (simp_all add: render_paths_def active_stacks_def drawn_row_def demo_opts_def Let_def)
  with area_outline_after_line [of demo_opts demo_opts line_path no_path linear_env "[drawn_row []]"]
  have "length ?n = 1" "\<forall>a \<in> set ?n. sa_line_stroke a = Some (''[object SVGPathElement]'', Fin 2)"
    by (simp_all add: Let_def split_beta) (simp_all add: demo_opts_def)
  then show ?thesis by (cases ?n) auto
qed


theorem uneven_bars_overlap_witness:
  "\<exists>rs. bar_render linear_env demo_opts [drawn_row [dpt 0 1, dpt 10 2, dpt 20 3, dpt 21 4]] = Inr rs \<and> \<not> beside (rs ! 2) (rs ! 3)"
proof -
  let ?s = "drawn_row [dpt 0 1, dpt 10 2, dpt 20 3, dpt 21 4]"
  have "map px (ds_stack ?s) = map Fin [0, 10, 20, 21]" "\<forall>d \<in> set (ds_stack ?s). py d \<noteq> None" "ds_disabled ?s = False"
    by (simp_all add: drawn_row_def dpt_def)
  with uneven_bars_overlap [of demo_opts linear_env 0 10 "1 / 20" ?s] show ?thesis by (auto simp: demo_opts_def linear_env_def)
qed

end
