(* ===== verification/DataLoad.thy ===== *)
theory DataLoad
  imports GraphPage
begin

text \<open>
  \<open>Rickshaw.Graph.Ajax\<close> with its subclasses \<open>JSONP\<close> and \<open>Socketio\<close>: the request, what an answer changes in the series, and when the
  graph is made and drawn. The graph is made by the constructor of \<open>GraphConfig\<close> and drawn by its \<open>render\<close>, either of which may throw; the transport, the
  page and what drawing calls are arguments. The series are objects that the answers change in place, so what an answer changed before an error stays changed: a
  step gives the new state beside the error.
\<close>

section \<open>Merging an answer into the series\<close>

text \<open>
  \<open>seriesKey == dataKey\<close> on two texts or two numbers is equality; for other pairs the language converts, which the argument
  \<open>mixed\<close> stands for.
\<close>

fun same_key :: "(jsval \<Rightarrow> jsval \<Rightarrow> bool) \<Rightarrow> jsval \<Rightarrow> jsval \<Rightarrow> bool" where
  "same_key mixed (JStr a) (JStr b) = (a = b)"
| "same_key mixed (JNum a) (JNum b) = js_eq a b"
| "same_key mixed a b = mixed a b"

definition key_of :: "jsval \<Rightarrow> jsval" where
  "key_of v = js_or (get_prop v ''key'') (get_prop v ''name'')"

definition merged_props :: "string list" where
  "merged_props = [''color'', ''name'', ''data'']"

definition copy_props :: "jsval \<Rightarrow> jsval \<Rightarrow> jsval" where
  "copy_props d s = fold (\<lambda>p s. if truthy (get_prop d p) then set_prop p (get_prop d p) s else s) merged_props s"

fun merge_data :: "(jsval \<Rightarrow> jsval \<Rightarrow> bool) \<Rightarrow> jsval \<Rightarrow> jsval list \<Rightarrow> jsval \<Rightarrow> jsval \<times> js_error option" where
  "merge_data mixed seriesKey [] s = (s, None)"
| "merge_data mixed seriesKey (d # ds) s =
     (if nullish d then (s, Some TypeError)
      else if \<not> truthy (key_of d) then (s, Some (Thrown ''data needs a key or a name''))
      else merge_data mixed seriesKey ds (if same_key mixed seriesKey (key_of d) then copy_props d s else s))"

fun splice_rows :: "(jsval \<Rightarrow> jsval \<Rightarrow> bool) \<Rightarrow> jsval \<Rightarrow> jsval list \<Rightarrow> jsval list \<times> js_error option" where
  "splice_rows mixed data [] = ([], None)"
| "splice_rows mixed data (s # ss) =
     (if nullish s then (s # ss, Some TypeError)
      else if \<not> truthy (key_of s) then (s # ss, Some (Thrown ''series needs a key or a name''))
      else
        case (case data of JArr ds \<Rightarrow> merge_data mixed (key_of s) ds s | _ \<Rightarrow> (s, Some TypeError)) of
          (s', Some e) \<Rightarrow> (s' # ss, Some e)
        | (s', None) \<Rightarrow> let (ss', e) = splice_rows mixed data ss in (s' # ss', e))"

definition splice_series :: "(jsval \<Rightarrow> jsval \<Rightarrow> bool) \<Rightarrow> jsval \<Rightarrow> jsval \<Rightarrow> jsval \<times> js_error option" where
  "splice_series mixed data series =
     (if \<not> truthy series then (data, None)
      else case series of
             JArr ss \<Rightarrow> let (ss', e) = splice_rows mixed data ss in (JArr ss', e)
           | _ \<Rightarrow> (series, Some TypeError))"

section \<open>Requests and answers\<close>

datatype transport = Ajax | JSONP | Socketio

datatype load_call = Request string string | Connect string | Listen string | MakeGraph | RenderGraph | OnComplete | OnError

record loader =
  ld_transport :: transport
  ld_dataURL :: string
  ld_args :: jsval
  ld_series :: jsval
  ld_graph :: "graph option"
  ld_log :: "load_call list"

record load_env =
  le_mixed :: "jsval \<Rightarrow> jsval \<Rightarrow> bool"
  le_onData :: "(jsval \<Rightarrow> jsval js) option"
  le_invoke :: invoke
  le_cls :: classes
  le_style :: "jsnum \<times> jsnum"
  le_cmp :: "jsval \<Rightarrow> jsval \<Rightarrow> bool"
  le_element :: "int option"
  le_domain :: "graph \<Rightarrow> domain_xy js"
  le_stack :: "graph \<Rightarrow> graph js"
  le_draw :: "graph \<Rightarrow> graph js"

text \<open>\<open>new Rickshaw.Graph(this.args)\<close> with \<open>args.series\<close> set, and \<open>this.graph.render()\<close>.\<close>

definition load_make :: "load_env \<Rightarrow> jsval \<Rightarrow> jsval \<Rightarrow> graph js" where
  "load_make env args series =
     new_graph (le_invoke env) (le_cls env) (le_style env) (le_cmp env) (le_domain env) (le_element env) (set_prop ''series'' series args)"

definition load_draw :: "load_env \<Rightarrow> graph \<Rightarrow> graph js" where
  "load_draw env g = graph_render (le_invoke env) (le_stack env) (le_domain env) (le_draw env) g"

definition ajax_request :: "string \<Rightarrow> load_call list" where
  "ajax_request url = [Request ''json'' url]"

definition jsonp_request :: "string \<Rightarrow> load_call list" where
  "jsonp_request url = [Request ''jsonp'' url]"

definition socket_request :: "string \<Rightarrow> load_call list" where
  "socket_request url = [Connect url, Listen ''rickshaw'']"

fun load_request :: "transport \<Rightarrow> string \<Rightarrow> load_call list" where
  "load_request Ajax = ajax_request"
| "load_request JSONP = jsonp_request"
| "load_request Socketio = socket_request"

definition new_loader :: "transport \<Rightarrow> string \<Rightarrow> jsval \<Rightarrow> jsval \<Rightarrow> loader" where
  "new_loader tr url args series =
     \<lparr>ld_transport = tr, ld_dataURL = url, ld_args = args, ld_series = series, ld_graph = None, ld_log = load_request tr url\<rparr>"

text \<open>
  The graph's series are the array \<open>args.series\<close> itself: a graph made earlier sees what the answer changed in it, and what drawing writes into its
  elements is in \<open>args.series\<close> afterwards. (What a drawing wrote before it threw is not followed.)
\<close>

definition load_success :: "load_env \<Rightarrow> jsval \<Rightarrow> loader \<Rightarrow> loader \<times> js_error option" where
  "load_success env data st =
     (case (case le_onData env of Some f \<Rightarrow> f data | None \<Rightarrow> Inr data) of
        Inl e \<Rightarrow> (st, Some e)
      | Inr data' \<Rightarrow>
          let (series, err) = splice_series (le_mixed env) data' (ld_series st);
              st1 = st\<lparr>ld_series := series\<rparr>
          in case err of
               Some e \<Rightarrow> (st1, Some e)
             | None \<Rightarrow>
                 (case (case ld_graph st1 of
                          Some g \<Rightarrow> Inr (g\<lparr>g_series := series\<rparr>, [])
                        | None \<Rightarrow> map_sum id (\<lambda>g. (g, [MakeGraph])) (load_make env (ld_args st1) series)) of
                    Inl e \<Rightarrow> (st1, Some e)
                  | Inr (g, made) \<Rightarrow>
                      let st2 = st1\<lparr>ld_graph := Some g, ld_log := ld_log st1 @ made\<rparr>
                      in case load_draw env g of
                           Inl e \<Rightarrow> (st2, Some e)
                         | Inr g' \<Rightarrow> (st2\<lparr>ld_series := g_series g', ld_graph := Some g', ld_log := ld_log st2 @ [RenderGraph, OnComplete]\<rparr>, None)))"

definition load_error :: "loader \<Rightarrow> loader" where
  "load_error st = st\<lparr>ld_log := ld_log st @ [OnError]\<rparr>"

text \<open>The socket has no handler for errors.\<close>

datatype load_event = Arrived jsval | Failed

fun load_step :: "load_env \<Rightarrow> load_event \<Rightarrow> loader \<Rightarrow> loader \<times> js_error option" where
  "load_step env (Arrived data) st = load_success env data st"
| "load_step env Failed st = ((if ld_transport st = Socketio then st else load_error st), None)"

fun load_run :: "load_env \<Rightarrow> load_event list \<Rightarrow> loader \<Rightarrow> loader \<times> js_error option list" where
  "load_run env [] st = (st, [])"
| "load_run env (ev # evs) st = (let (st1, e) = load_step env ev st; (st2, es) = load_run env evs st1 in (st2, e # es))"

section \<open>What a merge leaves in a series\<close>

definition good_item :: "jsval \<Rightarrow> bool" where
  "good_item v = (is_object v \<and> truthy (key_of v))"

definition own_key :: "jsval \<Rightarrow> bool" where
  "own_key v = (is_object v \<and> truthy (get_prop v ''key''))"

text \<open>The last value, of those that are not false, that data of this key give for a property.\<close>

definition latest :: "(jsval \<Rightarrow> jsval \<Rightarrow> bool) \<Rightarrow> jsval \<Rightarrow> jsval list \<Rightarrow> jsval \<Rightarrow> string \<Rightarrow> jsval" where
  "latest mixed key ds s q =
     (let vs = filter truthy (map (\<lambda>d. get_prop d q) (filter (\<lambda>d. same_key mixed key (key_of d)) ds))
      in if q \<in> set merged_props \<and> vs \<noteq> [] then last vs else get_prop s q)"

lemma good_item_nullish [simp]: "good_item v \<Longrightarrow> \<not> nullish v" "own_key v \<Longrightarrow> good_item v"
  by (cases v; simp add: good_item_def own_key_def key_of_def js_or_def)+

lemma copy_props_get:
  assumes "is_object s"
  shows "is_object (copy_props d s)
    \<and> get_prop (copy_props d s) q = (if q \<in> set merged_props \<and> truthy (get_prop d q) then get_prop d q else get_prop s q)"
  using assms by (auto simp: copy_props_def merged_props_def)

lemma latest_Cons:
  "latest mixed key (d # ds) s q =
     latest mixed key ds (if same_key mixed key (key_of d) then copy_props d s else s) q" if "is_object s"
  using copy_props_get [OF that, of d q] by (auto simp: latest_def Let_def)

lemma merge_data_latest:
  assumes "\<forall>d \<in> set ds. good_item d" and "is_object s"
  shows "\<exists>s'. merge_data mixed key ds s = (s', None) \<and> is_object s' \<and> (\<forall>q. get_prop s' q = latest mixed key ds s q)"
  using assms
proof (induction ds arbitrary: s)
  case Nil
  then show ?case by (simp add: latest_def)
next
  case (Cons d ds)
  let ?s = "if same_key mixed key (key_of d) then copy_props d s else s"
  have d: "\<not> nullish d" "truthy (key_of d)" using Cons.prems(1) good_item_nullish(1) [of d] by (auto simp: good_item_def)
  have "is_object ?s" using copy_props_get Cons.prems(2) by auto
  from Cons.IH [OF _ this] Cons.prems(1) obtain s' where
    "merge_data mixed key ds ?s = (s', None)" "is_object s'" "\<forall>q. get_prop s' q = latest mixed key ds ?s q" by auto
  with d show ?case by (simp add: latest_Cons [OF Cons.prems(2)])
qed

definition merged :: "(jsval \<Rightarrow> jsval \<Rightarrow> bool) \<Rightarrow> jsval list \<Rightarrow> jsval \<Rightarrow> jsval \<Rightarrow> bool" where
  "merged mixed ds s s' = (is_object s' \<and> (\<forall>q. get_prop s' q = latest mixed (key_of s) ds s q))"

lemma splice_rows_merged:
  assumes "\<forall>d \<in> set ds. good_item d" and "\<forall>s \<in> set ss. good_item s"
  shows "\<exists>ss'. splice_rows mixed (JArr ds) ss = (ss', None) \<and> list_all2 (merged mixed ds) ss ss'"
  using assms(2)
proof (induction ss)
  case (Cons s ss)
  then have s: "\<not> nullish s" "truthy (key_of s)" "is_object s" using good_item_nullish(1) [of s] by (auto simp: good_item_def)
  from merge_data_latest [OF assms(1) s(3)] obtain s' where "merge_data mixed (key_of s) ds s = (s', None)" "merged mixed ds s s'"
    unfolding merged_def by blast
  with Cons s show ?case by auto
qed simp

text \<open>A series with a key of its own keeps it, so two answers do what one answer with the data of both does.\<close>

lemma latest_key: "latest mixed key ds s ''key'' = get_prop s ''key''"
  by (simp add: latest_def merged_props_def)

section \<open>What drawing leaves in a series\<close>

text \<open>
  Stacking and drawing write the stack and the nodes of a series and the base \<open>y0\<close> of its points (\<open>GraphData\<close> and \<open>Drawing\<close>); its key, name and colour stay,
  and its data are the same points but for \<open>y0\<close>.
\<close>

definition same_point :: "jsval \<Rightarrow> jsval \<Rightarrow> bool" where
  "same_point v w = (v = w \<or> is_object v \<and> is_object w \<and> (\<forall>q. q \<noteq> ''y0'' \<longrightarrow> get_prop v q = get_prop w q))"

definition same_data :: "jsval \<Rightarrow> jsval \<Rightarrow> bool" where
  "same_data v w = (v = w \<or> (\<exists>ps qs. v = JArr ps \<and> w = JArr qs \<and> list_all2 same_point ps qs))"

definition same_value :: "string \<Rightarrow> jsval \<Rightarrow> jsval \<Rightarrow> bool" where
  "same_value q v w = (if q = ''data'' then same_data v w else v = w)"

definition shown_props :: "string list" where
  "shown_props = [''key'', ''name'', ''color'', ''data'']"

definition redrawn_item :: "jsval \<Rightarrow> jsval \<Rightarrow> bool" where
  "redrawn_item s s' = (is_object s \<longrightarrow> is_object s' \<and> (\<forall>q \<in> set shown_props. same_value q (get_prop s' q) (get_prop s q)))"

definition redrawn :: "jsval \<Rightarrow> jsval \<Rightarrow> bool" where
  "redrawn v w = (\<forall>ss. v = JArr ss \<longrightarrow> (\<exists>ss'. w = JArr ss' \<and> list_all2 redrawn_item ss ss'))"

lemma same_value_refl [simp]: "same_value q v v"
  by (simp add: same_value_def same_data_def)

lemma same_point_trans: "same_point u v \<Longrightarrow> same_point v w \<Longrightarrow> same_point u w"
  by (auto simp: same_point_def)

lemma same_value_trans: "same_value q u v \<Longrightarrow> same_value q v w \<Longrightarrow> same_value q u w"
proof -
  have "list_all2 same_point ps rs" if "list_all2 same_point ps qs" "list_all2 same_point qs rs" for ps qs rs
    using that same_point_trans unfolding list_all2_conv_all_nth by metis
  then show "same_value q u v \<Longrightarrow> same_value q v w \<Longrightarrow> same_value q u w"
    unfolding same_value_def same_data_def by (auto split: if_splits)
qed

lemma redrawn_item_refl [simp]: "redrawn_item s s"
  by (simp add: redrawn_item_def)

lemma redrawn_item_trans: "redrawn_item s t \<Longrightarrow> redrawn_item t u \<Longrightarrow> redrawn_item s u"
  unfolding redrawn_item_def by (meson same_value_trans)

lemma redrawn_refl [simp]: "redrawn v v"
  by (simp add: redrawn_def list_all2_refl)

lemma redrawn_trans: "redrawn u v \<Longrightarrow> redrawn v w \<Longrightarrow> redrawn u w"
proof -
  assume uv: "redrawn u v" and vw: "redrawn v w"
  have "\<exists>ss'. w = JArr ss' \<and> list_all2 redrawn_item ss ss'" if u: "u = JArr ss" for ss
  proof -
    obtain ts where ts: "v = JArr ts" "list_all2 redrawn_item ss ts" using uv u unfolding redrawn_def by blast
    obtain rs where rs: "w = JArr rs" "list_all2 redrawn_item ts rs" using vw ts(1) unfolding redrawn_def by blast
    have "list_all2 redrawn_item ss rs"
      using ts(2) rs(2) redrawn_item_trans unfolding list_all2_conv_all_nth by metis
    with rs(1) show ?thesis by blast
  qed
  then show "redrawn u w" unfolding redrawn_def by blast
qed

text \<open>What is asked of the parts of a drawing that are arguments here.\<close>

definition draws_only :: "load_env \<Rightarrow> bool" where
  "draws_only env = ((\<forall>g g'. le_stack env g = Inr g' \<or> le_draw env g = Inr g' \<longrightarrow> redrawn (g_series g) (g_series g'))
     \<and> (\<forall>cb g g'. le_invoke env cb JUndef g = Inr g' \<longrightarrow> redrawn (g_series g) (g_series g')))"

lemma load_draw_redrawn:
  assumes "draws_only env" and "load_draw env g = Inr g'"
  shows "redrawn (g_series g) (g_series g')"
proof -
  obtain g1 d g2 where r: "le_stack env g = Inr g1" "le_draw env (discoverRange d g1) = Inr g2"
    "for_each (\<lambda>cb. le_invoke env cb JUndef) (g_updateCallbacks g2) g2 = Inr g'"
    using assms(2) by (auto simp: load_draw_def graph_render_def js_bind_Inr_iff)
  have "redrawn (g_series g) (g_series g1)" "redrawn (g_series (discoverRange d g1)) (g_series g2)"
    using assms(1) r(1,2) unfolding draws_only_def by blast+
  moreover have "g_series (discoverRange d g1) = g_series g1" by (simp add: discoverRange_def Let_def split: prod.split)
  ultimately have "redrawn (g_series g) (g_series g2)" using redrawn_trans by metis
  moreover have "redrawn (g_series g) (g_series g')"
    by (rule for_each_inv [OF r(3)]) (use calculation assms(1) redrawn_trans in \<open>unfold draws_only_def, blast\<close>)+
  ultimately show ?thesis by blast
qed

lemma g_series_kept [simp]: "g_series (setSize st a g) = g_series g" "g_series (discoverRange d g) = g_series g"
  by (simp_all add: setSize_def discoverRange_def Let_def split: prod.split)

lemma load_make_series:
  assumes "load_make env args series = Inr g" and "is_object args"
  shows "g_series g = series"
proof -
  have "get_prop (set_prop ''series'' series args) ''series'' = series" using assms(2) by simp
  then show ?thesis using assms(1)
    by (cases "le_element env") (auto simp: load_make_def new_graph_def setSeries_def js_bind_Inr_iff Let_def split: if_splits)
qed

section \<open>Sequences of answers\<close>

text \<open>What an event brings: the data of an answer, after \<open>onData\<close>.\<close>

definition received :: "load_env \<Rightarrow> jsval \<Rightarrow> jsval js" where
  "received env data = (case le_onData env of Some f \<Rightarrow> f data | None \<Rightarrow> Inr data)"

fun answer :: "load_env \<Rightarrow> load_event \<Rightarrow> jsval list list" where
  "answer env (Arrived data) = (case received env data of Inr (JArr ds) \<Rightarrow> [ds] | _ \<Rightarrow> [])"
| "answer env Failed = []"

abbreviation answers :: "load_env \<Rightarrow> load_event list \<Rightarrow> jsval list list" where
  "answers env evs \<equiv> concat (map (answer env) evs)"

definition good_event :: "load_env \<Rightarrow> load_event \<Rightarrow> bool" where
  "good_event env ev = (ev = Failed \<or> (\<exists>ds. answer env ev = [ds] \<and> (\<forall>d \<in> set ds. good_item d)))"

text \<open>The answers that were drawn: those whose handler returned.\<close>

definition drawn :: "load_env \<Rightarrow> load_event list \<Rightarrow> js_error option list \<Rightarrow> nat" where
  "drawn env evs errs = length (filter (\<lambda>(ev, e). answer env ev \<noteq> [] \<and> e = None) (zip evs errs))"

definition load_failure :: "load_env \<Rightarrow> jsval \<Rightarrow> js_error \<Rightarrow> bool" where
  "load_failure env args e = ((\<exists>series. load_make env args series = Inl e) \<or> (\<exists>g. load_draw env g = Inl e))"

text \<open>What a series shows after the data \<open>ds\<close>.\<close>

definition shows_latest :: "(jsval \<Rightarrow> jsval \<Rightarrow> bool) \<Rightarrow> jsval list \<Rightarrow> jsval \<Rightarrow> jsval \<Rightarrow> bool" where
  "shows_latest mixed ds s s' = (is_object s' \<and> (\<forall>q \<in> set shown_props. same_value q (get_prop s' q) (latest mixed (key_of s) ds s q)))"

lemma latest_later:
  assumes "same_value q (get_prop s' q) (latest mixed key ds s q)"
  shows "same_value q (latest mixed key ds' s' q) (latest mixed key (ds @ ds') s q)"
proof (cases "q \<in> set merged_props \<and> filter truthy (map (\<lambda>d. get_prop d q) (filter (\<lambda>d. same_key mixed key (key_of d)) ds')) \<noteq> []")
  case True
  then show ?thesis by (auto simp: latest_def Let_def)
next
  case False
  then have "latest mixed key ds' s' q = get_prop s' q" "latest mixed key (ds @ ds') s q = latest mixed key ds s q"
    by (auto simp: latest_def Let_def)
  with assms show ?thesis by simp
qed

lemma shows_latest_key:
  assumes "shows_latest mixed ds s s'" and "own_key s"
  shows "own_key s' \<and> key_of s' = key_of s"
proof -
  have "get_prop s' ''key'' = latest mixed (key_of s) ds s ''key''" using assms(1) by (simp add: shows_latest_def shown_props_def same_value_def)
  then have "get_prop s' ''key'' = get_prop s ''key''" by (simp add: latest_def merged_props_def)
  with assms show ?thesis by (simp add: shows_latest_def own_key_def key_of_def js_or_def)
qed

lemma shows_latest_step:
  assumes s: "shows_latest mixed ds s s1" "own_key s" and m: "merged mixed ds' s1 s2" and r: "redrawn_item s2 s3"
  shows "shows_latest mixed (ds @ ds') s s3"
proof -
  have k: "key_of s1 = key_of s" using shows_latest_key [OF s] by blast
  have "same_value q (get_prop s3 q) (latest mixed (key_of s) (ds @ ds') s q)" if q: "q \<in> set shown_props" for q
  proof -
    have "same_value q (get_prop s3 q) (get_prop s2 q)" using r m q by (simp add: redrawn_item_def merged_def)
    moreover have "get_prop s2 q = latest mixed (key_of s) ds' s1 q" using m k by (simp add: merged_def)
    moreover have "same_value q (get_prop s1 q) (latest mixed (key_of s) ds s q)" using s(1) q by (simp add: shows_latest_def)
    ultimately show ?thesis using same_value_trans latest_later by metis
  qed
  moreover have "is_object s3" using m r by (simp add: merged_def redrawn_item_def)
  ultimately show ?thesis by (simp add: shows_latest_def)
qed

lemma shows_latest_rows:
  assumes "list_all2 (shows_latest mixed ds) ss ss1" and "\<forall>s \<in> set ss. own_key s" and "list_all2 (merged mixed ds') ss1 ss2" and "list_all2 redrawn_item ss2 ss3"
  shows "list_all2 (shows_latest mixed (ds @ ds')) ss ss3"
  using assms by (fastforce simp: list_all2_conv_all_nth intro: shows_latest_step)

text \<open>What the calls after an answer are: the graph is made when there is none, then drawn.\<close>

definition made :: "loader \<Rightarrow> load_call list" where
  "made st = (if ld_graph st = None then [MakeGraph] else [])"

lemma load_answer:
  assumes "draws_only env" and args: "is_object (ld_args st)" and ev: "received env data = Inr (JArr ds)"
    and st: "ld_series st = JArr ss" "splice_rows (le_mixed env) (JArr ds) ss = (ss1, None)"
  shows "\<exists>st' e ss2. load_success env data st = (st', e) \<and> ld_series st' = JArr ss2 \<and> list_all2 redrawn_item ss1 ss2 \<and> ld_args st' = ld_args st
    \<and> (case e of
         None \<Rightarrow> ld_graph st' \<noteq> None \<and> ld_log st' = ld_log st @ made st @ [RenderGraph, OnComplete]
       | Some err \<Rightarrow> load_failure env (ld_args st) err
           \<and> (if ld_graph st' = None then ld_graph st = None \<and> ld_log st' = ld_log st else ld_log st' = ld_log st @ made st))"
proof -
  let ?make = "case ld_graph st of Some g \<Rightarrow> Inr (g\<lparr>g_series := JArr ss1\<rparr>, [])
    | None \<Rightarrow> map_sum id (\<lambda>g. (g, [MakeGraph])) (load_make env (ld_args st) (JArr ss1))"
  have refl: "list_all2 redrawn_item ss1 ss1" by (simp add: list_all2_refl)
  show ?thesis
  proof (cases ?make)
    case (Inl e)
    then have "ld_graph st = None" "load_make env (ld_args st) (JArr ss1) = Inl e"
      by (auto split: option.splits) (cases "load_make env (ld_args st) (JArr ss1)"; simp)
    then show ?thesis using ev st refl
      by (auto simp: load_success_def splice_series_def received_def load_failure_def Let_def)
  next
    case (Inr p)
    obtain g m where p: "p = (g, m)" by (cases p)
    have g: "g_series g = JArr ss1" "m = made st"
      using Inr p load_make_series [OF _ args] by (auto simp: made_def split: option.splits) (cases "load_make env (ld_args st) (JArr ss1)"; auto)+
    have run: "load_success env data st = (let st2 = st\<lparr>ld_series := JArr ss1, ld_graph := Some g, ld_log := ld_log st @ made st\<rparr>
        in case load_draw env g of Inl e \<Rightarrow> (st2, Some e)
           | Inr g' \<Rightarrow> (st2\<lparr>ld_series := g_series g', ld_graph := Some g', ld_log := ld_log st2 @ [RenderGraph, OnComplete]\<rparr>, None))"
      using ev st Inr p g(2) by (cases "ld_graph st"; cases "load_draw env g") (simp_all add: load_success_def splice_series_def received_def Let_def)
    show ?thesis
    proof (cases "load_draw env g")
      case (Inl e)
      then show ?thesis using refl unfolding run by (auto simp: load_failure_def Let_def)
    next
      case (Inr g')
      from load_draw_redrawn [OF assms(1) this] g(1) obtain ss2 where "g_series g' = JArr ss2" "list_all2 redrawn_item ss1 ss2"
        by (auto simp: redrawn_def)
      with Inr show ?thesis unfolding run by (simp add: Let_def)
    qed
  qed
qed

text \<open>What a sequence of events has done, from the state \<open>st\<close> to the state \<open>st'\<close>.\<close>

definition followed :: "load_env \<Rightarrow> loader \<Rightarrow> load_event list \<Rightarrow> loader \<Rightarrow> js_error option list \<Rightarrow> bool" where
  "followed env st evs st' errs = (length errs = length evs \<and> ld_args st' = ld_args st
     \<and> (\<forall>e. Some e \<in> set errs \<longrightarrow> load_failure env (ld_args st) e)
     \<and> count_list (ld_log st') RenderGraph = count_list (ld_log st) RenderGraph + drawn env evs errs
     \<and> count_list (ld_log st') OnComplete = count_list (ld_log st) OnComplete + drawn env evs errs
     \<and> count_list (ld_log st') MakeGraph = count_list (ld_log st) MakeGraph + (if ld_graph st = None \<and> ld_graph st' \<noteq> None then 1 else 0)
     \<and> (ld_graph st' = None \<longrightarrow> ld_graph st = None \<and> drawn env evs errs = 0))"

lemma followed_Cons:
  assumes "ld_args u = ld_args st" and "followed env u evs st' errs"
    and "case e of None \<Rightarrow> True | Some err \<Rightarrow> load_failure env (ld_args st) err"
    and "\<forall>c \<in> {RenderGraph, OnComplete}. count_list (ld_log u) c = count_list (ld_log st) c + (if answer env ev \<noteq> [] \<and> e = None then 1 else 0)"
    and "count_list (ld_log u) MakeGraph = count_list (ld_log st) MakeGraph + (if ld_graph st = None \<and> ld_graph u \<noteq> None then 1 else 0)"
    and "ld_graph u = None \<longrightarrow> ld_graph st = None \<and> \<not> (answer env ev \<noteq> [] \<and> e = None)"
  shows "followed env st (ev # evs) st' (e # errs)"
proof -
  have d: "drawn env (ev # evs) (e # errs) = (if answer env ev \<noteq> [] \<and> e = None then 1 else 0) + drawn env evs errs" by (simp add: drawn_def)
  show ?thesis using assms unfolding followed_def d by (auto split: option.splits)
qed

lemma load_run_ok:
  assumes env: "draws_only env" and own: "\<forall>s \<in> set ss. own_key s"
    and "list_all2 (shows_latest (le_mixed env) ds) ss ss1" and "ld_series st = JArr ss1" and "is_object (ld_args st)" and "\<forall>ev \<in> set evs. good_event env ev"
  shows "\<exists>st' errs ss'. load_run env evs st = (st', errs) \<and> ld_series st' = JArr ss'
    \<and> list_all2 (shows_latest (le_mixed env) (ds @ concat (answers env evs))) ss ss' \<and> followed env st evs st' errs"
  using assms(3-)
proof (induction evs arbitrary: st ds ss1)
  case Nil
  then show ?case by (auto simp: followed_def drawn_def)
next
  case (Cons ev evs)
  have keys: "\<forall>s \<in> set ss1. own_key s"
    using Cons.prems(1) own shows_latest_key by (fastforce simp: list_all2_conv_all_nth set_conv_nth)
  have good: "\<forall>ev \<in> set evs. good_event env ev" "good_event env ev" using Cons.prems(4) by simp_all
  show ?case
  proof (cases ev)
    case (Arrived data)
    obtain ds' where ds': "received env data = Inr (JArr ds')" "\<forall>d \<in> set ds'. good_item d"
      using good(2) Arrived by (auto simp: good_event_def split: sum.splits jsval.splits)
    have "\<forall>s \<in> set ss1. good_item s" using keys by simp
    from splice_rows_merged [OF ds'(2) this] obtain ss2 where ss2: "splice_rows (le_mixed env) (JArr ds') ss1 = (ss2, None)"
      "list_all2 (merged (le_mixed env) ds') ss1 ss2" by blast
    from load_answer [OF env Cons.prems(3) ds'(1) Cons.prems(2) ss2(1)] obtain u e ss3 where
      u: "load_success env data st = (u, e)" "ld_series u = JArr ss3" "list_all2 redrawn_item ss2 ss3" "ld_args u = ld_args st"
        "case e of None \<Rightarrow> ld_graph u \<noteq> None \<and> ld_log u = ld_log st @ made st @ [RenderGraph, OnComplete]
         | Some err \<Rightarrow> load_failure env (ld_args st) err
             \<and> (if ld_graph u = None then ld_graph st = None \<and> ld_log u = ld_log st else ld_log u = ld_log st @ made st)" by blast
    have rows: "list_all2 (shows_latest (le_mixed env) (ds @ ds')) ss ss3" by (rule shows_latest_rows [OF Cons.prems(1) own ss2(2) u(3)])
    have "is_object (ld_args u)" using u(4) Cons.prems(3) by simp
    from Cons.IH [OF rows u(2) this good(1)] obtain st' errs ss' where r: "load_run env evs u = (st', errs)" "ld_series st' = JArr ss'"
      "list_all2 (shows_latest (le_mixed env) ((ds @ ds') @ concat (answers env evs))) ss ss'" "followed env u evs st' errs" by blast
    have a: "answer env ev = [ds']" using ds'(1) Arrived by simp
    have "followed env st (ev # evs) st' (e # errs)"
      by (rule followed_Cons [OF u(4) r(4)]) (use u(5) a in \<open>auto simp: made_def split: option.splits if_splits\<close>)
    then show ?thesis using r(1-3) u(1) a by (simp add: Arrived)
  next
    case Failed
    define u where "u = (if ld_transport st = Socketio then st else load_error st)"
    have u: "ld_series u = JArr ss1" "ld_graph u = ld_graph st" "ld_args u = ld_args st"
      "\<forall>c \<in> {RenderGraph, OnComplete, MakeGraph}. count_list (ld_log u) c = count_list (ld_log st) c"
      using Cons.prems(2) by (simp_all add: u_def load_error_def)
    have "is_object (ld_args u)" using u(3) Cons.prems(3) by simp
    from Cons.IH [OF Cons.prems(1) u(1) this good(1)] obtain st' errs ss' where r: "load_run env evs u = (st', errs)" "ld_series st' = JArr ss'"
      "list_all2 (shows_latest (le_mixed env) (ds @ concat (answers env evs))) ss ss'" "followed env u evs st' errs" by blast
    have "followed env st (ev # evs) st' (None # errs)"
      by (rule followed_Cons [OF u(3) r(4)]) (use u Failed in auto)
    then show ?thesis using r(1-3) by (simp add: Failed u_def)
  qed
qed

section \<open>The constructor with a line renderer\<close>

text \<open>With a line renderer and nothing else asked for, \<open>new Rickshaw.Graph\<close> throws exactly what \<open>validateSeries\<close> throws.\<close>

definition line_args :: "jsval \<Rightarrow> jsval" where
  "line_args series = JObj [(''renderer'', JStr ''line''), (''series'', series)]"

lemma new_graph_line:
  "case validateSeries cmp series of
      Inl e \<Rightarrow> new_graph invoke cls style cmp (\<lambda>_. Inr d) (Some 1) (line_args series) = Inl e
    | Inr _ \<Rightarrow> \<exists>g. new_graph invoke cls style cmp (\<lambda>_. Inr d) (Some 1) (line_args series) = Inr g"
proof -
  define args where "args = line_args series"
  define g0 where "g0 = \<lparr>g_this = JObj [], g_config = JObj [], g_objs = [], g_registry = [], g_current = None,
    g_series = series, g_updateCallbacks = [], g_configureCallbacks = [], g_classes = [], g_vis = None, g_scales = None\<rparr>"
  have "graph_inv g0" "g_this g0 = JObj []" by (simp_all add: g0_def graph_inv_def keys_def)
  from loadRenderers_line [OF this] obtain i g1 where g1: "loadRenderers g0 = Inr g1" "graph_inv g1" "line_ready i g1" "g_configureCallbacks g1 = []"
    by (auto simp: g0_def)
  have props: "get_prop args ''series'' = series" "get_prop args ''renderer'' = JStr ''line''" "\<not> has_prop args ''padding''"
    and obj: "\<exists>ps. args = JObj ps"
    by (simp_all add: args_def line_args_def get_prop_def has_prop_def)
  obtain ps where ps: "args = JObj ps" using obj by blast
  have pad: "k = ''padding''" if "get_prop line_defaults k = JObj d" for k d
    using that by (simp add: line_defaults_value get_prop_def split: if_splits)
  have line: "r_defaults (g_objs g1 ! i) = line_defaults" using g1(3) by (simp add: line_ready_def)
  have plain: "\<forall>k d. get_prop (r_defaults (g_objs g1 ! i)) k = JObj d \<longrightarrow> \<not> has_prop args k"
    unfolding line using pad props(3) by fast
  have reg: "map_of (g_registry g1) ''line'' = Some i" "''line'' \<noteq> []" using g1(3) by (simp_all add: line_ready_def)
  obtain g2 where g2: "graph_configure invoke cls style args g1 = Inr g2"
  proof -
    from configured_by_name [OF g1(2) ps props(2) reg(2,1) plain, of cls "js_or (current_name (with_settings style args g1)) (JStr ''stack'')" style]
    obtain g3 where "setRenderer cls (js_or (get_prop (args_unstack args) ''renderer'') (js_or (current_name (with_settings style args g1)) (JStr ''stack'')))
        (args_unstack args) (with_settings style args g1) = Inr g3" and cb: "g_configureCallbacks g3 = g_configureCallbacks g1" by blast
    then have "graph_configure invoke cls style args g1 = for_each (\<lambda>cb. invoke cb (args_unstack args)) (g_configureCallbacks g3) g3"
      unfolding graph_configure_split by (simp only: js_bind_simps)
    then show thesis using that cb g1(4) by simp
  qed
  define f where "f g3 = discoverRange d ((setSize style (JObj [(''width'', get_prop args ''width''), (''height'', get_prop args ''height'')]) g3)
      \<lparr>g_classes := g_classes (setSize style (JObj [(''width'', get_prop args ''width''), (''height'', get_prop args ''height'')]) g3) @ [''rickshaw_graph''],
       g_vis := Some (get_prop (g_this (setSize style (JObj [(''width'', get_prop args ''width''), (''height'', get_prop args ''height'')]) g3)) ''width'',
         get_prop (g_this (setSize style (JObj [(''width'', get_prop args ''width''), (''height'', get_prop args ''height'')]) g3)) ''height'')\<rparr>)" for g3
  have eq: "new_graph invoke cls style cmp (\<lambda>_. Inr d) (Some 1) args =
      js_bind (loadRenderers g0) (\<lambda>g1. js_bind (graph_configure invoke cls style args g1) (\<lambda>g2. js_bind (setSeries cmp series g2) (\<lambda>g3. Inr (f g3))))"
    unfolding new_graph_def option.case props(1) g0_def [symmetric] Let_def f_def js_bind_simps by simp
  have "new_graph invoke cls style cmp (\<lambda>_. Inr d) (Some 1) args = js_bind (setSeries cmp series g2) (\<lambda>g3. Inr (f g3))"
    unfolding eq g1(1) js_bind_simps(2) g2 ..
  then show ?thesis unfolding args_def by (cases "validateSeries cmp series") (simp_all add: setSeries_def)
qed

section \<open>Properties\<close>


definition test_domain :: domain_xy where
  "test_domain = \<lparr>dom_x = (Fin 0, Fin 1), dom_y = (Fin 0, Fin 1)\<rparr>"

text \<open>A page with the element of the graph; stacking and drawing write nothing here.\<close>

definition test_env :: load_env where
  "test_env = \<lparr>le_mixed = (\<lambda>_ _. False), le_onData = None, le_invoke = (\<lambda>_ _. Inr), le_cls = (\<lambda>_. (''line'', line_defaults)), le_style = (Fin 0, Fin 0),
     le_cmp = (\<lambda>_ _. False), le_element = Some 1, le_domain = (\<lambda>_. Inr test_domain), le_stack = Inr, le_draw = Inr\<rparr>"

definition test_item :: "string \<Rightarrow> jsval list \<Rightarrow> jsval" where
  "test_item k ps = JObj [(k, JStr ''a''), (''data'', JArr ps)]"

definition test_point :: jsval where
  "test_point = JObj [(''x'', JNum (Fin 1)), (''y'', JNum (Fin 2))]"

lemma test_item_facts:
  "key_of (test_item ''name'' ps) = JStr ''a''" "key_of (test_item ''key'' ps) = JStr ''a''"
  "get_prop (test_item ''name'' ps) ''data'' = JArr ps" "own_key (test_item ''key'' ps)" "good_item (test_item ''name'' ps)"
  by (simp_all add: test_item_def key_of_def js_or_def get_prop_def own_key_def good_item_def)

lemma test_draw: "load_draw test_env g = Inr (discoverRange test_domain g)"
proof -
  have "for_each (\<lambda>cb. Inr) cs s = Inr s" for cs :: "nat list" and s :: graph by (induction cs) simp_all
  then show ?thesis by (simp add: load_draw_def graph_render_def test_env_def)
qed

lemma test_make:
  "case validateSeries (\<lambda>_ _. False) series of
     Inl e \<Rightarrow> load_make test_env (JObj [(''renderer'', JStr ''line'')]) series = Inl e
   | Inr _ \<Rightarrow> \<exists>g. load_make test_env (JObj [(''renderer'', JStr ''line'')]) series = Inr g"
  using new_graph_line [where cmp = "\<lambda>_ _. False" and series = series and invoke = "\<lambda>_ _. Inr" and cls = "\<lambda>_. (''line'', line_defaults)"
      and style = "(Fin 0, Fin 0)" and d = test_domain]
  by (cases "validateSeries (\<lambda>_ _. False) series") (simp_all add: load_make_def test_env_def line_args_def)

definition test_row :: "jsval list \<Rightarrow> jsval" where
  "test_row ps = JObj [(''key'', JStr ''a''), (''data'', JArr ps), (''name'', JStr ''a'')]"

lemma test_splice:
  "splice_rows (le_mixed test_env) (JArr [test_item ''name'' ps]) [test_item ''key'' qs] = ([test_row ps], None)"
  "splice_rows (le_mixed test_env) (JArr [test_item ''name'' ps]) [test_row qs] = ([test_row ps], None)"
  by (simp_all add: test_item_def test_row_def key_of_def js_or_def get_prop_def copy_props_def merged_props_def Let_def)

lemma test_validate:
  "\<exists>e. validateSeries (\<lambda>_ _. False) (JArr [test_row [JNum 1]]) = Inl e" "validateSeries (\<lambda>_ _. False) (JArr [test_row [test_point]]) = Inr ()"
  by (simp_all add: validateSeries_def validate_element_def validate_data_def member_def test_row_def test_point_def get_prop_def)


text \<open>
  A series that is known by its name only is lost when an answer finds it by the key of its data and renames it: the next answer with the same
  key no longer reaches it.
\<close>

theorem renamed_series_lost:
  assumes "n \<noteq> []" and "m \<noteq> []" and "n \<noteq> m"
    and "d = (\<lambda>v. JObj [(''key'', JStr n), (''name'', JStr m), (''data'', JArr v)])"
    and "splice_rows mixed (JArr [d v1]) [JObj [(''name'', JStr n)]] = (ss, e)"
  shows "e = None \<and> splice_rows mixed (JArr [d v2]) ss = (ss, None) \<and> map (\<lambda>s. get_prop s ''data'') ss = [JArr v1]"
  using assms(1-3,5) unfolding assms(4)
  by (auto simp: key_of_def js_or_def get_prop_def copy_props_def merged_props_def)

theorem renamed_series_lost_witness:
  "\<exists>ss. splice_rows (\<lambda>_ _. False) (JArr [JObj [(''key'', JStr ''a''), (''name'', JStr ''Load''), (''data'', JArr [])]]) [JObj [(''name'', JStr ''a'')]]
     = (ss, None) \<and> map (\<lambda>s. get_prop s ''data'') ss = [JArr []]"
proof -
  obtain ss e where "splice_rows (\<lambda>_ _. False) (JArr [JObj [(''key'', JStr ''a''), (''name'', JStr ''Load''), (''data'', JArr [])]]) [JObj [(''name'', JStr ''a'')]] = (ss, e)"
    by fastforce
  with renamed_series_lost [of "''a''" "''Load''" "\<lambda>v. JObj [(''key'', JStr ''a''), (''name'', JStr ''Load''), (''data'', JArr v)]" "\<lambda>_ _. False" "[]" ss e]
  show ?thesis by auto
qed

end
