(* ===== verification/Annotate.thy ===== *)
theory Annotate
  imports Prelude "HOL-Library.AList"
begin

text \<open>
  \<open>Rickshaw.Graph.Annotate\<close>: boxes of text attached to times, the nodes that an update of the graph makes and places for them, and the
  click on a marker. Nodes live in a list and are referred to by number; the scale of the graph comes with every update. The data are keyed
  by the text of a time, and two times have one text exactly when they are the same number, so the model keys by the number.
\<close>

section \<open>State\<close>

record node =
  nd_class :: "string list"
  nd_html :: string
  nd_left :: "jsnum option"
  nd_width :: "jsnum option"
  nd_display :: string
  nd_children :: "nat list"

record abox =
  bo_content :: string
  bo_end :: "jsnum option"
  bo_element :: "nat option"
  bo_range :: "nat option"

record annotation =
  an_boxes :: "abox list"
  an_element :: "nat option"
  an_line :: "nat option"

record note_drawing =
  dr_nodes :: "node list"
  dr_timeline :: "nat list"
  dr_graph :: "nat list"

record annotate =
  at_data :: "(jsnum \<times> annotation) list"
  at_timeline_class :: "string list"
  at_onUpdates :: nat
  at_drawing :: note_drawing

text \<open>\<open>graph.x\<close> and its range.\<close>

record scale_env =
  se_x :: "jsnum \<Rightarrow> jsnum"
  se_range :: "jsnum \<times> jsnum"

definition tok_add :: "string \<Rightarrow> node \<Rightarrow> node" where
  "tok_add t n = n\<lparr>nd_class := (if t \<in> set (nd_class n) then nd_class n else nd_class n @ [t])\<rparr>"

definition tok_remove :: "string \<Rightarrow> node \<Rightarrow> node" where
  "tok_remove t n = n\<lparr>nd_class := filter (\<lambda>u. u \<noteq> t) (nd_class n)\<rparr>"

definition tok_toggle :: "string \<Rightarrow> node \<Rightarrow> node" where
  "tok_toggle t n = (if t \<in> set (nd_class n) then tok_remove t n else tok_add t n)"

definition upd_node :: "nat \<Rightarrow> (node \<Rightarrow> node) \<Rightarrow> note_drawing \<Rightarrow> note_drawing" where
  "upd_node i f dr = dr\<lparr>dr_nodes := (dr_nodes dr)[i := f (dr_nodes dr ! i)]\<rparr>"

definition create_div :: "string \<Rightarrow> string \<Rightarrow> note_drawing \<Rightarrow> nat \<times> note_drawing" where
  "create_div cls html dr =
     (length (dr_nodes dr),
      dr\<lparr>dr_nodes := dr_nodes dr @ [\<lparr>nd_class = [cls], nd_html = html, nd_left = None, nd_width = None, nd_display = [], nd_children = []\<rparr>]\<rparr>)"

section \<open>add\<close>

definition new_annotate :: annotate where
  "new_annotate = \<lparr>at_data = [], at_timeline_class = [''rickshaw_annotation_timeline''], at_onUpdates = 1,
     at_drawing = \<lparr>dr_nodes = [], dr_timeline = [], dr_graph = []\<rparr>\<rparr>"

definition new_box :: "string \<Rightarrow> jsnum option \<Rightarrow> abox" where
  "new_box content e = \<lparr>bo_content = content, bo_end = e, bo_element = None, bo_range = None\<rparr>"

definition annotate_add :: "jsnum \<Rightarrow> string \<Rightarrow> jsnum option \<Rightarrow> annotate \<Rightarrow> annotate" where
  "annotate_add time content end_time st =
     (let a = (case map_of (at_data st) time of Some a \<Rightarrow> a | None \<Rightarrow> \<lparr>an_boxes = [], an_element = None, an_line = None\<rparr>)
      in st\<lparr>at_data := AList.update time (a\<lparr>an_boxes := an_boxes a @ [new_box content end_time]\<rparr>) (at_data st)\<rparr>)"

section \<open>update\<close>

text \<open>The keys of an object: array indices in increasing order, then the others as they were added.\<close>

definition is_index :: "jsnum \<Rightarrow> bool" where
  "is_index t = (case t of Fin r \<Rightarrow> r = of_int \<lfloor>r\<rfloor> \<and> 0 \<le> r \<and> r < 4294967295 | _ \<Rightarrow> False)"

definition data_keys :: "(jsnum \<times> 'a) list \<Rightarrow> jsnum list" where
  "data_keys data = (let ks = map fst data in sort_key fin_val (filter is_index ks) @ filter (\<lambda>k. \<not> is_index k) ks)"

fun hide_ranges :: "abox list \<Rightarrow> note_drawing \<Rightarrow> note_drawing" where
  "hide_ranges [] dr = dr"
| "hide_ranges (b # bs) dr = hide_ranges bs (case bo_range b of Some r \<Rightarrow> upd_node r (tok_add ''offscreen'') dr | None \<Rightarrow> dr)"

definition go_offscreen :: "annotation \<Rightarrow> note_drawing \<Rightarrow> note_drawing js" where
  "go_offscreen a dr =
     js_bind
       (case an_element a of
          None \<Rightarrow> Inr dr
        | Some el \<Rightarrow>
            (case an_line a of
               None \<Rightarrow> Inl TypeError
             | Some l \<Rightarrow> Inr (upd_node el (\<lambda>n. n\<lparr>nd_display := ''none''\<rparr>) (upd_node l (tok_add ''offscreen'') dr))))
       (\<lambda>dr. Inr (hide_ranges (an_boxes a) dr))"

definition draw_element :: "annotation \<Rightarrow> note_drawing \<Rightarrow> nat \<times> note_drawing" where
  "draw_element a dr =
     (case an_element a of
        Some el \<Rightarrow> (el, dr)
      | None \<Rightarrow> let (el, dr1) = create_div ''annotation'' [] dr in (el, dr1\<lparr>dr_timeline := dr_timeline dr1 @ [el]\<rparr>))"

text \<open>The nodes of a box; the line becomes that of the annotation.\<close>

definition draw_content :: "nat \<Rightarrow> abox \<Rightarrow> nat option \<Rightarrow> note_drawing \<Rightarrow> abox \<times> nat option \<times> note_drawing" where
  "draw_content el b line dr =
     (case bo_element b of
        Some _ \<Rightarrow> (b, line, dr)
      | None \<Rightarrow>
          let (c, dr1) = create_div ''content'' (bo_content b) dr;
              dr2 = upd_node el (\<lambda>n. n\<lparr>nd_children := nd_children n @ [c]\<rparr>) dr1;
              (l, dr3) = create_div ''annotation_line'' [] dr2;
              dr4 = dr3\<lparr>dr_graph := dr_graph dr3 @ [l]\<rparr>
          in if truthy_opt (bo_end b)
             then let (r, dr5) = create_div ''annotation_range'' [] dr4
                  in (b\<lparr>bo_element := Some c, bo_range := Some r\<rparr>, Some l, dr5\<lparr>dr_graph := dr_graph dr5 @ [r]\<rparr>)
             else (b\<lparr>bo_element := Some c\<rparr>, Some l, dr4))"

definition range_span :: "scale_env \<Rightarrow> jsnum \<Rightarrow> jsnum \<Rightarrow> jsnum \<times> jsnum" where
  "range_span env left e =
     (let annotationRangeEnd = js_min2 (se_x env e) (snd (se_range env))
      in if annotationRangeEnd < left then (js_max2 (se_x env e) (fst (se_range env)), left) else (left, annotationRangeEnd))"

definition place_range :: "scale_env \<Rightarrow> jsnum \<Rightarrow> abox \<Rightarrow> note_drawing \<Rightarrow> note_drawing js" where
  "place_range env left b dr =
     (case bo_end b of
        Some e \<Rightarrow>
          if \<not> truthy_num e then Inr dr
          else (case bo_range b of
                  None \<Rightarrow> Inl TypeError
                | Some r \<Rightarrow>
                    let (s, t) = range_span env left e
                    in Inr (upd_node r (\<lambda>n. tok_remove ''offscreen'' (n\<lparr>nd_left := Some s, nd_width := Some (t - s)\<rparr>)) dr))
      | None \<Rightarrow> Inr dr)"

definition place_line :: "jsnum \<Rightarrow> nat option \<Rightarrow> note_drawing \<Rightarrow> note_drawing js" where
  "place_line left line dr =
     (case line of None \<Rightarrow> Inl TypeError | Some l \<Rightarrow> Inr (upd_node l (\<lambda>n. (tok_remove ''offscreen'' n)\<lparr>nd_left := Some left\<rparr>) dr))"

fun draw_boxes :: "scale_env \<Rightarrow> jsnum \<Rightarrow> nat \<Rightarrow> abox list \<Rightarrow> nat option \<Rightarrow> note_drawing \<Rightarrow> (abox list \<times> nat option \<times> note_drawing) js" where
  "draw_boxes env left el [] line dr = Inr ([], line, dr)"
| "draw_boxes env left el (b # bs) line dr =
     (let (b', line', dr1) = draw_content el b line dr
      in js_bind (place_range env left b' dr1) (\<lambda>dr2.
         js_bind (place_line left line' dr2) (\<lambda>dr3.
         js_bind (draw_boxes env left el bs line' dr3) (\<lambda>(bs', line'', dr4). Inr (b' # bs', line'', dr4)))))"

definition update_annotation :: "scale_env \<Rightarrow> jsnum \<Rightarrow> annotate \<Rightarrow> annotate js" where
  "update_annotation env time st =
     (case map_of (at_data st) time of
        None \<Rightarrow> Inl TypeError
      | Some a \<Rightarrow>
          let left = se_x env time in
          if left < Fin 0 \<or> snd (se_range env) < left
          then js_bind (go_offscreen a (at_drawing st)) (\<lambda>dr. Inr (st\<lparr>at_drawing := dr\<rparr>))
          else
            let (el, dr1) = draw_element a (at_drawing st);
                dr2 = upd_node el (\<lambda>n. n\<lparr>nd_left := Some left, nd_display := ''block''\<rparr>) dr1
            in js_bind (draw_boxes env left el (an_boxes a) (an_line a) dr2)
                 (\<lambda>(bs, line, dr3).
                    Inr (st\<lparr>at_data := AList.update time \<lparr>an_boxes = bs, an_element = Some el, an_line = line\<rparr> (at_data st), at_drawing := dr3\<rparr>)))"

definition annotate_update :: "scale_env \<Rightarrow> annotate \<Rightarrow> annotate js" where
  "annotate_update env st = for_each (update_annotation env) (data_keys (at_data st)) st"

section \<open>The click\<close>

fun toggle_ranges :: "abox list \<Rightarrow> note_drawing \<Rightarrow> note_drawing" where
  "toggle_ranges [] dr = dr"
| "toggle_ranges (b # bs) dr = toggle_ranges bs (case bo_range b of Some r \<Rightarrow> upd_node r (tok_toggle ''active'') dr | None \<Rightarrow> dr)"

definition annotate_click :: "jsnum \<Rightarrow> annotate \<Rightarrow> annotate js" where
  "annotate_click time st =
     (case map_of (at_data st) time of
        Some a \<Rightarrow>
          (case an_element a of
             Some el \<Rightarrow>
               (case an_line a of
                  None \<Rightarrow> Inl TypeError
                | Some l \<Rightarrow> Inr (st\<lparr>at_drawing := toggle_ranges (an_boxes a) (upd_node l (tok_toggle ''active'') (upd_node el (tok_toggle ''active'') (at_drawing st)))\<rparr>))
           | None \<Rightarrow> Inr st)
      | None \<Rightarrow> Inr st)"

text \<open>What can happen to annotations; a click needs a marker that was drawn.\<close>

datatype annotate_op = AddBox jsnum string "jsnum option" | Update scale_env | Click jsnum

fun annotate_step :: "annotate_op \<Rightarrow> annotate \<Rightarrow> annotate js" where
  "annotate_step (AddBox t c e) st = Inr (annotate_add t c e st)"
| "annotate_step (Update env) st = annotate_update env st"
| "annotate_step (Click t) st = annotate_click t st"

section \<open>Nothing is drawn twice\<close>

definition box_nodes :: "abox \<Rightarrow> nat" where
  "box_nodes b = (if bo_element b = None then 0 else if truthy_opt (bo_end b) then 2 else 1)"

definition ann_nodes :: "annotation \<Rightarrow> nat" where
  "ann_nodes a = sum_list (map box_nodes (an_boxes a))"

definition ann_markers :: "annotation \<Rightarrow> nat" where
  "ann_markers a = (if an_element a = None then 0 else 1)"

definition box_ok :: "abox \<Rightarrow> bool" where
  "box_ok b = (bo_element b \<noteq> None \<longrightarrow> truthy_opt (bo_end b) \<longrightarrow> bo_range b \<noteq> None)"

definition ann_ok :: "annotation \<Rightarrow> bool" where
  "ann_ok a = (an_boxes a \<noteq> [] \<and> list_all box_ok (an_boxes a) \<and> ((\<exists>b \<in> set (an_boxes a). bo_element b \<noteq> None) \<longrightarrow> an_line a \<noteq> None)
     \<and> (an_element a \<noteq> None \<longrightarrow> an_line a \<noteq> None))"

definition count_over :: "(annotation \<Rightarrow> nat) \<Rightarrow> (jsnum \<times> annotation) list \<Rightarrow> nat" where
  "count_over f data = sum_list (map (f \<circ> snd) data)"

definition annotate_ok :: "annotate \<Rightarrow> bool" where
  "annotate_ok st = (distinct (map fst (at_data st)) \<and> (\<forall>(t, a) \<in> set (at_data st). ann_ok a)
     \<and> length (dr_timeline (at_drawing st)) = count_over ann_markers (at_data st)
     \<and> length (dr_graph (at_drawing st)) = count_over ann_nodes (at_data st))"

lemma count_over_update:
  "distinct (map fst data) \<Longrightarrow> count_over f (AList.update t a data) + (case map_of data t of Some b \<Rightarrow> f b | None \<Rightarrow> 0) = count_over f data + f a"
  by (induction data) (auto simp: count_over_def split: option.splits dest: map_of_SomeD)

lemma set_update_subset: "set (AList.update t a data) \<subseteq> insert (t, a) (set data)"
  by (induction data) auto

lemma upd_node_frame [simp]: "dr_timeline (upd_node i f dr) = dr_timeline dr" "dr_graph (upd_node i f dr) = dr_graph dr"
  by (simp_all add: upd_node_def)

lemma hide_ranges_frame [simp]:
  "dr_timeline (hide_ranges bs dr) = dr_timeline dr" "dr_graph (hide_ranges bs dr) = dr_graph dr"
  by (induction bs dr rule: hide_ranges.induct) (auto split: option.splits)

lemma toggle_ranges_frame [simp]:
  "dr_timeline (toggle_ranges bs dr) = dr_timeline dr" "dr_graph (toggle_ranges bs dr) = dr_graph dr"
  by (induction bs dr rule: toggle_ranges.induct) (auto split: option.splits)

lemma draw_content_ok:
  assumes "draw_content el b line dr = (b', line', dr')" and "box_ok b" and "bo_element b \<noteq> None \<longrightarrow> line \<noteq> None"
  shows "box_ok b' \<and> bo_element b' \<noteq> None \<and> bo_end b' = bo_end b \<and> line' \<noteq> None \<and> dr_timeline dr' = dr_timeline dr
    \<and> length (dr_graph dr') + box_nodes b = length (dr_graph dr) + box_nodes b'"
  using assms by (auto simp: draw_content_def create_div_def box_ok_def box_nodes_def Let_def split: option.splits if_splits)

lemma place_range_ok:
  assumes "box_ok b" and "bo_element b \<noteq> None"
  shows "\<exists>dr'. place_range env left b dr = Inr dr' \<and> dr_timeline dr' = dr_timeline dr \<and> dr_graph dr' = dr_graph dr"
  using assms by (auto simp: place_range_def box_ok_def Let_def split: option.splits prod.splits)

lemma draw_boxes_ok:
  assumes "list_all box_ok bs" and "(\<exists>b \<in> set bs. bo_element b \<noteq> None) \<longrightarrow> line \<noteq> None"
  shows "\<exists>bs' line' dr'. draw_boxes env left el bs line dr = Inr (bs', line', dr') \<and> list_all box_ok bs' \<and> length bs' = length bs
    \<and> list_all (\<lambda>b. bo_element b \<noteq> None) bs' \<and> (bs = [] \<or> line' \<noteq> None) \<and> (line \<noteq> None \<longrightarrow> line' \<noteq> None) \<and> dr_timeline dr' = dr_timeline dr
    \<and> length (dr_graph dr') + sum_list (map box_nodes bs) = length (dr_graph dr) + sum_list (map box_nodes bs')"
  using assms
proof (induction bs arbitrary: line dr)
  case (Cons b bs)
  obtain b' line1 dr1 where c: "draw_content el b line dr = (b', line1, dr1)" by (metis surj_pair)
  from draw_content_ok [OF c] Cons.prems have b: "box_ok b'" "bo_element b' \<noteq> None" "line1 \<noteq> None" "dr_timeline dr1 = dr_timeline dr"
    "length (dr_graph dr1) + box_nodes b = length (dr_graph dr) + box_nodes b'" by auto
  obtain dr2 where r: "place_range env left b' dr1 = Inr dr2" "dr_timeline dr2 = dr_timeline dr1" "dr_graph dr2 = dr_graph dr1"
    using place_range_ok [OF b(1,2)] by blast
  obtain dr3 where l: "place_line left line1 dr2 = Inr dr3" "dr_timeline dr3 = dr_timeline dr2" "dr_graph dr3 = dr_graph dr2"
    using b(3) by (auto simp: place_line_def)
  have "list_all box_ok bs" "(\<exists>b \<in> set bs. bo_element b \<noteq> None) \<longrightarrow> line1 \<noteq> None" using Cons.prems(1) b(3) by auto
  from Cons.IH [OF this, of dr3] c b r l show ?case by fastforce
qed simp

lemma update_annotation_ok:
  assumes "annotate_ok st" and "t \<in> fst ` set (at_data st)"
  shows "\<exists>st'. update_annotation env t st = Inr st' \<and> annotate_ok st' \<and> map fst (at_data st') = map fst (at_data st)"
proof -
  obtain a where a: "map_of (at_data st) t = Some a" using assms(2) by (metis map_of_eq_None_iff not_None_eq)
  have d: "distinct (map fst (at_data st))" using assms(1) by (simp add: annotate_ok_def)
  have ok: "ann_ok a" using assms(1) map_of_SomeD [OF a] by (auto simp: annotate_ok_def)
  show ?thesis
  proof (cases "se_x env t < Fin 0 \<or> snd (se_range env) < se_x env t")
    case True
    have "\<exists>dr. go_offscreen a (at_drawing st) = Inr dr \<and> dr_timeline dr = dr_timeline (at_drawing st) \<and> dr_graph dr = dr_graph (at_drawing st)"
      using ok by (auto simp: go_offscreen_def ann_ok_def split: option.splits)
    then show ?thesis using assms(1) a True by (auto simp: update_annotation_def annotate_ok_def Let_def)
  next
    case False
    obtain el dr1 where e: "draw_element a (at_drawing st) = (el, dr1)" by fastforce
    let ?dr = "upd_node el (\<lambda>n. n\<lparr>nd_left := Some (se_x env t), nd_display := ''block''\<rparr>) dr1"
    obtain bs line dr where b: "draw_boxes env (se_x env t) el (an_boxes a) (an_line a) ?dr = Inr (bs, line, dr)" "list_all box_ok bs"
      "length bs = length (an_boxes a)" "line \<noteq> None" "dr_timeline dr = dr_timeline dr1"
      "length (dr_graph dr) + ann_nodes a = length (dr_graph dr1) + sum_list (map box_nodes bs)"
      using draw_boxes_ok [of "an_boxes a" "an_line a" env "se_x env t" el ?dr] ok by (auto simp: ann_ok_def ann_nodes_def)
    let ?a = "\<lparr>an_boxes = bs, an_element = Some el, an_line = line\<rparr>"
    let ?st = "st\<lparr>at_data := AList.update t ?a (at_data st), at_drawing := dr\<rparr>"
    have "ann_ok ?a" using b ok by (auto simp: ann_ok_def)
    moreover have "set (AList.update t ?a (at_data st)) \<subseteq> insert (t, ?a) (set (at_data st))" by (rule set_update_subset)
    moreover have "length (dr_timeline dr1) + ann_markers a = length (dr_timeline (at_drawing st)) + 1" "dr_graph dr1 = dr_graph (at_drawing st)"
      using e by (auto simp: draw_element_def create_div_def ann_markers_def split: option.splits)
    ultimately have "annotate_ok ?st"
      using assms(1) b(5,6) count_over_update [OF d, of ann_markers t ?a] count_over_update [OF d, of ann_nodes t ?a] a
      by (auto simp: annotate_ok_def ann_markers_def [of ?a] ann_nodes_def [of ?a] distinct_update)
    moreover have "map fst (AList.update t ?a (at_data st)) = map fst (at_data st)" using assms(2) by (simp add: update_keys)
    moreover have "update_annotation env t st = Inr ?st" using a False e b(1) by (auto simp: update_annotation_def Let_def)
    ultimately show ?thesis by auto
  qed
qed

lemma data_keys_set: "set (data_keys data) = fst ` set data"
  by (auto simp: data_keys_def Let_def)

lemma annotate_update_ok:
  assumes "annotate_ok st"
  shows "\<exists>st'. annotate_update env st = Inr st' \<and> annotate_ok st' \<and> map fst (at_data st') = map fst (at_data st)"
proof -
  have "\<exists>st'. for_each (update_annotation env) ks s = Inr st' \<and> annotate_ok st' \<and> map fst (at_data st') = map fst (at_data s)"
    if "annotate_ok s" "set ks \<subseteq> fst ` set (at_data s)" for ks s
    using that
  proof (induction ks arbitrary: s)
    case (Cons t ks)
    then obtain s1 where s1: "update_annotation env t s = Inr s1" "annotate_ok s1" "map fst (at_data s1) = map fst (at_data s)"
      using update_annotation_ok [of s t env] by (metis insert_subset list.simps(15))
    have "fst ` set (at_data s1) = fst ` set (at_data s)" using s1(3) by (metis list.set_map)
    with Cons.IH [OF s1(2)] Cons.prems(2) s1 show ?case by auto
  qed auto
  with assms show ?thesis by (simp add: annotate_update_def data_keys_set)
qed

lemma annotate_add_ok:
  assumes "annotate_ok st"
  shows "annotate_ok (annotate_add t c e st)"
proof -
  let ?a = "case map_of (at_data st) t of Some a \<Rightarrow> a | None \<Rightarrow> \<lparr>an_boxes = [], an_element = None, an_line = None\<rparr>"
  let ?b = "?a\<lparr>an_boxes := an_boxes ?a @ [new_box c e]\<rparr>"
  have d: "distinct (map fst (at_data st))" using assms by (simp add: annotate_ok_def)
  have "map_of (at_data st) t = None \<or> ann_ok ?a"
    using assms by (cases "map_of (at_data st) t") (auto simp: annotate_ok_def dest: map_of_SomeD)
  then have "ann_ok ?b" by (auto simp: ann_ok_def box_ok_def new_box_def split: option.splits)
  moreover have "ann_nodes ?b = ann_nodes ?a" "ann_markers ?b = ann_markers ?a"
    by (auto simp: ann_nodes_def ann_markers_def box_nodes_def new_box_def)
  moreover have "\<forall>(u, a) \<in> set (AList.update t ?b (at_data st)). ann_ok a" if "ann_ok ?b"
    using that assms set_update_subset [of t ?b "at_data st"] by (fastforce simp: annotate_ok_def)
  moreover have "count_over f (AList.update t ?b (at_data st)) = count_over f (at_data st)"
    if "f ?b = f ?a" "f \<lparr>an_boxes = [], an_element = None, an_line = None\<rparr> = 0" for f
    using count_over_update [OF d, of f t ?b] that by (simp split: option.splits)
  moreover have "ann_nodes \<lparr>an_boxes = [], an_element = None, an_line = None\<rparr> = 0" "ann_markers \<lparr>an_boxes = [], an_element = None, an_line = None\<rparr> = 0"
    by (simp_all add: ann_nodes_def ann_markers_def)
  ultimately show ?thesis using assms by (simp add: annotate_add_def annotate_ok_def Let_def distinct_update)
qed

lemma annotate_click_ok: "annotate_ok st \<Longrightarrow> \<exists>st'. annotate_click t st = Inr st' \<and> annotate_ok st'"
  by (auto simp: annotate_click_def annotate_ok_def ann_ok_def split: option.splits dest!: map_of_SomeD)

lemma new_annotate_ok: "annotate_ok new_annotate"
  by (simp add: annotate_ok_def new_annotate_def count_over_def)

lemma annotations_run_ok: "\<exists>st. for_each annotate_step ops new_annotate = Inr st \<and> annotate_ok st"
proof -
  have step: "\<exists>st'. annotate_step op st = Inr st' \<and> annotate_ok st'" if "annotate_ok st" for op st
    using annotate_add_ok [OF that] annotate_update_ok [OF that] annotate_click_ok [OF that] by (cases op) (simp_all, blast+)
  have "\<exists>st'. for_each annotate_step ops s = Inr st' \<and> annotate_ok st'" if "annotate_ok s" for s
    using that
  proof (induction ops arbitrary: s)
    case (Cons op ops)
    from step [OF Cons.prems, of op] Cons.IH show ?case by auto
  qed simp
  then show ?thesis using new_annotate_ok by blast
qed

section \<open>Properties\<close>

text \<open>
  C27. Annotations never make the graph throw and nothing of them is drawn twice: over any sequence of additions, updates with any scale, and
  clicks, the timeline has exactly one marker for every time that was ever shown, and the graph has one line for every box that was drawn
  and one range for every such box that has an end.
\<close>

theorem annotations_drawn_once:
  "\<exists>st. for_each annotate_step ops new_annotate = Inr st
    \<and> length (dr_timeline (at_drawing st)) = length (filter (\<lambda>(t, a). an_element a \<noteq> None) (at_data st))
    \<and> length (dr_graph (at_drawing st)) =
        (\<Sum>(t, a) \<leftarrow> at_data st. \<Sum>b \<leftarrow> an_boxes a. (if bo_element b = None then 0 else if truthy_opt (bo_end b) then 2 else 1))"
proof -
  obtain st where st: "for_each annotate_step ops new_annotate = Inr st" "annotate_ok st" using annotations_run_ok by blast
  have "count_over ann_markers data = length (filter (\<lambda>(t, a). an_element a \<noteq> None) data)" for data
    by (induction data) (auto simp: count_over_def ann_markers_def)
  moreover have "count_over ann_nodes data =
      (\<Sum>(t, a) \<leftarrow> data. \<Sum>b \<leftarrow> an_boxes a. (if bo_element b = None then 0 else if truthy_opt (bo_end b) then 2 else 1))" for data
    by (induction data) (auto simp: count_over_def ann_nodes_def box_nodes_def cong: map_cong)
  ultimately show ?thesis using st by (auto simp: annotate_ok_def)
qed

text \<open>
  C33. The bar of an annotation with an end lies within the range of the scale, begins and ends at the time and the end as far as they are visible,
  and its width is never negative, whichever of the two comes first.
\<close>

theorem range_within_scale:
  assumes "se_range env = (Fin 0, Fin w)" and "se_x env e = Fin x" and "0 \<le> l" and "l \<le> w"
  shows "range_span env (Fin l) e = (Fin (max 0 (min l x)), Fin (min w (max l x)))
    \<and> 0 \<le> max 0 (min l x) \<and> max 0 (min l x) \<le> min w (max l x) \<and> min w (max l x) \<le> w"
  using assms by (auto simp: range_span_def Let_def min_def max_def)

theorem range_within_scale_witness:
  "range_span \<lparr>se_x = (\<lambda>_. Fin 130), se_range = (Fin 0, Fin 100)\<rparr> (Fin 40) (Fin 9) = (Fin 40, Fin 100)"
  using range_within_scale [of "\<lparr>se_x = (\<lambda>_. Fin 130), se_range = (Fin 0, Fin 100)\<rparr>" 100 "Fin 9" 130 40] by simp

text \<open>
  Of the lines of several boxes at one time only the last is remembered: after the time has left the window, the lines of the other boxes
  stay in the graph, at their old place and not marked as offscreen.
\<close>

theorem annotation_lines_stay:
  assumes "se_range env1 = (Fin 0, Fin w)" and "se_x env1 t = Fin l" and "0 \<le> l" and "l \<le> w" and "se_x env2 t < Fin 0"
    and "for_each annotate_step [AddBox t c1 None, AddBox t c2 None, Update env1, Update env2] new_annotate = Inr st"
  shows "map (\<lambda>i. (nd_class (dr_nodes (at_drawing st) ! i), nd_left (dr_nodes (at_drawing st) ! i))) (dr_graph (at_drawing st)) =
    [([''annotation_line''], Some (Fin l)), ([''annotation_line'', ''offscreen''], Some (Fin l))]"
proof -
  let ?st = "annotate_add t c2 None (annotate_add t c1 None new_annotate)"
  have k: "data_keys [(t, a)] = [t]" for a :: annotation by (simp add: data_keys_def)
  have d: "at_data ?st = [(t, \<lparr>an_boxes = [new_box c1 None, new_box c2 None], an_element = None, an_line = None\<rparr>)]"
    by (simp add: annotate_add_def new_annotate_def)
  have in1: "\<not> (Fin l < Fin 0 \<or> Fin w < Fin l)" using assms(3,4) by simp
  obtain st1 where st1: "update_annotation env1 t ?st = Inr st1" 
    "at_data st1 = [(t, \<lparr>an_boxes = [(new_box c1 None)\<lparr>bo_element := Some 1\<rparr>, (new_box c2 None)\<lparr>bo_element := Some 3\<rparr>], an_element = Some 0, an_line = Some 4\<rparr>)]"
    "dr_graph (at_drawing st1) = [2, 4]" "length (dr_nodes (at_drawing st1)) = 5"
    "nd_class (dr_nodes (at_drawing st1) ! 2) = [''annotation_line'']" "nd_left (dr_nodes (at_drawing st1) ! 2) = Some (Fin l)"
    "nd_class (dr_nodes (at_drawing st1) ! 4) = [''annotation_line'']" "nd_left (dr_nodes (at_drawing st1) ! 4) = Some (Fin l)"
    using in1 assms(1,2) by (simp add: update_annotation_def d draw_element_def create_div_def Let_def draw_content_def new_box_def place_range_def
        place_line_def upd_node_def tok_remove_def annotate_add_def new_annotate_def)
  have "update_annotation env2 t st1 = Inr (st1\<lparr>at_drawing := upd_node 0 (\<lambda>n. n\<lparr>nd_display := ''none''\<rparr>) (upd_node 4 (tok_add ''offscreen'') (at_drawing st1))\<rparr>)"
    using assms(5) by (simp add: update_annotation_def st1(2) go_offscreen_def new_box_def)
  then have "st = st1\<lparr>at_drawing := upd_node 0 (\<lambda>n. n\<lparr>nd_display := ''none''\<rparr>) (upd_node 4 (tok_add ''offscreen'') (at_drawing st1))\<rparr>"
    using assms(6) by (simp add: annotate_update_def d k st1)
  then show ?thesis using st1 by (simp add: upd_node_def tok_add_def)
qed

theorem annotation_lines_stay_witness:
  "\<exists>st. for_each annotate_step [AddBox (Fin 5) ''a'' None, AddBox (Fin 5) ''b'' None, Update \<lparr>se_x = (\<lambda>t. t), se_range = (Fin 0, Fin 9)\<rparr>,
       Update \<lparr>se_x = (\<lambda>t. t - Fin 7), se_range = (Fin 0, Fin 9)\<rparr>] new_annotate = Inr st
     \<and> map (\<lambda>i. ''offscreen'' \<in> set (nd_class (dr_nodes (at_drawing st) ! i))) (dr_graph (at_drawing st)) = [False, True]"
proof -
  let ?e = "\<lambda>d. \<lparr>se_x = (\<lambda>t. t - Fin d), se_range = (Fin 0, Fin 9)\<rparr>"
  let ?ops = "[AddBox (Fin 5) ''a'' None, AddBox (Fin 5) ''b'' None, Update \<lparr>se_x = (\<lambda>t. t), se_range = (Fin 0, Fin 9)\<rparr>, Update (?e 7)]"
  obtain st where st: "for_each annotate_step ?ops new_annotate = Inr st" using annotations_run_ok [of ?ops] by blast
  from annotation_lines_stay [of "\<lparr>se_x = (\<lambda>t. t), se_range = (Fin 0, Fin 9)\<rparr>" 9 "Fin 5" 5 "?e 7" "''a''" "''b''", OF _ _ _ _ _ st]
  have m: "map (\<lambda>i. (nd_class (dr_nodes (at_drawing st) ! i), nd_left (dr_nodes (at_drawing st) ! i))) (dr_graph (at_drawing st)) =
      [([''annotation_line''], Some (Fin 5)), ([''annotation_line'', ''offscreen''], Some (Fin 5))]" by simp
  have "map (\<lambda>i. ''offscreen'' \<in> set (nd_class (dr_nodes (at_drawing st) ! i))) (dr_graph (at_drawing st)) =
      map (\<lambda>(c, _). ''offscreen'' \<in> set c)
        (map (\<lambda>i. (nd_class (dr_nodes (at_drawing st) ! i), nd_left (dr_nodes (at_drawing st) ! i))) (dr_graph (at_drawing st)))" by simp
  with st m show ?thesis by (simp only: m) simp
qed

end
