(* ===== verification/HoverRender.thy ===== *)
theory HoverRender
  imports HoverDetail TimeFixture
begin

text \<open>
  The rest of \<open>Rickshaw.Graph.HoverDetail\<close>: construction, the nodes that its own \<open>render\<close> shows for the selected point, the choice of the
  side of the labels, and its listeners. Where the labels end up on the screen is an argument, for either side.
\<close>

section \<open>The default formats\<close>

text \<open>\<open>new Date(x * 1000).toUTCString()\<close>.\<close>

definition week_days :: "string list" where
  "week_days = [''Sun'', ''Mon'', ''Tue'', ''Wed'', ''Thu'', ''Fri'', ''Sat'']"

definition year_str :: "int \<Rightarrow> string" where
  "year_str y = (let d = nat_str (nat \<bar>y\<bar>) in (if y < 0 then ''-'' else []) @ replicate (4 - length d) (CHR ''0'') @ d)"

fun toUTCString :: "int option \<Rightarrow> string" where
  "toUTCString None = ''Invalid Date''"
| "toUTCString (Some v) =
     week_days ! nat ((v div ms_per_day + 4) mod 7) @ '', '' @ pad2 (getUTCDate v) @ '' '' @ months ! nat (getUTCMonth v) @ '' '' @
     year_str (getUTCFullYear v) @ '' '' @ pad2 (getUTCHours v) @ '':'' @ pad2 (getUTCMinutes v) @ '':'' @ pad2 (getUTCSeconds v) @ '' GMT''"

definition format_x :: "jsnum \<Rightarrow> string" where
  "format_x x = toUTCString (date_of (x * Fin 1000))"

definition detail_formatter :: "hover_point \<Rightarrow> string" where
  "detail_formatter p = hp_name p @ '':&nbsp;'' @ hp_formattedY p"

section \<open>Construction and listeners\<close>

text \<open>
  A listener on the element of the graph is an event and the number of the bound function. \<open>dt_onUpdates\<close> counts the callbacks registered
  with the graph, which nothing takes away.
\<close>

record detail_node =
  dn_class :: "string list"
  dn_html :: string
  dn_top :: "jsnum option"
  dn_borderColor :: "string option"

datatype detail_call = OnShow | OnHide | OnRender

record detail_args =
  da_xFormatter :: "(jsnum \<Rightarrow> string) option"
  da_yFormatter :: "(jsnum option \<Rightarrow> string) option"
  da_formatter :: "(hover_point \<Rightarrow> string) option"
  da_calls :: "detail_call set"

record detail =
  dt_hover :: hover
  dt_xFormatter :: "jsnum \<Rightarrow> string"
  dt_yFormatter :: "jsnum option \<Rightarrow> string"
  dt_formatter :: "hover_point \<Rightarrow> string"
  dt_calls :: "detail_call set"
  dt_nodes :: "detail_node list"
  dt_log :: "detail_call list"
  dt_mousemove :: "nat option"
  dt_mouseout :: "nat option"
  dt_onUpdates :: nat

definition addListeners :: "(string \<times> nat) list \<times> nat \<Rightarrow> detail \<Rightarrow> detail \<times> (string \<times> nat) list \<times> nat" where
  "addListeners = (\<lambda>(listeners, fresh) d.
     (d\<lparr>dt_mousemove := Some fresh, dt_mouseout := Some (Suc fresh), dt_onUpdates := Suc (dt_onUpdates d)\<rparr>,
      listeners @ [(''mousemove'', fresh), (''mouseout'', Suc fresh)], fresh + 2))"

definition removeListeners :: "detail \<Rightarrow> (string \<times> nat) list \<Rightarrow> (string \<times> nat) list" where
  "removeListeners d listeners =
     (let ls = (case dt_mousemove d of Some k \<Rightarrow> remove1 (''mousemove'', k) listeners | None \<Rightarrow> listeners)
      in case dt_mouseout d of Some k \<Rightarrow> remove1 (''mouseout'', k) ls | None \<Rightarrow> ls)"

definition new_detail :: "detail_args \<Rightarrow> (string \<times> nat) list \<times> nat \<Rightarrow> detail \<times> (string \<times> nat) list \<times> nat" where
  "new_detail args page =
     addListeners page
       \<lparr>dt_hover = \<lparr>hv_visible = True, hv_inactive = True, hv_lastEvent = None, hv_left = None\<rparr>,
        dt_xFormatter = (case da_xFormatter args of Some f \<Rightarrow> f | None \<Rightarrow> format_x),
        dt_yFormatter = (case da_yFormatter args of Some f \<Rightarrow> f | None \<Rightarrow> format_y),
        dt_formatter = (case da_formatter args of Some f \<Rightarrow> f | None \<Rightarrow> detail_formatter),
        dt_calls = da_calls args, dt_nodes = [], dt_log = [], dt_mousemove = None, dt_mouseout = None, dt_onUpdates = 0\<rparr>"

section \<open>Showing a point\<close>

definition call_back :: "detail_call \<Rightarrow> detail \<Rightarrow> detail" where
  "call_back c d = (if c \<in> dt_calls d then d\<lparr>dt_log := dt_log d @ [c]\<rparr> else d)"

definition detail_hide :: "detail \<Rightarrow> detail" where
  "detail_hide d = call_back OnHide (d\<lparr>dt_hover := hover_hide (dt_hover d)\<rparr>)"

definition detail_show :: "detail \<Rightarrow> detail" where
  "detail_show d = call_back OnShow (d\<lparr>dt_hover := hover_show (dt_hover d)\<rparr>)"

fun side_class :: "side \<Rightarrow> string" where
  "side_class LeftSide = ''left''"
| "side_class RightSide = ''right''"

definition point_nodes :: "hover_env \<Rightarrow> (hover_point \<Rightarrow> string) \<Rightarrow> side \<Rightarrow> hover_point \<Rightarrow> detail_node list" where
  "point_nodes env formatter s p =
     (let top = he_y env (point_top (hp_value p)) in
      [\<lparr>dn_class = [''x_label'', side_class s], dn_html = hp_formattedX p, dn_top = None, dn_borderColor = None\<rparr>,
       \<lparr>dn_class = [''item'', ''active'', side_class s], dn_html = formatter p, dn_top = Some top, dn_borderColor = None\<rparr>,
       \<lparr>dn_class = [''dot'', ''active''], dn_html = [], dn_top = Some top, dn_borderColor = Some (hp_color p)\<rparr>])"

text \<open>\<open>parent\<close> is the box of the graph, \<open>boxes\<close> gives the boxes of the two labels of a point on either side.\<close>

definition detail_render :: "hover_env \<Rightarrow> box \<Rightarrow> (hover_point \<Rightarrow> side \<Rightarrow> box list) \<Rightarrow> hover_point list \<Rightarrow> detail \<Rightarrow> detail js" where
  "detail_render env parent boxes points d =
     (case filter hp_active points of
        [] \<Rightarrow> Inl TypeError
      | p # _ \<Rightarrow>
          if py (hp_value p) = None then Inr d
          else
            let s = align parent (boxes p LeftSide) (boxes p RightSide);
                h = (dt_hover d)\<lparr>hv_left := Some (he_x env (px (hp_value p)))\<rparr>
            in Inr (call_back OnRender (detail_show (d\<lparr>dt_hover := h, dt_nodes := point_nodes env (dt_formatter d) s p\<rparr>))))"

text \<open>\<open>update\<close> empties the element when it has found a point, and renders when the detail is visible.\<close>

definition finds_point :: "hover_env \<Rightarrow> hover_series list \<Rightarrow> hover_event option \<Rightarrow> bool" where
  "finds_point env series e =
     (case e of
        None \<Rightarrow> False
      | Some ev \<Rightarrow> ev_nodeName ev \<in> set node_names
          \<and> (case hover_entries env (ev_clientX ev - he_left env) (ev_clientY ev - he_top env) 0 series of Some (_ # _) \<Rightarrow> True | _ \<Rightarrow> False))"

definition detail_update ::
  "hover_env \<Rightarrow> box \<Rightarrow> (hover_point \<Rightarrow> side \<Rightarrow> box list) \<Rightarrow> hover_series list \<Rightarrow> hover_event option \<Rightarrow> detail \<Rightarrow> detail js option"
where
  "detail_update env parent boxes series e d =
     (let env' = env\<lparr>he_formatX := dt_xFormatter d, he_formatY := dt_yFormatter d\<rparr>
      in map_option (\<lambda>(h, points).
           let found = finds_point env' series (if e = None then hv_lastEvent (dt_hover d) else e);
               d1 = d\<lparr>dt_hover := h, dt_nodes := (if found then [] else dt_nodes d)\<rparr>
           in case points of None \<Rightarrow> Inr d1 | Some ps \<Rightarrow> detail_render env' parent boxes ps d1)
         (hover_update env' series e (dt_hover d)))"

definition detail_mousemove ::
  "hover_env \<Rightarrow> box \<Rightarrow> (hover_point \<Rightarrow> side \<Rightarrow> box list) \<Rightarrow> hover_series list \<Rightarrow> hover_event \<Rightarrow> detail \<Rightarrow> detail js option"
where
  "detail_mousemove env parent boxes series e d =
     detail_update env parent boxes series (Some e) (d\<lparr>dt_hover := (dt_hover d)\<lparr>hv_visible := True\<rparr>\<rparr>)"

definition detail_mouseout :: "bool option \<Rightarrow> detail \<Rightarrow> detail" where
  "detail_mouseout related_inside d = (if related_inside = Some False then detail_hide d else d)"

section \<open>The nearest point and the better side\<close>

lemma jsnum_less_trans: "(a::jsnum) < b \<Longrightarrow> b < c \<Longrightarrow> a < c"
  by (cases a; cases b; cases c) auto

lemma jsnum_irrefl [simp]: "\<not> (a::jsnum) < a"
  by (cases a) auto

lemma nearest_least:
  assumes "best < i" and "i + length ps = length qs" and "drop i qs = ps" and "d = hp_distance2 (qs ! best)"
    and "\<forall>q \<in> set (take i qs). \<not> hp_distance2 q < d"
  shows "nearest best i d ps < length qs \<and> (\<forall>q \<in> set qs. \<not> hp_distance2 q < hp_distance2 (qs ! nearest best i d ps))"
  using assms
proof (induction ps arbitrary: best i d)
  case (Cons p ps)
  have i: "i < length qs" "qs ! i = p" "drop (Suc i) qs = ps"
    using Cons.prems(2,3) by (auto simp: nth_via_drop drop_Suc drop_tl [symmetric] simp del: drop_Suc_Cons) (metis list.sel(3) tl_drop)
  have t: "take (Suc i) qs = take i qs @ [p]" using i by (simp add: take_Suc_conv_app_nth)
  show ?case
  proof (cases "hp_distance2 p < d")
    case True
    then have "\<forall>q \<in> set (take (Suc i) qs). \<not> hp_distance2 q < hp_distance2 p"
      using Cons.prems(5) jsnum_less_trans unfolding t by auto
    with Cons.IH [of i "Suc i" "hp_distance2 p"] Cons.prems(2) i True show ?thesis by simp
  next
    case False
    with Cons.IH [of best "Suc i" d] Cons.prems i show ?thesis by (simp add: t)
  qed
qed auto

lemma nearest_index_least:
  assumes "ps \<noteq> []"
  shows "nearest_index ps < length ps \<and> (\<forall>q \<in> set ps. \<not> hp_distance2 q < hp_distance2 (ps ! nearest_index ps))"
  using nearest_least [of 0 1 "tl ps" ps "hp_distance2 (hd ps)"] assms by (cases ps) (auto simp: nearest_index_def)

lemma layout_error_not_negative: "\<not> layout_error parent els < Fin 0"
proof -
  have add: "\<not> e + (b - a) < Fin 0" if "\<not> e < Fin 0" "a < b" for a b e
    using that by (cases e; cases a; cases b) (auto simp: minus_jsnum_def)
  define f where "f = (\<lambda>(el :: box) e. if \<not> truthy_num (bx_width el) then e
      else let e1 = (if bx_right parent < bx_right el then e + (bx_right el - bx_right parent) else e)
           in if bx_left el < bx_left parent then e1 + (bx_left parent - bx_left el) else e1)"
  have "\<not> fold f els e < Fin 0" if "\<not> e < Fin 0" for e
    using that by (induction els arbitrary: e) (simp_all add: f_def Let_def add)
  then show ?thesis by (simp add: layout_error_def f_def)
qed

lemma align_least:
  "\<not> layout_error parent (if align parent l r = LeftSide then r else l) < layout_error parent (if align parent l r = LeftSide then l else r)"
proof -
  have asym: "\<not> b < a" if "a < b" for a b :: jsnum using that jsnum_less_trans jsnum_irrefl by blast
  have zero: "\<not> b < a" if "\<not> Fin 0 < a" "\<not> b < Fin 0" for a b :: jsnum
    using that by (cases a; cases b) auto
  let ?l = "layout_error parent l" and ?r = "layout_error parent r"
  consider "\<not> Fin 0 < ?l" | "Fin 0 < ?l" "?l < ?r" | "Fin 0 < ?l" "\<not> ?l < ?r" by blast
  then show ?thesis
  proof cases
    case 1
    then show ?thesis using zero layout_error_not_negative by (simp add: align_def Let_def)
  next
    case 2
    then show ?thesis using asym by (simp add: align_def Let_def)
  next
    case 3
    then show ?thesis by (simp add: align_def Let_def)
  qed
qed

section \<open>Properties\<close>

text \<open>
  C28. A move of the pointer over the drawing shows the detail of a nearest point: when the searches end and find a point with a value, the
  detail is visible and holds one label of the time, one item and one dot at the height of the point, nothing of what it showed before; no
  point found is nearer; and the labels are on a side on which they reach no further out of the graph than on the other.
\<close>

theorem detail_shows_nearest:
  assumes "ev_nodeName ev \<in> set node_names"
    and "hover_entries (env\<lparr>he_formatX := dt_xFormatter d, he_formatY := dt_yFormatter d\<rparr>)
           (ev_clientX ev - he_left env) (ev_clientY ev - he_top env) 0 series = Some ps" and "ps \<noteq> []"
    and "\<forall>p \<in> set ps. py (hp_value p) \<noteq> None \<and> \<not> hp_active p"
  shows "\<exists>d' p s. detail_mousemove env parent boxes series ev d = Some (Inr d')
    \<and> p \<in> set ps \<and> (\<forall>q \<in> set ps. \<not> hp_distance2 q < hp_distance2 p)
    \<and> hv_visible (dt_hover d') \<and> \<not> hv_inactive (dt_hover d') \<and> hv_left (dt_hover d') = Some (he_x env (px (hp_value p)))
    \<and> map (\<lambda>n. (hd (dn_class n), dn_html n, dn_top n)) (dt_nodes d') =
        (let top = he_y env (point_top (hp_value p))
         in [(''x_label'', hp_formattedX p, None), (''item'', dt_formatter d (p\<lparr>hp_active := True\<rparr>), Some top), (''dot'', [], Some top)])
    \<and> side_class s \<in> set (dn_class (dt_nodes d' ! 0)) \<and> side_class s \<in> set (dn_class (dt_nodes d' ! 1))
    \<and> (\<forall>t. \<not> layout_error parent (boxes (p\<lparr>hp_active := True\<rparr>) t) < layout_error parent (boxes (p\<lparr>hp_active := True\<rparr>) s))"
proof -
  let ?env = "env\<lparr>he_formatX := dt_xFormatter d, he_formatY := dt_yFormatter d\<rparr>" and ?k = "nearest_index ps"
  let ?p = "ps ! ?k" and ?d = "d\<lparr>dt_hover := (dt_hover d)\<lparr>hv_visible := True\<rparr>\<rparr>"
  let ?q = "?p\<lparr>hp_active := True\<rparr>"
  let ?s = "align parent (boxes ?q LeftSide) (boxes ?q RightSide)"
  have k: "?k < length ps" "\<forall>q \<in> set ps. \<not> hp_distance2 q < hp_distance2 ?p" using nearest_index_least [OF assms(3)] by auto
  have up: "hover_update ?env series (Some ev) (dt_hover ?d) =
      Some ((dt_hover ?d)\<lparr>hv_lastEvent := Some ev, hv_left := Some (he_x env (px (hp_value ?p)))\<rparr>, Some (ps[?k := ?q]))"
    using assms(1-3) by (simp add: hover_update_def Let_def)
  have one: "filter hp_active (ps[k := q\<lparr>hp_active := True\<rparr>]) = [q\<lparr>hp_active := True\<rparr>]" if "k < length ps" for k q
  proof -
    have "filter hp_active (take k ps) = []" "filter hp_active (drop (Suc k) ps) = []"
      using assms(4) by (auto simp: filter_empty_conv dest: in_set_takeD in_set_dropD)
    then show ?thesis using that by (simp add: upd_conv_take_nth_drop)
  qed
  obtain y where v: "py (hp_value ?p) = Some y" using assms(4) k(1) by fastforce
  obtain d' where d': "detail_mousemove env parent boxes series ev d = Some (Inr d')"
    "d' = call_back OnRender (detail_show (?d\<lparr>dt_hover := (dt_hover ?d)\<lparr>hv_lastEvent := Some ev, hv_left := Some (he_x env (px (hp_value ?p)))\<rparr>,
        dt_nodes := point_nodes ?env (dt_formatter d) ?s ?q\<rparr>))"
    using up v one [OF k(1), of ?p] by (simp add: detail_mousemove_def detail_update_def detail_render_def Let_def)
  have "dt_hover (call_back c e) = dt_hover e" "dt_nodes (call_back c e) = dt_nodes e" for c e by (simp_all add: call_back_def)
  then have "dt_nodes d' = point_nodes ?env (dt_formatter d) ?s ?q"
    "dt_hover d' = hover_show ((dt_hover ?d)\<lparr>hv_lastEvent := Some ev, hv_left := Some (he_x env (px (hp_value ?p)))\<rparr>)"
    by (simp_all add: d'(2) detail_show_def)
  moreover have "\<forall>t. \<not> layout_error parent (boxes ?q t) < layout_error parent (boxes ?q ?s)"
  proof
    fix t
    show "\<not> layout_error parent (boxes ?q t) < layout_error parent (boxes ?q ?s)"
      using align_least [of parent "boxes ?q LeftSide" "boxes ?q RightSide"] by (cases t; cases ?s) auto
  qed
  moreover have "?p \<in> set ps" using k(1) by simp
  ultimately show ?thesis
    using d'(1) k(2) by (intro exI [of _ d'] exI [of _ ?p] exI [of _ ?s]) (simp add: point_nodes_def hover_show_def Let_def)
qed

definition test_hover_env :: hover_env where
  "test_hover_env = \<lparr>he_left = Fin 0, he_top = Fin 0, he_x = (\<lambda>x. x), he_y = (\<lambda>y. y), he_x_invert = (\<lambda>x. x),
     he_index_scale = (\<lambda>_ _ _. Fin 0), he_formatX = (\<lambda>_. []), he_formatY = (\<lambda>_. [])\<rparr>"

definition test_row :: hover_series where
  "test_row = \<lparr>hs_name = ''rx'', hs_color = ''red'', hs_points = [\<lparr>px = Fin 3, py = Some (Fin 4), py0 = Some (Fin 1), pidx = None\<rparr>],
     hs_formatX = None, hs_formatY = None, hs_invert = None\<rparr>"

theorem detail_shows_nearest_witness:
  "let d = fst (new_detail \<lparr>da_xFormatter = None, da_yFormatter = None, da_formatter = None, da_calls = {}\<rparr> ([], 0));
       ev = \<lparr>ev_nodeName = ''path'', ev_clientX = Fin 3, ev_clientY = Fin 9\<rparr>
   in \<exists>d'. detail_mousemove test_hover_env \<lparr>bx_left = Fin 0, bx_right = Fin 90, bx_width = Fin 90\<rparr> (\<lambda>_ _. []) [test_row] ev d = Some (Inr d')
        \<and> hv_visible (dt_hover d') \<and> map dn_top (dt_nodes d') = [None, Some (Fin 5), Some (Fin 5)]"
proof -
  define d where "d = fst (new_detail \<lparr>da_xFormatter = None, da_yFormatter = None, da_formatter = None, da_calls = {}\<rparr> ([], 0))"
  let ?ev = "\<lparr>ev_nodeName = ''path'', ev_clientX = Fin 3, ev_clientY = Fin 9\<rparr>"
  let ?env = "test_hover_env\<lparr>he_formatX := dt_xFormatter d, he_formatY := dt_yFormatter d\<rparr>"
  have "data_index (\<lambda>_. Fin 0) [Fin 3] (Fin 3) = Some 0"
    by (simp add: data_index_def approximate_index_def js_round_def start_index_def index_loop.simps or_num_def Let_def js_num)
  then have "\<exists>p. hover_entries ?env (Fin 3 - Fin 0) (Fin 9 - Fin 0) 0 [test_row] = Some [p] \<and> hp_value p = \<lparr>px = Fin 3, py = Some (Fin 4), py0 = Some (Fin 1), pidx = None\<rparr> \<and> \<not> hp_active p"
    by (simp add: hover_entry_def test_row_def test_hover_env_def Let_def)
  then obtain p where p: "hover_entries ?env (Fin 3 - Fin 0) (Fin 9 - Fin 0) 0 [test_row] = Some [p]"
    "hp_value p = \<lparr>px = Fin 3, py = Some (Fin 4), py0 = Some (Fin 1), pidx = None\<rparr>" "\<not> hp_active p" by blast
  have e: "ev_nodeName ?ev \<in> set node_names" "he_left test_hover_env = Fin 0" "he_top test_hover_env = Fin 0" "he_y test_hover_env = (\<lambda>y. y)"
    "ev_clientX ?ev = Fin 3" "ev_clientY ?ev = Fin 9" by (simp_all add: node_names_def test_hover_env_def)
  have ps: "[p] \<noteq> []" "\<forall>q \<in> set [p]. py (hp_value q) \<noteq> None \<and> \<not> hp_active q" using p by simp_all
  obtain d' q where r: "detail_mousemove test_hover_env \<lparr>bx_left = Fin 0, bx_right = Fin 90, bx_width = Fin 90\<rparr> (\<lambda>_ _. []) [test_row] ?ev d = Some (Inr d')"
    "q \<in> set [p]" "hv_visible (dt_hover d')"
    "map (\<lambda>n. (hd (dn_class n), dn_html n, dn_top n)) (dt_nodes d') =
       (let top = he_y test_hover_env (point_top (hp_value q))
        in [(''x_label'', hp_formattedX q, None), (''item'', dt_formatter d (q\<lparr>hp_active := True\<rparr>), Some top), (''dot'', [], Some top)])"
    using detail_shows_nearest [where env = test_hover_env and d = d and series = "[test_row]" and boxes = "\<lambda>_ _. []" and
        parent = "\<lparr>bx_left = Fin 0, bx_right = Fin 90, bx_width = Fin 90\<rparr>", OF e(1) _ ps]
    unfolding e(2,3,5,6) using p(1) by blast
  have "map dn_top (dt_nodes d') = map (\<lambda>(_, _, t). t) (map (\<lambda>n. (hd (dn_class n), dn_html n, dn_top n)) (dt_nodes d'))" by simp
  then have "map dn_top (dt_nodes d') = [None, Some (Fin 5), Some (Fin 5)]"
    using r(2) unfolding r(4) by (simp add: e(4) p(2) point_top_def Let_def)
  with r(1,3) show ?thesis by (simp add: d_def Let_def)
qed

text \<open>
  The listeners of a detail: construction adds the two that \<open>_removeListeners\<close> takes away again, whatever else listens.
\<close>

theorem detail_listeners_roundtrip:
  assumes "\<forall>(e, k) \<in> set listeners. k < fresh" and "new_detail args (listeners, fresh) = (d, listeners', fresh')"
  shows "removeListeners d listeners' = listeners \<and> length listeners' = length listeners + 2"
proof -
  have "(e, k) \<notin> set listeners" if "fresh \<le> k" for e k using assms(1) that by auto
  then have "(''mousemove'', fresh) \<notin> set listeners" "(''mouseout'', Suc fresh) \<notin> set listeners" by simp_all
  then show ?thesis using assms(2) by (auto simp: new_detail_def addListeners_def removeListeners_def remove1_append)
qed

theorem detail_listeners_roundtrip_witness:
  "\<exists>d ls n. new_detail \<lparr>da_xFormatter = None, da_yFormatter = None, da_formatter = None, da_calls = {}\<rparr> ([(''click'', 0)], 1) = (d, ls, n)
     \<and> removeListeners d ls = [(''click'', 0)]"
proof -
  obtain d ls n where "new_detail \<lparr>da_xFormatter = None, da_yFormatter = None, da_formatter = None, da_calls = {}\<rparr> ([(''click'', 0)], 1) = (d, ls, n)"
    by (metis prod_cases3)
  with detail_listeners_roundtrip [of "[(''click'', 0)]" 1] show ?thesis by fastforce
qed

end
