(* ===== verification/LivePlot.thy ===== *)
theory LivePlot
  imports SeriesWindow GraphData Drawing
begin

text \<open>
  The path of the data through the application: the samples that a fixed-duration series records, the stacking of its rows by the graph, and
  the lines that the line renderer draws. The points of the series are the objects that \<open>stackData\<close> works on.
\<close>

section \<open>The series in the store of a graph\<close>

text \<open>The rows are laid out one after the other.\<close>

fun place :: "nat \<Rightarrow> 'a list list \<Rightarrow> nat list list" where
  "place n [] = []"
| "place n (r # rs) = [n ..< n + length r] # place (n + length r) rs"

text \<open>A graph over the rows without scales, window or hooks, and with the line renderer, which does not stack.\<close>

definition live_data :: "series_item list \<Rightarrow> graph_data" where
  "live_data its =
     \<lparr>heap = concat (map si_data its),
      gseries = map2 (\<lambda>it r. \<lparr>gs_name = si_name it, gs_data = r, gs_disabled = False, gs_scale = None, gs_stack = None\<rparr>) its (place 0 (map si_data its)),
      win_xMin = None, win_xMax = None, preserve = False, unstack = True, offset = ''zero'', data_hooks = [], after_hooks = [], stackedData = None\<rparr>"

definition drawn_point :: "point \<Rightarrow> dpoint" where
  "drawn_point p = point.extend p \<lparr>dp_r = None, dp_opacity = None\<rparr>"

definition live_series :: "series_item list \<Rightarrow> graph_data \<Rightarrow> dseries list" where
  "live_series its g =
     map2 (\<lambda>it s. \<lparr>ds_stack = (case gs_stack s of Some r \<Rightarrow> map (\<lambda>a. drawn_point (heap g ! a)) r | None \<Rightarrow> []), ds_disabled = gs_disabled s,
                     ds_renderer = [], ds_style = \<lparr>st_color = si_color it, st_strokeWidth = None, st_opacity = None\<rparr>, ds_className = [],
                     ds_stroke = NoStroke, ds_path = None, ds_saved = None\<rparr>) its (gseries g)"

text \<open>The defaults of the line renderer, which has no gaps and no dots.\<close>

definition line_opts :: draw_opts where
  "line_opts = \<lparr>o_fill = False, o_stroke = True, o_strokeWidth = Fin 2, o_opacity = Fin 1, o_unstack = True, o_gapSize = NaN, o_dotSize = NaN\<rparr>"

text \<open>
  What the data goes through when such a graph is rendered: \<open>stackData\<close>, then the line renderer. The scales of \<open>env\<close> are the ones
  \<open>discoverRange\<close> set; the whole of \<open>render\<close>, with \<open>discoverRange\<close> and the update callbacks, is \<open>graph_render\<close> of \<open>GraphConfig\<close>.
\<close>

definition live_render :: "draw_env \<Rightarrow> series_item list \<Rightarrow> svg_path list js" where
  "live_render env its =
     js_bind (stackData (\<lambda>_. default_rows) (live_data its)) (\<lambda>g. Inr (snd (render_paths line_path no_path env line_opts (live_series its g))))"

lemma length_place [simp]: "length (place n rs) = length rs"
  by (induction n rs rule: place.induct) auto

lemma concat_place: "concat (place n rs) = [n ..< n + length (concat rs)]"
proof (induction n rs rule: place.induct)
  case (2 n r rs)
  have "[n ..< n + length r + length (concat rs)] = [n ..< n + length r] @ [n + length r ..< n + length r + length (concat rs)]"
    by (rule upt_add_eq_append) simp
  with 2 show ?case by (simp only: place.simps concat.simps length_append add.assoc)
qed simp

lemma place_rows: "map (map ((!) (pre @ concat rs))) (place (length pre) rs) = rs"
proof (induction rs arbitrary: pre)
  case (Cons r rs)
  have "map ((!) (pre @ r @ concat rs)) [length pre ..< length pre + length r] = r"
    by (rule nth_equalityI) (simp_all add: nth_append)
  with Cons [of "pre @ r"] show ?case by simp
qed simp

lemma live_gseries: "s \<in> set (gseries (live_data its)) \<Longrightarrow> \<not> gs_disabled s \<and> gs_scale s = None"
  by (auto simp: live_data_def)

lemma all_active: "map gs_disabled ss = map (\<lambda>_. False) ys \<Longrightarrow> active ss = ss"
proof -
  assume a: "map gs_disabled ss = map (\<lambda>_. False) ys"
  have "\<not> gs_disabled s" if "s \<in> set ss" for s
  proof -
    have "gs_disabled s \<in> set (map gs_disabled ss)" using that by simp
    then show ?thesis unfolding a by auto
  qed
  then show ?thesis by (simp add: active_def)
qed

lemma apply_no_scales: "\<forall>s \<in> set ss. gs_scale s = None \<Longrightarrow> apply_scales ss rs h = h"
  by (induction ss rs h rule: apply_scales.induct) auto

lemma live_scaled: "scaled_rows (live_data its) = (place 0 (map si_data its), heap (live_data its))"
proof -
  let ?g = "live_data its"
  have act: "active (gseries ?g) = gseries ?g" using live_gseries by (simp add: active_def)
  have data: "map gs_data (gseries ?g) = place 0 (map si_data its)" by (rule nth_equalityI) (simp_all add: live_data_def)
  have "sliced_rows ?g = map gs_data (gseries ?g)" unfolding sliced_rows_def act by (simp add: slice_def live_data_def)
  moreover have "\<not> preserving ?g" using live_gseries by (auto simp: preserving_def) (simp add: live_data_def)
  ultimately show ?thesis using live_gseries by (simp add: scaled_rows_def act data apply_no_scales)
qed

lemma live_stack:
  "\<exists>g rs. stackData layout (live_data its) = Inr g \<and> map gs_stack (gseries g) = map Some rs \<and> map gs_disabled (gseries g) = map (\<lambda>_. False) its
    \<and> map (map ((!) (heap g))) rs = map (map default_y0 \<circ> si_data) its"
proof -
  let ?g = "live_data its" and ?rs = "place 0 (map si_data its)"
  let ?h = "fold (upd_points default_y0) ?rs (heap ?g)" and ?ss = "assign_stacks (gseries ?g) ?rs"
  have "unstack ?g" "data_hooks ?g = []" "after_hooks ?g = []" by (simp_all add: live_data_def)
  then have run: "stackData layout ?g = Inr (?g\<lparr>heap := ?h, gseries := ?ss, stackedData := Some ?rs\<rparr>)"
    by (simp add: stackData_def run_data_hooks_def run_after_hooks_def default_rows_def live_scaled)
  have "map gs_disabled ?ss = map gs_disabled (gseries ?g)"
    using arg_cong [OF assign_stacks_frame [of "gseries ?g" ?rs], of "map gs_disabled"] by (simp add: comp_def)
  also have "\<dots> = map (\<lambda>_. False) its" by (rule nth_equalityI) (simp_all add: live_data_def)
  finally have dis: "map gs_disabled ?ss = map (\<lambda>_. False) its" .
  have "length ?rs = length (active (gseries ?g))" using live_gseries by (simp add: active_def) (simp add: live_data_def)
  from assign_stacks_active [OF this] have st: "map gs_stack ?ss = map Some ?rs" unfolding all_active [OF dis] .
  have "distinct (concat ?rs)" "\<forall>a \<in> set (concat ?rs). a < length (heap ?g)" by (simp_all only: concat_place) (simp_all add: live_data_def)
  then have "map (map ((!) ?h)) ?rs = map (map (\<lambda>a. default_y0 (heap ?g ! a))) ?rs"
    by (intro map_cong refl) (simp add: fold_upd_points del: set_concat, auto)
  also have "\<dots> = map (map default_y0) (map (map ((!) (heap ?g))) ?rs)" by (simp add: comp_def)
  also have "map (map ((!) (heap ?g))) ?rs = map si_data its" using place_rows [of "[]" "map si_data its"] by (simp add: live_data_def)
  finally have "map (map ((!) ?h)) ?rs = map (map default_y0 \<circ> si_data) its" by (simp add: comp_def)
  with run st dis show ?thesis by (intro exI [of _ "?g\<lparr>heap := ?h, gseries := ?ss, stackedData := Some ?rs\<rparr>"] exI [of _ ?rs]) simp
qed

section \<open>The nodes that are drawn\<close>

lemma drawn_point_simps [simp]: "px (drawn_point p) = px p" "py (drawn_point p) = py p" "py0 (drawn_point p) = py0 p"
  by (simp_all add: drawn_point_def point.defs)

lemma live_nodes:
  "\<exists>nodes. live_render env its = Inr nodes \<and> (\<forall>i < length its. nodes ! i =
     style_path env line_opts \<lparr>ds_stack = map (drawn_point \<circ> default_y0) (si_data (its ! i)), ds_disabled = False, ds_renderer = [],
         ds_style = \<lparr>st_color = si_color (its ! i), st_strokeWidth = None, st_opacity = None\<rparr>, ds_className = [],
         ds_stroke = NoStroke, ds_path = None, ds_saved = None\<rparr>
       \<lparr>sp_class = [''path''], sp_d = line_path env (map (drawn_point \<circ> default_y0) (si_data (its ! i))), sp_style = None\<rparr>)"
proof -
  obtain g rs where g: "stackData (\<lambda>_. default_rows) (live_data its) = Inr g" "map gs_stack (gseries g) = map Some rs"
    "map gs_disabled (gseries g) = map (\<lambda>_. False) its" "map (map ((!) (heap g))) rs = map (map default_y0 \<circ> si_data) its"
    using live_stack by blast
  have len: "length (gseries g) = length its" "length rs = length its"
    using arg_cong [OF g(3), of length] arg_cong [OF g(4), of length] by simp_all
  let ?s = "live_series its g"
  let ?d = "\<lambda>i. \<lparr>ds_stack = map (drawn_point \<circ> default_y0) (si_data (its ! i)), ds_disabled = False, ds_renderer = [],
         ds_style = \<lparr>st_color = si_color (its ! i), st_strokeWidth = None, st_opacity = None\<rparr>, ds_className = [],
         ds_stroke = NoStroke, ds_path = None, ds_saved = None\<rparr>"
  have at: "?s ! i = ?d i" if i: "i < length its" for i
  proof -
    have "gs_stack (gseries g ! i) = Some (rs ! i)" "gs_disabled (gseries g ! i) = False"
      using arg_cong [OF g(2), of "\<lambda>xs. xs ! i"] arg_cong [OF g(3), of "\<lambda>xs. xs ! i"] i len by simp_all
    moreover have "map (\<lambda>a. drawn_point (heap g ! a)) (rs ! i) = map drawn_point (map ((!) (heap g)) (rs ! i))" by simp
    moreover have "map ((!) (heap g)) (rs ! i) = map default_y0 (si_data (its ! i))"
      using arg_cong [OF g(4), of "\<lambda>xs. xs ! i"] i len by simp
    ultimately show ?thesis using i len by (simp add: live_series_def)
  qed
  have n: "length ?s = length its" using len by (simp add: live_series_def)
  have act: "filter (\<lambda>s. \<not> ds_disabled s) ?s = ?s" using at n by (auto simp: filter_id_conv in_set_conv_nth)
  obtain ss nodes where r: "render_paths line_path no_path env line_opts ?s = (ss, nodes)" by fastforce
  have "nodes ! i = style_path env line_opts (?s ! i) \<lparr>sp_class = [''path''], sp_d = line_path env (ds_stack (?s ! i)), sp_style = None\<rparr>"
    if "i < length its" for i
    using render_paths_nodes [of line_path no_path env line_opts ?s] that n by (simp add: r act nth_append Let_def)
  with at r g(1) show ?thesis by (intro exI [of _ nodes]) (simp add: live_render_def)
qed

lemma fixed_run_append: "fixed_run f (ds @ es) s = js_bind (fixed_run f ds s) (fixed_run f es)"
  by (induction f ds s rule: fixed_run.induct) (auto simp: js_bind_def split: sum.splits)

lemma last_last_n: "0 < m \<Longrightarrow> last (last_n m (xs @ [x])) = x"
  by (simp add: last_n_def)

lemma last_n_snoc_nonempty: "0 < m \<Longrightarrow> last_n m (xs @ [x]) \<noteq> []"
  by (simp add: last_n_def)

section \<open>Properties\<close>

text \<open>
  C3. What the page shows follows the samples: after construction from named rows and any number of samples, rendering the graph draws for
  every row, in its colour, the line through the points at the last \<open>maxDataPoints\<close> times of the grid, and the line ends at the
  value of the last sample for that row.
\<close>

theorem live_plot_follows_samples:
  assumes opts: "so_timeInterval opts = Some (Fin iv)" "iv \<noteq> 0" "so_maxDataPoints opts = Some m" "3 \<le> m" "so_timeBase opts = Some (Fin b)"
    and rows: "ds \<noteq> []" "\<forall>item \<in> set ds. ia_name item \<noteq> None \<and> ia_data item = None"
    and samples: "\<forall>d \<in> set (samples @ [d]). distinct (map fst d)"
  shows "\<exists>s nodes. js_bind (new_fixed f now (Some ds) pal opts) (fixed_run f (samples @ [d])) = Inr s \<and> live_render env (items s) = Inr nodes
    \<and> (\<forall>i < length (items s). \<exists>ys.
        let it = items s ! i; ts = last_n m (map (grid_at b (iv / 1000)) ([2 - m..-1] @ [-1..int (length samples) - 1])) in
        length ys = length ts \<and> last ys = Some (sample_y d (si_name it))
        \<and> sp_d (nodes ! i) = Some (e_line env (map2 (\<lambda>t y. map_option (\<lambda>v. (e_x env t, e_y env v)) y) ts ys))
        \<and> map_option ps_stroke (sp_style (nodes ! i)) = Some (si_color it))"
proof -
  let ?ts = "last_n m (map (grid_at b (iv / 1000)) ([2 - m..-1] @ [-1..int (length samples) - 1]))"
  obtain s0 where s0: "new_fixed f now (Some ds) pal opts = Inr s0" "maxDataPoints s0 = m"
    using new_fixed_grid [OF opts rows, of f now pal] by blast
  obtain s where s: "js_bind (new_fixed f now (Some ds) pal opts) (fixed_run f (samples @ [d])) = Inr s" "fixed_inv s ?ts"
    using fixed_run_from_scratch [OF opts rows samples, of f now pal] by auto
  obtain s1 xs where s1: "fixed_run f samples s0 = Inr s1" "fixed_inv s1 xs"
    using fixed_run_from_scratch [OF opts rows, of samples f now pal] samples s0(1) by auto
  have add: "fixed_addData f d None s1 = Inr s" using s(1) s0(1) s1(1) by (simp add: fixed_run_append js_bind_Inr_iff)
  obtain news x p l where u: "s = s1\<lparr>items := map (\<lambda>it. it\<lparr>si_data := last_n (maxDataPoints s1) (si_data it @ [pt x (sample_y d (si_name it))])\<rparr>)
      (items s1 @ news), sr_palette := p, sr_legend := l, currentSize := min (currentSize s1 + 1) (maxDataPoints s1), currentIndex := currentIndex s1 + 1\<rparr>"
    using fixed_addData_update [OF s1(2), of d f None] samples add by auto
  have m: "0 < maxDataPoints s1"
  proof -
    have "currentSize s \<le> maxDataPoints s" "currentSize s = int (length ?ts)" using s(2) by (simp_all add: fixed_inv_def)
    moreover have "0 < length ?ts" using opts(4) by (simp add: length_last_n)
    moreover have "maxDataPoints s = maxDataPoints s1" by (simp add: u)
    ultimately show ?thesis by linarith
  qed
  obtain nodes where n: "live_render env (items s) = Inr nodes" and at: "\<forall>i < length (items s). nodes ! i =
      style_path env line_opts \<lparr>ds_stack = map (drawn_point \<circ> default_y0) (si_data (items s ! i)), ds_disabled = False, ds_renderer = [],
         ds_style = \<lparr>st_color = si_color (items s ! i), st_strokeWidth = None, st_opacity = None\<rparr>, ds_className = [],
         ds_stroke = NoStroke, ds_path = None, ds_saved = None\<rparr>
       \<lparr>sp_class = [''path''], sp_d = line_path env (map (drawn_point \<circ> default_y0) (si_data (items s ! i))), sp_style = None\<rparr>"
    using live_nodes [of env "items s"] by blast
  have "length (map py (si_data (items s ! i))) = length ?ts \<and> last (map py (si_data (items s ! i))) = Some (sample_y d (si_name (items s ! i)))
      \<and> sp_d (nodes ! i) = Some (e_line env (map2 (\<lambda>t y. map_option (\<lambda>v. (e_x env t, e_y env v)) y) ?ts (map py (si_data (items s ! i)))))
      \<and> map_option ps_stroke (sp_style (nodes ! i)) = Some (si_color (items s ! i))" if i: "i < length (items s)" for i
  proof -
    let ?it = "items s ! i"
    have "map px (si_data ?it) = ?ts" using s(2) i by (auto simp: fixed_inv_def aligned_def)
    moreover have "map2 (\<lambda>t y. map_option (\<lambda>v. (e_x env t, e_y env v)) y) (map px q) (map py q) =
        map (\<lambda>p. map_option (\<lambda>v. (e_x env (px p), e_y env v)) (py p)) q" for q :: "point list"
      by (induction q) auto
    moreover have "line_vertices env (map (drawn_point \<circ> default_y0) q) = map (\<lambda>p. map_option (\<lambda>v. (e_x env (px p), e_y env v)) (py p)) q" for q
      by (simp add: line_vertices_def default_y0_def)
    moreover have "si_data ?it \<noteq> [] \<and> last (si_data ?it) = pt x (sample_y d (si_name ?it))"
    proof -
      define its where "its = items s1 @ news"
      have "items s = map (\<lambda>it. it\<lparr>si_data := last_n (maxDataPoints s1) (si_data it @ [pt x (sample_y d (si_name it))])\<rparr>) its"
        by (simp add: u its_def)
      then have "si_name ?it = si_name (its ! i)" "si_data ?it = last_n (maxDataPoints s1) (si_data (its ! i) @ [pt x (sample_y d (si_name (its ! i)))])"
        using i by simp_all
      then show ?thesis using m last_last_n [OF m] by (simp add: last_n_snoc_nonempty)
    qed
    ultimately show ?thesis using at i
      by (simp add: style_path_def line_path_def styleSeries_def line_opts_def last_map) (metis length_map)
  qed
  then show ?thesis using s(1) n unfolding Let_def by blast
qed

theorem live_plot_follows_samples_witness:
  "\<exists>s nodes. js_bind (new_fixed blend_text (Fin 0) (Some [plain_item ''Delta'']) wheel_palette web_options)
        (fixed_run blend_text [[(''Delta'', Fin 4)], [(''Delta'', Fin 9)]]) = Inr s \<and> live_render linear_env (items s) = Inr nodes"
  using live_plot_follows_samples [of web_options 2000 5 1000 "[plain_item ''Delta'']" "[[(''Delta'', Fin 4)]]" "[(''Delta'', Fin 9)]"
      blend_text "Fin 0" wheel_palette linear_env]
  by (simp add: web_options_def plain_item_def del: fixed_run.simps) blast

end
