(* ===== verification/Page.thy ===== *)
theory Page
  imports JsText
begin

text \<open>
  The document the widgets of \<open>Common.js\<close> work on, and the functions that change it: event listeners,
  buttons, multi-select checks, visibility of blocks, element text.

  An element is found by its identifier. Functions are objects with an identity: a closure that is built
  anew has a new identity, and \<open>removeEventListener\<close> only removes the very function that was added. The
  page therefore numbers the functions it creates (\<open>pg_fresh\<close>) and remembers what each one does
  (\<open>pg_code\<close>). Time is counted in milliseconds; \<open>pg_timers\<close> are the pending time-outs.
\<close>

section \<open>State\<close>

text \<open>
  The two kinds of closures: the one \<open>AttachButton\<close> makes for a button and a click function, and the one the
  multi-select functions make for a click function and an index.
\<close>

type_synonym fn = nat

datatype code =
    ButtonPressed string fn
  | CheckPressed fn nat

record element =
  el_listeners :: "(string \<times> fn) list"
  el_background :: string
  el_visibility :: string
  el_enable :: "bool option"
  el_selected :: "bool option"
  el_child_color :: "string option"
  el_fnMouseDown :: "fn option"
  el_has_textContent :: bool
  el_text :: string

record page =
  pg_elements :: "string \<rightharpoonup> element"
  pg_fresh :: fn
  pg_code :: "fn \<rightharpoonup> code"
  pg_now :: nat
  pg_timers :: "(nat \<times> string) list"

abbreviation getElementById :: "page \<Rightarrow> string \<Rightarrow> element option" where
  "getElementById p i \<equiv> pg_elements p i"

definition update_element :: "string \<Rightarrow> (element \<Rightarrow> element) \<Rightarrow> page \<Rightarrow> page" where
  "update_element i f p = p\<lparr>pg_elements := (pg_elements p)(i := map_option f (pg_elements p i))\<rparr>"

definition new_closure :: "code \<Rightarrow> page \<Rightarrow> fn \<times> page" where
  "new_closure c p = (pg_fresh p, p\<lparr>pg_fresh := Suc (pg_fresh p), pg_code := (pg_code p)(pg_fresh p \<mapsto> c)\<rparr>)"

section \<open>Events\<close>

text \<open>\<open>addEventListener\<close> ignores a listener that is already registered; listeners run in order.\<close>

definition add_listener :: "string \<times> fn \<Rightarrow> element \<Rightarrow> element" where
  "add_listener l e = e\<lparr>el_listeners := (if l \<in> set (el_listeners e) then el_listeners e else el_listeners e @ [l])\<rparr>"

definition remove_listener :: "string \<times> fn \<Rightarrow> element \<Rightarrow> element" where
  "remove_listener l e = e\<lparr>el_listeners := filter (\<lambda>k. k \<noteq> l) (el_listeners e)\<rparr>"

definition AddEvent :: "string \<Rightarrow> string \<Rightarrow> fn \<Rightarrow> page \<Rightarrow> page" where
  "AddEvent szElementID szEvent fnCallBack p = update_element szElementID (add_listener (szEvent, fnCallBack)) p"

text \<open>Removing \<open>null\<close> or \<open>undefined\<close> has no effect.\<close>

definition DetachEvent :: "string \<Rightarrow> string \<Rightarrow> fn option \<Rightarrow> page \<Rightarrow> page" where
  "DetachEvent szElementID szEvent fnCallBack p =
     (case fnCallBack of
        None \<Rightarrow> p
      | Some f \<Rightarrow> update_element szElementID (remove_listener (szEvent, f)) p)"

section \<open>Element text and colours\<close>

text \<open>
  Writing \<open>textContent\<close> or \<open>innerText\<close> replaces the element's text; the first is used when the browser has
  it and the element's text is not empty.
\<close>

definition SetElementText :: "string \<Rightarrow> string \<Rightarrow> page \<Rightarrow> page" where
  "SetElementText elem changeVal p =
     (case getElementById p elem of
        None \<Rightarrow> p
      | Some e \<Rightarrow>
          if el_has_textContent e \<and> el_text e \<noteq> []
          then update_element elem (\<lambda>e. e\<lparr>el_text := changeVal\<rparr>) p
          else update_element elem (\<lambda>e. e\<lparr>el_text := changeVal\<rparr>) p)"

definition set_background :: "string \<Rightarrow> string \<Rightarrow> page \<Rightarrow> page" where
  "set_background i c p = update_element i (\<lambda>e. e\<lparr>el_background := c\<rparr>) p"

definition UpdateCheckButtonColor :: "string \<Rightarrow> bool \<Rightarrow> page \<Rightarrow> page" where
  "UpdateCheckButtonColor ButtonId bChecked p =
     set_background ButtonId (if bChecked then ''#005500'' else ''#333333'') p"

section \<open>Buttons\<close>

definition OnButtonDown :: "string \<Rightarrow> page \<Rightarrow> page" where
  "OnButtonDown eButton p = set_background eButton ''#888888'' p"

definition OnButtonUp :: "string \<Rightarrow> page \<Rightarrow> page" where
  "OnButtonUp eButton p = set_background eButton ''#333333'' p"

definition AttachButton :: "string \<Rightarrow> fn \<Rightarrow> page \<Rightarrow> page" where
  "AttachButton ButtonID OnClickFunc p =
     (case getElementById p ButtonID of
        None \<Rightarrow> p
      | Some _ \<Rightarrow>
          let (f, p1) = new_closure (ButtonPressed ButtonID OnClickFunc) p;
              p2 = update_element ButtonID (\<lambda>e. e\<lparr>el_fnMouseDown := Some f\<rparr>) p1
          in AddEvent ButtonID ''mousedown'' f p2)"

definition DetachButton :: "string \<Rightarrow> page \<Rightarrow> page" where
  "DetachButton ButtonID p =
     (case getElementById p ButtonID of
        None \<Rightarrow> p
      | Some e \<Rightarrow>
          update_element ButtonID (\<lambda>e. e\<lparr>el_fnMouseDown := None\<rparr>)
            (DetachEvent ButtonID ''mousedown'' (el_fnMouseDown e) p))"

text \<open>
  What a listener does when it is called. The click functions themselves belong to the caller: \<open>click f\<close>
  (with the index of a check) changes the page and may throw, which ends the closure that called it.
\<close>

type_synonym click = "fn \<Rightarrow> nat option \<Rightarrow> page \<Rightarrow> page \<times> js_error option"

definition call_code :: "click \<Rightarrow> code \<Rightarrow> page \<Rightarrow> page" where
  "call_code click c p =
     (case c of
        ButtonPressed b f \<Rightarrow>
          (case click f None (OnButtonDown b p) of
             (p1, Some _) \<Rightarrow> p1
           | (p1, None) \<Rightarrow> p1\<lparr>pg_timers := pg_timers p1 @ [(pg_now p1 + 200, b)]\<rparr>)
      | CheckPressed f i \<Rightarrow> fst (click f (Some i) p))"

text \<open>A mouse press on an element calls its listeners in order.\<close>

definition press :: "click \<Rightarrow> string \<Rightarrow> page \<Rightarrow> page" where
  "press click i p =
     (case getElementById p i of
        None \<Rightarrow> p
      | Some e \<Rightarrow>
          fold (\<lambda>(ev, f) p. case pg_code p f of Some c \<Rightarrow> call_code click c p | None \<Rightarrow> p)
            (filter (\<lambda>(ev, f). ev = ''mousedown'') (el_listeners e)) p)"

text \<open>Time passes and the time-outs that are due fire, each releasing its button.\<close>

definition advance :: "nat \<Rightarrow> page \<Rightarrow> page" where
  "advance ms p =
     (let now = pg_now p + ms;
          due = filter (\<lambda>(t, _). t \<le> now) (pg_timers p)
      in fold (\<lambda>(_, b). OnButtonUp b) due
           (p\<lparr>pg_now := now, pg_timers := filter (\<lambda>(t, _). \<not> t \<le> now) (pg_timers p)\<rparr>))"

section \<open>Multi-select checks\<close>

definition check_id :: "string \<Rightarrow> nat \<Rightarrow> string" where
  "check_id ButtonIdBase i = ButtonIdBase @ nat_str i"

text \<open>The loop \<open>for (i = 1; i <= n; i++)\<close>; a missing element ends it with a type error, keeping what was done.\<close>

fun attach_checks :: "string \<Rightarrow> fn \<Rightarrow> nat list \<Rightarrow> page \<Rightarrow> page \<times> js_error option" where
  "attach_checks base fclick [] p = (p, None)"
| "attach_checks base fclick (i # is) p =
     (case getElementById p (check_id base i) of
        None \<Rightarrow> (p, Some TypeError)
      | Some _ \<Rightarrow>
          let p1 = update_element (check_id base i) (\<lambda>e. e\<lparr>el_enable := Some True, el_selected := Some False\<rparr>) p;
              (f, p2) = new_closure (CheckPressed fclick i) p1
          in attach_checks base fclick is (AddEvent (check_id base i) ''mousedown'' f p2))"

definition AttachMultiSelectCheck :: "string \<Rightarrow> nat \<Rightarrow> fn \<Rightarrow> page \<Rightarrow> page \<times> js_error option" where
  "AttachMultiSelectCheck ButtonIdBase nNumberOfCheck OnClickFunc p =
     attach_checks ButtonIdBase OnClickFunc [1 ..< Suc nNumberOfCheck] p"

definition DettachMultiSelectCheck :: "string \<Rightarrow> nat \<Rightarrow> fn \<Rightarrow> page \<Rightarrow> page" where
  "DettachMultiSelectCheck ButtonIdBase nNumberOfCheck OnClickFunc p =
     fold (\<lambda>i p. let (f, p1) = new_closure (CheckPressed OnClickFunc i) p
                 in DetachEvent (check_id ButtonIdBase i) ''mousedown'' (Some f) p1)
       [1 ..< Suc nNumberOfCheck] p"

definition UpdateMultiSelectCheckButton :: "element \<Rightarrow> element" where
  "UpdateMultiSelectCheckButton e =
     (if el_enable e = Some True
      then e\<lparr>el_background := (if el_selected e = Some True then ''#005500'' else ''#333333''),
             el_child_color := map_option (\<lambda>_. ''#dddddd'') (el_child_color e)\<rparr>
      else e\<lparr>el_background := ''#111111'', el_child_color := map_option (\<lambda>_. ''#555555'') (el_child_color e)\<rparr>)"

definition for_checks :: "(nat \<Rightarrow> element \<Rightarrow> element) \<Rightarrow> string \<Rightarrow> nat \<Rightarrow> page \<Rightarrow> page" where
  "for_checks f base n p = fold (\<lambda>i. update_element (check_id base i) (f i)) [1 ..< Suc n] p"

definition UpdateMultiSelectCheck :: "string \<Rightarrow> nat \<Rightarrow> nat \<Rightarrow> page \<Rightarrow> page" where
  "UpdateMultiSelectCheck ButtonIdBase nNumberOfCheck nSelectedId p =
     for_checks (\<lambda>i e. UpdateMultiSelectCheckButton (e\<lparr>el_selected := Some (i = nSelectedId)\<rparr>))
       ButtonIdBase nNumberOfCheck p"

definition EnableMultiSelectCheck :: "string \<Rightarrow> nat \<Rightarrow> bool \<Rightarrow> page \<Rightarrow> page" where
  "EnableMultiSelectCheck ButtonIdBase nNumberOfCheck bEnabled p =
     for_checks (\<lambda>i e. UpdateMultiSelectCheckButton (e\<lparr>el_enable := Some bEnabled\<rparr>))
       ButtonIdBase nNumberOfCheck p"

text \<open>The flag of the first check that exists; \<open>None\<close> is \<open>undefined\<close>.\<close>

fun first_enable :: "string \<Rightarrow> nat list \<Rightarrow> page \<Rightarrow> bool option" where
  "first_enable base [] p = Some False"
| "first_enable base (i # is) p =
     (case getElementById p (check_id base i) of None \<Rightarrow> first_enable base is p | Some e \<Rightarrow> el_enable e)"

definition IsMultiSelectCheckEnabled :: "string \<Rightarrow> nat \<Rightarrow> page \<Rightarrow> bool option" where
  "IsMultiSelectCheckEnabled ButtonIdBase nNumberOfCheck p = first_enable ButtonIdBase [1 ..< Suc nNumberOfCheck] p"

section \<open>Visibility\<close>

definition set_visibility :: "string \<Rightarrow> string \<Rightarrow> page \<Rightarrow> page" where
  "set_visibility v i p = update_element i (\<lambda>e. e\<lparr>el_visibility := v\<rparr>) p"

definition ShowDiv :: "string \<Rightarrow> page \<Rightarrow> page" where
  "ShowDiv DivName p = set_visibility ''visible'' DivName p"

definition HideDiv :: "string \<Rightarrow> page \<Rightarrow> page" where
  "HideDiv DivName p = set_visibility ''hidden'' DivName p"

definition ShowDivs :: "string \<Rightarrow> int \<Rightarrow> int \<Rightarrow> page \<Rightarrow> page" where
  "ShowDivs DivPrefix FirstId LastId p =
     fold (\<lambda>k. set_visibility ''visible'' (DivPrefix @ int_str k)) [FirstId..LastId] p"

definition HideDivs :: "string \<Rightarrow> int \<Rightarrow> int \<Rightarrow> page \<Rightarrow> page" where
  "HideDivs DivPrefix FirstId LastId p =
     fold (\<lambda>k. set_visibility ''hidden'' (DivPrefix @ int_str k)) [FirstId..LastId] p"

section \<open>Loops over numbered elements\<close>

text \<open>
  The widgets number their elements: the identifier is a prefix and an index. A loop over distinct indices
  updates each of its elements once and no other, because the identifiers differ.
\<close>

locale numbered_ids =
  fixes key :: "'i \<Rightarrow> string"
  assumes key_inj: "key i = key j \<Longrightarrow> i = j"
begin

lemma loop_elements:
  assumes "distinct is"
  shows "pg_elements (fold (\<lambda>i. update_element (key i) (f i)) is p) x =
    (if \<exists>i \<in> set is. x = key i then map_option (f (THE i. x = key i)) (pg_elements p x) else pg_elements p x)"
  using assms
proof (induction "is" arbitrary: p)
  case Nil
  then show ?case by simp
next
  case (Cons i "is")
  have the: "(THE j. key i = key j) = i" by (rule the_equality) (auto dest: key_inj)
  show ?case
  proof (cases "x = key i")
    case True
    have "\<not> (\<exists>j \<in> set is. x = key j)" using Cons.prems True key_inj by auto
    with Cons True the show ?thesis by (auto simp: update_element_def)
  next
    case False
    with Cons show ?thesis by (auto simp: update_element_def)
  qed
qed

lemma loop_hit:
  assumes "distinct is" and "i \<in> set is"
  shows "pg_elements (fold (\<lambda>i. update_element (key i) (f i)) is p) (key i) = map_option (f i) (pg_elements p (key i))"
proof -
  have "(THE j. key i = key j) = i" by (rule the_equality) (auto dest: key_inj)
  with assms show ?thesis by (auto simp: loop_elements)
qed

lemma loop_miss:
  assumes "distinct is" and "\<forall>i \<in> set is. x \<noteq> key i"
  shows "pg_elements (fold (\<lambda>i. update_element (key i) (f i)) is p) x = pg_elements p x"
  using assms by (auto simp: loop_elements)

end

interpretation check_ids: numbered_ids "check_id base" for base
  by unfold_locales (simp add: check_id_def)

lemma nat_str_no_minus: "CHR ''-'' \<notin> set (nat_str n)"
proof -
  have "list_all is_digit (nat_str n)" unfolding nat_str_def by (rule radix_str_digits) simp_all
  moreover have "\<not> is_digit (CHR ''-'')" by (simp add: is_digit_def)
  ultimately show ?thesis by (auto simp: list_all_iff)
qed

lemma int_str_inject: "int_str i = int_str j \<Longrightarrow> i = j"
  by (auto simp: int_str_def nat_str_no_minus split: if_splits)
     (metis list.set_intros(1) nat_str_no_minus)+

interpretation div_ids: numbered_ids "\<lambda>k. prefix @ int_str k" for prefix
  by unfold_locales (auto dest: int_str_inject)

section \<open>Closures are new\<close>

text \<open>Every function the page knows was numbered before: the next closure differs from all of them.\<close>

definition page_ok :: "page \<Rightarrow> bool" where
  "page_ok p = (\<forall>i e. pg_elements p i = Some e \<longrightarrow> (\<forall>(ev, f) \<in> set (el_listeners e). f < pg_fresh p))"

lemma page_ok_listener: "page_ok p \<Longrightarrow> pg_elements p i = Some e \<Longrightarrow> (ev, f) \<in> set (el_listeners e) \<Longrightarrow> f < pg_fresh p"
  by (fastforce simp: page_ok_def)

lemma filter_fresh:
  assumes "page_ok p" and "pg_elements p i = Some e" and "pg_fresh p \<le> f"
  shows "filter (\<lambda>k. k \<noteq> (ev, f)) (el_listeners e) = el_listeners e"
  using assms page_ok_listener by (fastforce intro!: filter_True)

lemma fresh_detach:
  assumes "page_ok p" and "new_closure c p = (f, p1)"
  shows "pg_elements (DetachEvent i ev (Some f) p1) = pg_elements p \<and> page_ok (DetachEvent i ev (Some f) p1)"
proof -
  have p1: "p1 = p\<lparr>pg_fresh := Suc (pg_fresh p), pg_code := (pg_code p)(pg_fresh p \<mapsto> c)\<rparr>" "f = pg_fresh p"
    using assms(2) by (auto simp: new_closure_def)
  have "map_option (remove_listener (ev, f)) (pg_elements p i) = pg_elements p i"
    using filter_fresh [OF assms(1), of i _ f ev] p1 by (cases "pg_elements p i") (auto simp: remove_listener_def)
  then have "pg_elements (DetachEvent i ev (Some f) p1) = pg_elements p"
    by (simp add: DetachEvent_def update_element_def p1)
  moreover have "pg_fresh (DetachEvent i ev (Some f) p1) = Suc (pg_fresh p)"
    by (simp add: DetachEvent_def update_element_def p1)
  ultimately show ?thesis using assms(1) by (fastforce simp: page_ok_def)
qed

lemma dettach_loop:
  assumes "page_ok p"
  shows "pg_elements (fold (\<lambda>i p. let (f, p1) = new_closure (CheckPressed g i) p
           in DetachEvent (check_id base i) ''mousedown'' (Some f) p1) is p) = pg_elements p"
  using assms
proof (induction "is" arbitrary: p)
  case Nil
  then show ?case by simp
next
  case (Cons i "is")
  obtain f p1 where n: "new_closure (CheckPressed g i) p = (f, p1)" by fastforce
  note d = fresh_detach [OF Cons.prems n, of "check_id base i" "''mousedown''"]
  from n d Cons.IH [of "DetachEvent (check_id base i) ''mousedown'' (Some f) p1"] show ?case by simp
qed

lemma AttachButton_effect:
  assumes "pg_elements p b = Some e" and "page_ok p"
  shows "AttachButton b f p = p\<lparr>
      pg_elements := (pg_elements p)(b \<mapsto> e\<lparr>el_fnMouseDown := Some (pg_fresh p),
        el_listeners := el_listeners e @ [(''mousedown'', pg_fresh p)]\<rparr>),
      pg_fresh := Suc (pg_fresh p), pg_code := (pg_code p)(pg_fresh p \<mapsto> ButtonPressed b f)\<rparr>"
proof -
  have "(''mousedown'', pg_fresh p) \<notin> set (el_listeners e)"
    using page_ok_listener [OF assms(2,1), of "''mousedown''" "pg_fresh p"] by auto
  with assms show ?thesis
    by (simp add: AttachButton_def new_closure_def AddEvent_def update_element_def add_listener_def)
qed

lemma AttachButton_ok:
  assumes "pg_elements p b = Some e" and "page_ok p"
  shows "page_ok (AttachButton b f p)"
  using assms by (fastforce simp: AttachButton_effect page_ok_def less_Suc_eq split: if_splits)

lemma DetachButton_effect:
  assumes "pg_elements p b = Some e"
  shows "DetachButton b p = p\<lparr>pg_elements := (pg_elements p)(b \<mapsto> e\<lparr>el_fnMouseDown := None,
      el_listeners := (case el_fnMouseDown e of None \<Rightarrow> el_listeners e
                       | Some f \<Rightarrow> filter (\<lambda>k. k \<noteq> (''mousedown'', f)) (el_listeners e))\<rparr>)\<rparr>"
  using assms
  by (auto simp: DetachButton_def DetachEvent_def update_element_def remove_listener_def
      intro!: page.equality element.equality split: option.splits)

lemma DetachButton_idle:
  "pg_elements p b = Some e \<Longrightarrow> el_fnMouseDown e = None \<Longrightarrow> (DetachButton b ^^ k) p = p"
  by (induction k) (auto simp: DetachButton_effect fun_upd_idem)

section \<open>Properties\<close>

text \<open>
  C29. \<open>UpdateMultiSelectCheck\<close> makes a group of checks behave as radio buttons: of the numbered checks that
  exist, exactly the selected one is marked, each has the colours of its state, and every other element of
  the page is unchanged.
\<close>

theorem multi_select_radio:
  assumes "pg_elements p (check_id base i) = Some e" and "1 \<le> i" and "i \<le> n"
  shows "(\<exists>e'. pg_elements (UpdateMultiSelectCheck base n k p) (check_id base i) = Some e'
      \<and> el_selected e' = Some (i = k) \<and> el_enable e' = el_enable e
      \<and> el_background e' = (if el_enable e \<noteq> Some True then ''#111111'' else if i = k then ''#005500'' else ''#333333'')
      \<and> el_listeners e' = el_listeners e)
    \<and> (\<forall>x. (\<forall>j \<in> {1..n}. x \<noteq> check_id base j) \<longrightarrow>
         pg_elements (UpdateMultiSelectCheck base n k p) x = pg_elements p x)"
proof
  have "i \<in> set [1 ..< Suc n]" using assms by auto
  from check_ids.loop_hit [OF distinct_upt this] assms(1)
  show "\<exists>e'. pg_elements (UpdateMultiSelectCheck base n k p) (check_id base i) = Some e'
      \<and> el_selected e' = Some (i = k) \<and> el_enable e' = el_enable e
      \<and> el_background e' = (if el_enable e \<noteq> Some True then ''#111111'' else if i = k then ''#005500'' else ''#333333'')
      \<and> el_listeners e' = el_listeners e"
    by (simp add: UpdateMultiSelectCheck_def for_checks_def UpdateMultiSelectCheckButton_def)
  show "\<forall>x. (\<forall>j \<in> {1..n}. x \<noteq> check_id base j) \<longrightarrow>
         pg_elements (UpdateMultiSelectCheck base n k p) x = pg_elements p x"
    unfolding UpdateMultiSelectCheck_def for_checks_def
    by (intro allI impI check_ids.loop_miss) auto
qed

definition blank_element :: element where
  "blank_element = \<lparr>el_listeners = [], el_background = ''#333333'', el_visibility = ''visible'', el_enable = Some True,
     el_selected = Some False, el_child_color = None, el_fnMouseDown = None, el_has_textContent = True, el_text = ''x''\<rparr>"

definition two_checks :: page where
  "two_checks = \<lparr>pg_elements = [check_id ''Rate'' 1 \<mapsto> blank_element, check_id ''Rate'' 2 \<mapsto> blank_element],
     pg_fresh = 7, pg_code = Map.empty, pg_now = 0, pg_timers = []\<rparr>"

theorem multi_select_radio_witness:
  "\<exists>e'. pg_elements (UpdateMultiSelectCheck ''Rate'' 2 2 two_checks) (check_id ''Rate'' 2) = Some e'
     \<and> el_selected e' = Some True \<and> el_background e' = ''#005500''"
  using multi_select_radio [of two_checks "''Rate''" 2 blank_element 2 2]
  by (auto simp: two_checks_def blank_element_def)

text \<open>
  \<open>DettachMultiSelectCheck\<close> detaches nothing: it asks for the removal of closures it has just built, which
  no element has as a listener, so the page's elements are exactly what they were.
\<close>

theorem dettach_removes_nothing:
  assumes "page_ok p"
  shows "pg_elements (DettachMultiSelectCheck base n OnClickFunc p) = pg_elements p"
  unfolding DettachMultiSelectCheck_def by (rule dettach_loop [OF assms])

theorem dettach_removes_nothing_witness:
  "pg_elements (DettachMultiSelectCheck ''Rate'' 2 5 (fst (AttachMultiSelectCheck ''Rate'' 2 5 two_checks)))
     (check_id ''Rate'' 1) = Some (blank_element\<lparr>el_listeners := [(''mousedown'', 7)]\<rparr>)"
proof -
  let ?p = "fst (AttachMultiSelectCheck ''Rate'' 2 5 two_checks)"
  have upt: "[1 ..< Suc 2] = [1, 2]" by (simp add: upt_rec numeral_2_eq_2)
  have ne: "check_id ''Rate'' 1 \<noteq> check_id ''Rate'' 2" by (auto dest: check_ids.key_inj)
  have els: "pg_elements ?p = [check_id ''Rate'' 1 \<mapsto> blank_element\<lparr>el_listeners := [(''mousedown'', 7)]\<rparr>,
      check_id ''Rate'' 2 \<mapsto> blank_element\<lparr>el_listeners := [(''mousedown'', 8)]\<rparr>]" and fr: "pg_fresh ?p = 9"
    using ne unfolding AttachMultiSelectCheck_def upt two_checks_def
    by (simp_all add: new_closure_def AddEvent_def update_element_def add_listener_def blank_element_def fun_upd_twist)
  have "page_ok ?p" unfolding page_ok_def els fr by (auto split: if_splits)
  from dettach_removes_nothing [OF this, of "''Rate''" 2 5] els ne show ?thesis by simp
qed

text \<open>
  \<open>AttachButton\<close> followed by \<open>DetachButton\<close> leaves the listeners as they were; attaching twice loses the
  first closure, whose listener then survives any number of calls of \<open>DetachButton\<close>.
\<close>

theorem button_attach_detach:
  assumes "pg_elements p b = Some e" and "page_ok p"
  shows "(\<exists>e'. pg_elements (DetachButton b (AttachButton b f p)) b = Some e' \<and> el_listeners e' = el_listeners e)
    \<and> (\<exists>e'. pg_elements ((DetachButton b ^^ Suc k) (AttachButton b g (AttachButton b f p))) b = Some e'
         \<and> el_listeners e' = el_listeners e @ [(''mousedown'', pg_fresh p)])"
proof -
  let ?n = "pg_fresh p"
  let ?e1 = "e\<lparr>el_fnMouseDown := Some ?n, el_listeners := el_listeners e @ [(''mousedown'', ?n)]\<rparr>"
  let ?p1 = "AttachButton b f p"
  note p1 = AttachButton_effect [OF assms, of f]
  have e1: "pg_elements ?p1 b = Some ?e1" and fr: "pg_fresh ?p1 = Suc ?n" by (simp_all add: p1)
  have ok1: "page_ok ?p1" by (rule AttachButton_ok [OF assms])
  note keep = filter_fresh [OF assms(2,1)]
  have single: "\<exists>e'. pg_elements (DetachButton b ?p1) b = Some e' \<and> el_listeners e' = el_listeners e"
    using keep [of ?n "''mousedown''"] by (simp add: DetachButton_effect [OF e1])
  let ?p2 = "AttachButton b g ?p1"
  let ?e2 = "?e1\<lparr>el_fnMouseDown := Some (Suc ?n), el_listeners := el_listeners ?e1 @ [(''mousedown'', Suc ?n)]\<rparr>"
  have e2: "pg_elements ?p2 b = Some ?e2" by (simp add: AttachButton_effect [OF e1 ok1] fr)
  have e3: "pg_elements (DetachButton b ?p2) b =
      Some (?e2\<lparr>el_fnMouseDown := None, el_listeners := el_listeners e @ [(''mousedown'', ?n)]\<rparr>)"
    using keep [of "Suc ?n" "''mousedown''"] by (simp add: DetachButton_effect [OF e2])
  have "(DetachButton b ^^ Suc k) ?p2 = (DetachButton b ^^ k) (DetachButton b ?p2)"
    by (simp add: funpow_swap1)
  also have "\<dots> = DetachButton b ?p2" by (rule DetachButton_idle [OF e3]) simp
  finally show ?thesis using single e3 by simp
qed

theorem button_attach_detach_witness:
  "\<exists>e'. pg_elements ((DetachButton (check_id ''Rate'' 1) ^^ 3)
        (AttachButton (check_id ''Rate'' 1) 2 (AttachButton (check_id ''Rate'' 1) 2 two_checks))) (check_id ''Rate'' 1) = Some e'
     \<and> el_listeners e' = [(''mousedown'', 7)]"
proof -
  have e: "pg_elements two_checks (check_id ''Rate'' 1) = Some blank_element" and ok: "page_ok two_checks"
    by (auto simp: two_checks_def page_ok_def blank_element_def split: if_splits)
  show ?thesis
    using conjunct2 [OF button_attach_detach [OF e ok, of 2 2 2]]
    by (simp add: blank_element_def two_checks_def eval_nat_numeral)
qed

text \<open>
  Pressing a button that \<open>AttachButton\<close> wired up: if the click function returns, the button has its
  normal colour again once 200 ms have passed and nothing else happened; if it throws, no release is
  scheduled and the button keeps the colour the click function left.
\<close>

theorem button_press_release:
  assumes "pg_elements p b = Some e" and "el_listeners e = [(''mousedown'', n)]"
    and "pg_code p n = Some (ButtonPressed b f)" and "click f None (OnButtonDown b p) = (q, r)"
    and "pg_elements q b = Some e'" and "pg_timers q = []"
  shows "(r = None \<longrightarrow> (\<exists>e''. pg_elements (advance 200 (press click b p)) b = Some e'' \<and> el_background e'' = ''#333333''
            \<and> pg_timers (advance 200 (press click b p)) = []))
    \<and> (r \<noteq> None \<longrightarrow> press click b p = q \<and> pg_elements (advance ms (press click b p)) b = Some e')"
proof -
  have press: "press click b p = (if r = None then q\<lparr>pg_timers := [(pg_now q + 200, b)]\<rparr> else q)"
    using assms by (auto simp: press_def call_code_def split: option.splits)
  show ?thesis
    using assms(5,6) by (auto simp: press advance_def OnButtonUp_def set_background_def update_element_def)
qed

theorem button_press_release_witness:
  "\<exists>e''. pg_elements (advance 200 (press (\<lambda>_ _ p. (p, None)) (check_id ''Rate'' 1)
       (AttachButton (check_id ''Rate'' 1) 2 two_checks))) (check_id ''Rate'' 1) = Some e''
     \<and> el_background e'' = ''#333333''"
proof -
  let ?b = "check_id ''Rate'' 1"
  let ?p = "AttachButton ?b 2 two_checks"
  have e: "pg_elements two_checks ?b = Some blank_element" and ok: "page_ok two_checks"
    by (auto simp: two_checks_def page_ok_def blank_element_def split: if_splits)
  note p = AttachButton_effect [OF e ok, of 2]
  have "pg_elements ?p ?b = Some (blank_element\<lparr>el_fnMouseDown := Some 7, el_listeners := [(''mousedown'', 7)]\<rparr>)"
    "pg_code ?p 7 = Some (ButtonPressed ?b 2)" "pg_timers ?p = []"
    unfolding p by (simp_all add: two_checks_def blank_element_def)
  note q = this
  have l: "el_listeners (blank_element\<lparr>el_fnMouseDown := Some 7, el_listeners := [(''mousedown'', 7)]\<rparr>) = [(''mousedown'', 7)]"
    by simp
  from button_press_release [OF q(1) l q(2), of "\<lambda>_ _ p. (p, None)", OF refl] q(1,3)
  show ?thesis by (auto simp: OnButtonDown_def set_background_def update_element_def)
qed

text \<open>
  \<open>ShowDivs\<close> and \<open>HideDivs\<close> set the visibility of exactly the blocks numbered from the first to the last
  index (of those that exist) and leave every other element alone.
\<close>

theorem divs_visibility:
  "(\<forall>k \<in> {a..b}. pg_elements (HideDivs pre a b p) (pre @ int_str k) =
       map_option (\<lambda>e. e\<lparr>el_visibility := ''hidden''\<rparr>) (pg_elements p (pre @ int_str k))
     \<and> pg_elements (ShowDivs pre a b p) (pre @ int_str k) =
       map_option (\<lambda>e. e\<lparr>el_visibility := ''visible''\<rparr>) (pg_elements p (pre @ int_str k)))
   \<and> (\<forall>x. (\<forall>k \<in> {a..b}. x \<noteq> pre @ int_str k) \<longrightarrow>
        pg_elements (HideDivs pre a b p) x = pg_elements p x
      \<and> pg_elements (ShowDivs pre a b p) x = pg_elements p x)"
  by (auto simp: HideDivs_def ShowDivs_def set_visibility_def [abs_def] div_ids.loop_hit div_ids.loop_miss)

theorem divs_visibility_witness:
  "pg_elements (HideDivs ''Rate'' 1 2 two_checks) (''Rate'' @ int_str 2) =
     Some (blank_element\<lparr>el_visibility := ''hidden''\<rparr>)"
  using bspec [OF conjunct1 [OF divs_visibility [where a = 1 and b = 2 and p = two_checks and pre = "''Rate''"]], of 2]
  by (simp add: two_checks_def check_id_def int_str_def)

text \<open>
  After \<open>EnableMultiSelectCheck\<close> the group reports the flag it was given, if any of its checks exists,
  and \<open>false\<close> otherwise.
\<close>

theorem enable_reported:
  "IsMultiSelectCheckEnabled base n (EnableMultiSelectCheck base n b p) =
     (if \<exists>i \<in> {1..n}. pg_elements p (check_id base i) \<noteq> None then Some b else Some False)"
proof -
  let ?q = "EnableMultiSelectCheck base n b p"
  have hit: "pg_elements ?q (check_id base i) = map_option (\<lambda>e. UpdateMultiSelectCheckButton (e\<lparr>el_enable := Some b\<rparr>))
      (pg_elements p (check_id base i))" if "i \<in> {1..n}" for i
    unfolding EnableMultiSelectCheck_def for_checks_def using that by (intro check_ids.loop_hit) auto
  have "first_enable base is ?q =
      (if \<exists>i \<in> set is. pg_elements p (check_id base i) \<noteq> None then Some b else Some False)"
    if "set is \<subseteq> {1..n}" for "is"
    using that
    by (induction "is") (auto simp: hit UpdateMultiSelectCheckButton_def split: option.splits)
  from this [of "[1 ..< Suc n]"] show ?thesis
    by (simp only: IsMultiSelectCheckEnabled_def set_upt) (simp add: atLeastLessThanSuc_atLeastAtMost)
qed

theorem enable_reported_witness:
  "IsMultiSelectCheckEnabled ''Rate'' 2 (EnableMultiSelectCheck ''Rate'' 2 True two_checks) = Some True"
  unfolding enable_reported by (auto simp: two_checks_def intro!: bexI [of _ 1])

end
