(* ===== verification/Cookies.thy ===== *)
theory Cookies
  imports JsText
begin

text \<open>
  The cookie functions of \<open>Common.js\<close> over the browser's cookie store, with the language's
  \<open>encodeURIComponent\<close> and \<open>decodeURIComponent\<close>. Texts are lists of Unicode code points (a lone half of a
  surrogate pair is a code point that no encoding exists for); \<open>u\<close> turns a literal into such a text.
\<close>

type_synonym utext = "nat list"

definition u :: "string \<Rightarrow> utext" where
  "u s = map of_char s"

section \<open>Percent encoding\<close>

text \<open>Letters, digits and \<open>- _ . ! ~ * ' ( )\<close> stay; every other code point becomes the \<open>%XX\<close> of its UTF-8 bytes.\<close>

definition unreserved :: "nat \<Rightarrow> bool" where
  "unreserved c = (48 \<le> c \<and> c \<le> 57 \<or> 65 \<le> c \<and> c \<le> 90 \<or> 97 \<le> c \<and> c \<le> 122
     \<or> c \<in> set [45, 95, 46, 33, 126, 42, 39, 40, 41])"

definition scalar :: "nat \<Rightarrow> bool" where
  "scalar c = (c < 0xD800 \<or> 0xDFFF < c \<and> c < 0x110000)"

definition utf8 :: "nat \<Rightarrow> nat list" where
  "utf8 c =
     (if c < 0x80 then [c]
      else if c < 0x800 then [0xC0 + c div 0x40, 0x80 + c mod 0x40]
      else if c < 0x10000 then [0xE0 + c div 0x1000, 0x80 + c div 0x40 mod 0x40, 0x80 + c mod 0x40]
      else [0xF0 + c div 0x40000, 0x80 + c div 0x1000 mod 0x40, 0x80 + c div 0x40 mod 0x40, 0x80 + c mod 0x40])"

definition hex_upper :: "nat \<Rightarrow> nat" where
  "hex_upper d = (if d < 10 then 48 + d else 55 + d)"

definition percent :: "nat \<Rightarrow> utext" where
  "percent b = [37, hex_upper (b div 16), hex_upper (b mod 16)]"

fun encodeURIComponent :: "utext \<Rightarrow> utext js" where
  "encodeURIComponent [] = Inr []"
| "encodeURIComponent (c # cs) =
     (if unreserved c then js_bind (encodeURIComponent cs) (\<lambda>r. Inr (c # r))
      else if scalar c then js_bind (encodeURIComponent cs) (\<lambda>r. Inr (concat (map percent (utf8 c)) @ r))
      else Inl URIError)"

definition hex_digit :: "nat \<Rightarrow> nat option" where
  "hex_digit c =
     (if 48 \<le> c \<and> c \<le> 57 then Some (c - 48)
      else if 65 \<le> c \<and> c \<le> 70 then Some (c - 55)
      else if 97 \<le> c \<and> c \<le> 102 then Some (c - 87) else None)"

text \<open>One \<open>%XX\<close> at the head of the text: the byte and the rest.\<close>

fun octet :: "utext \<Rightarrow> (nat \<times> utext) option" where
  "octet (p # a # b # cs) =
     (if p = 37 then (case (hex_digit a, hex_digit b) of
        (Some x, Some y) \<Rightarrow> Some (16 * x + y, cs) | _ \<Rightarrow> None) else None)"
| "octet _ = None"

text \<open>Continuation bytes, added to the bits read so far.\<close>

fun continuation :: "nat \<Rightarrow> nat \<Rightarrow> utext \<Rightarrow> (nat \<times> utext) option" where
  "continuation 0 acc cs = Some (acc, cs)"
| "continuation (Suc k) acc cs =
     (case octet cs of
        Some (b, cs') \<Rightarrow> (if 0x80 \<le> b \<and> b < 0xC0 then continuation k (acc * 0x40 + (b - 0x80)) cs' else None)
      | None \<Rightarrow> None)"

text \<open>A code point from its bytes: overlong forms, surrogates and values past the last plane are refused.\<close>

definition decode_point :: "utext \<Rightarrow> (nat \<times> utext) option" where
  "decode_point cs =
     (case octet cs of
        None \<Rightarrow> None
      | Some (b, r) \<Rightarrow>
          if b < 0x80 then Some (b, r)
          else
            let ok = (\<lambda>lo res. case res of Some (c, r') \<Rightarrow> (if lo \<le> c \<and> scalar c then Some (c, r') else None) | None \<Rightarrow> None)
            in if 0xC0 \<le> b \<and> b < 0xE0 then ok 0x80 (continuation 1 (b - 0xC0) r)
               else if 0xE0 \<le> b \<and> b < 0xF0 then ok 0x800 (continuation 2 (b - 0xE0) r)
               else if 0xF0 \<le> b \<and> b < 0xF8 then ok 0x10000 (continuation 3 (b - 0xF0) r)
               else None)"

lemma octet_shorter: "octet cs = Some (b, r) \<Longrightarrow> length r < length cs"
  by (cases cs rule: octet.cases) (auto split: if_splits option.splits)

lemma continuation_length: "continuation k acc cs = Some (c, r) \<Longrightarrow> length r \<le> length cs"
proof (induction k arbitrary: acc cs)
  case 0
  then show ?case by simp
next
  case (Suc k)
  then obtain b cs' acc' where "octet cs = Some (b, cs')" "continuation k acc' cs' = Some (c, r)"
    by (auto split: option.splits if_splits)
  with Suc.IH octet_shorter show ?case by fastforce
qed

lemma decode_point_shorter: "decode_point cs = Some (c, r) \<Longrightarrow> length r < length cs"
  by (auto simp: decode_point_def Let_def split: option.splits if_splits
      dest!: octet_shorter continuation_length)

function decodeURIComponent :: "utext \<Rightarrow> utext js" where
  "decodeURIComponent [] = Inr []"
| "decodeURIComponent (c # cs) =
     (if c \<noteq> 37 then js_bind (decodeURIComponent cs) (\<lambda>r. Inr (c # r))
      else (case decode_point (c # cs) of
              None \<Rightarrow> Inl URIError
            | Some (d, cs') \<Rightarrow> js_bind (decodeURIComponent cs') (\<lambda>r. Inr (d # r))))"
  by pat_completeness auto
termination
  by (relation "measure length") (auto dest: decode_point_shorter)

section \<open>The cookie store\<close>

text \<open>
  The cookies of the page, oldest first, each with the time it expires (\<open>None\<close>: with the session).
  Reading \<open>document.cookie\<close> gives the live ones as \<open>name=value\<close>, separated by a semicolon and a space.
  Assigning to it sets one cookie: the pair before the first semicolon, split at the first equals sign and
  with the blanks around both parts dropped, and the attribute \<open>expires\<close>, whose date text is read by
  \<open>parse_date\<close> (the inverse of \<open>toGMTString\<close>). A date that has passed removes the cookie.
\<close>

record cookie =
  ck_name :: utext
  ck_value :: utext
  ck_expires :: "int option"

type_synonym jar = "cookie list"

fun split_at :: "nat \<Rightarrow> utext \<Rightarrow> utext list" where
  "split_at c [] = [[]]"
| "split_at c (x # xs) =
     (if x = c then [] # split_at c xs
      else case split_at c xs of [] \<Rightarrow> [[x]] | w # ws \<Rightarrow> (x # w) # ws)"

fun join_text :: "utext \<Rightarrow> utext list \<Rightarrow> utext" where
  "join_text sep [] = []"
| "join_text sep [w] = w"
| "join_text sep (w # ws) = w @ sep @ join_text sep ws"

definition ltrim :: "utext \<Rightarrow> utext" where
  "ltrim s = dropWhile (\<lambda>c. c = 32) s"

definition trim :: "utext \<Rightarrow> utext" where
  "trim s = rev (ltrim (rev (ltrim s)))"

definition before_eq :: "utext \<Rightarrow> utext" where
  "before_eq s = takeWhile (\<lambda>c. c \<noteq> 61) s"

definition after_eq :: "utext \<Rightarrow> utext" where
  "after_eq s = drop 1 (dropWhile (\<lambda>c. c \<noteq> 61) s)"

definition live :: "int \<Rightarrow> cookie \<Rightarrow> bool" where
  "live now c = (case ck_expires c of None \<Rightarrow> True | Some t \<Rightarrow> now < t)"

definition document_cookie :: "int \<Rightarrow> jar \<Rightarrow> utext" where
  "document_cookie now jar =
     join_text [59, 32] (map (\<lambda>c. ck_name c @ [61] @ ck_value c) (filter (live now) jar))"

definition expires_of :: "(utext \<Rightarrow> int option) \<Rightarrow> utext list \<Rightarrow> int option" where
  "expires_of parse_date attrs =
     (case filter (\<lambda>a. before_eq (trim a) = u ''expires'') attrs of
        [] \<Rightarrow> None
      | as \<Rightarrow> parse_date (after_eq (trim (last as))))"

text \<open>
  \<open>document.cookie = t\<close> is the store of the browser, of which the model keeps what the two functions rely on: one pair for
  each name, its blanks trimmed, replaced by a later one, dropped once it has expired. Limits on sizes and numbers, paths
  and domains, and what browsers do to pairs with an empty name or control characters are not part of it; times are unbounded.
\<close>

definition set_document_cookie :: "(utext \<Rightarrow> int option) \<Rightarrow> int \<Rightarrow> utext \<Rightarrow> jar \<Rightarrow> jar" where
  "set_document_cookie parse_date now t jar =
     (case split_at 59 t of
        [] \<Rightarrow> jar
      | pair # attrs \<Rightarrow>
          let c = \<lparr>ck_name = trim (before_eq pair), ck_value = trim (after_eq pair),
                   ck_expires = expires_of parse_date attrs\<rparr>;
              others = filter (\<lambda>d. ck_name d \<noteq> ck_name c) jar
          in if live now c then others @ [c] else others)"

section \<open>The cookie functions\<close>

text \<open>\<open>gmt\<close> is \<open>toGMTString\<close> of a time in milliseconds; \<open>days\<close> is \<open>None\<close> when it was not passed.\<close>

definition CreateCookie ::
  "(int \<Rightarrow> utext) \<Rightarrow> (utext \<Rightarrow> int option) \<Rightarrow> int \<Rightarrow> utext \<Rightarrow> utext \<Rightarrow> int option \<Rightarrow> jar \<Rightarrow> jar js"
where
  "CreateCookie gmt parse_date now name value days jar =
     (let expires = (case days of
            Some d \<Rightarrow> (if d \<noteq> 0 then u ''; expires='' @ gmt (now + d * 24 * 60 * 60 * 1000) else [])
          | None \<Rightarrow> [])
      in js_bind (encodeURIComponent value)
           (\<lambda>v. Inr (set_document_cookie parse_date now (name @ [61] @ v @ expires @ u ''; path=/'') jar)))"

fun read_cookies :: "utext \<Rightarrow> utext list \<Rightarrow> utext option js" where
  "read_cookies nameEQ [] = Inr None"
| "read_cookies nameEQ (ca # cas) =
     (let c = ltrim ca in
      if take (length nameEQ) c = nameEQ
      then js_bind (decodeURIComponent (drop (length nameEQ) c)) (\<lambda>v. Inr (Some v))
      else read_cookies nameEQ cas)"

definition ReadCookie :: "int \<Rightarrow> utext \<Rightarrow> jar \<Rightarrow> utext option js" where
  "ReadCookie now name jar = read_cookies (name @ [61]) (split_at 59 (document_cookie now jar))"

definition EraseCookie :: "(int \<Rightarrow> utext) \<Rightarrow> (utext \<Rightarrow> int option) \<Rightarrow> int \<Rightarrow> utext \<Rightarrow> jar \<Rightarrow> jar js" where
  "EraseCookie gmt parse_date now name jar = CreateCookie gmt parse_date now name [] (Some (-1)) jar"

section \<open>Decoding undoes encoding\<close>

lemma hex_digit_upper [simp]: "d < 16 \<Longrightarrow> hex_digit (hex_upper d) = Some d"
  by (simp add: hex_digit_def hex_upper_def)

lemma octet_percent [simp]: "b < 256 \<Longrightarrow> octet (percent b @ r) = Some (b, r)"
  by (simp add: percent_def)

lemma continuation_bytes:
  "a < 64 \<Longrightarrow> continuation (Suc k) acc (percent (128 + a) @ r) = continuation k (acc * 64 + a) r"
  by simp

lemma base64_digits:
  "(n::nat) div 64 * 64 + n mod 64 = n" "n div 4096 * 64 + n div 64 mod 64 = n div 64"
  "n div 262144 * 64 + n div 4096 mod 64 = n div 4096"
proof -
  show "n div 64 * 64 + n mod 64 = n" by simp
  have "n div 4096 = n div 64 div 64" by (simp add: div_mult2_eq [symmetric])
  then show "n div 4096 * 64 + n div 64 mod 64 = n div 64" by simp
  have "n div 262144 = n div 4096 div 64" by (simp add: div_mult2_eq [symmetric])
  then show "n div 262144 * 64 + n div 4096 mod 64 = n div 4096" by simp
qed

lemma decode_point_utf8:
  assumes "scalar c"
  shows "decode_point (concat (map percent (utf8 c)) @ r) = Some (c, r)"
proof -
  consider "c < 128" | "128 \<le> c" "c < 2048" | "2048 \<le> c" "c < 65536" | "65536 \<le> c" "c < 1114112"
    using assms by (force simp: scalar_def)
  then show ?thesis
  proof cases
    case 1
    then show ?thesis by (simp add: decode_point_def utf8_def)
  next
    case 2
    then have "c div 64 < 32" by simp
    with 2 assms show ?thesis
      by (simp add: decode_point_def utf8_def continuation_bytes base64_digits del: continuation.simps(2))
  next
    case 3
    then have "c div 4096 < 16" by simp
    with 3 assms show ?thesis
      by (simp add: decode_point_def utf8_def continuation_bytes base64_digits numeral_2_eq_2 del: continuation.simps(2))
  next
    case 4
    then have "c div 262144 < 8" by simp
    with 4 assms show ?thesis
      by (simp add: decode_point_def utf8_def continuation_bytes base64_digits numeral_3_eq_3 del: continuation.simps(2))
  qed
qed

lemma percent_head: "concat (map percent (utf8 c)) = 37 # tl (concat (map percent (utf8 c)))"
  by (simp add: utf8_def percent_def)

lemma unreserved_not_percent: "unreserved c \<Longrightarrow> c \<noteq> 37"
  by (auto simp: unreserved_def)

lemma decode_encoded: "encodeURIComponent s = Inr t \<Longrightarrow> decodeURIComponent t = Inr s"
proof (induction s arbitrary: t)
  case Nil
  then show ?case by simp
next
  case (Cons c s)
  show ?case
  proof (cases "unreserved c")
    case True
    with Cons show ?thesis by (auto simp: js_bind_Inr_iff unreserved_not_percent)
  next
    case False
    with Cons.prems obtain r where r: "encodeURIComponent s = Inr r" "scalar c"
      "t = concat (map percent (utf8 c)) @ r"
      by (auto simp: js_bind_Inr_iff split: if_splits)
    let ?p = "concat (map percent (utf8 c))"
    have t: "t = 37 # (tl ?p @ r)" using percent_head [of c] r(3) by (metis append_Cons)
    have "decode_point (37 # (tl ?p @ r)) = Some (c, r)"
      using decode_point_utf8 [OF r(2), of r] percent_head [of c] by (metis append_Cons)
    with Cons.IH [OF r(1)] show ?thesis unfolding t by simp
  qed
qed

lemma encode_plain:
  "encodeURIComponent s = Inr t \<Longrightarrow> x \<in> set t \<Longrightarrow> unreserved x \<or> x = 37"
proof (induction s arbitrary: t)
  case Nil
  then show ?case by simp
next
  case (Cons c s)
  have hex: "unreserved (hex_upper d)" if "d < 16" for d
    using that by (auto simp: unreserved_def hex_upper_def)
  have bytes: "b < 256" if "b \<in> set (utf8 c)" "scalar c" for b
    using that by (auto simp: utf8_def scalar_def split: if_splits)
  have "unreserved x \<or> x = 37" if "x \<in> set (percent b)" "b < 256" for b
    using that hex [of "b div 16"] hex [of "b mod 16"] by (auto simp: percent_def)
  with bytes Cons show ?case by (fastforce simp: js_bind_Inr_iff split: if_splits)
qed

lemma encode_returns: "encodeURIComponent s = Inl e \<Longrightarrow> \<exists>c \<in> set s. \<not> scalar c"
  by (induction s) (auto simp: js_bind_Inl_iff split: if_splits)

lemma encode_no_blank:
  assumes "encodeURIComponent s = Inr t"
  shows "59 \<notin> set t" "32 \<notin> set t"
  using encode_plain [OF assms, of 59] encode_plain [OF assms, of 32] by (auto simp: unreserved_def)

section \<open>Parsing the cookie text\<close>

lemma split_at_nonempty [simp]: "split_at c s \<noteq> []"
  by (induction s) (auto split: list.splits)

lemma split_at_none [simp]: "c \<notin> set s \<Longrightarrow> split_at c s = [s]"
  by (induction s) auto

lemma split_at_append: "c \<notin> set w \<Longrightarrow> split_at c (w @ c # s) = w # split_at c s"
  by (induction w) auto

lemma split_at_Cons_other:
  "x \<noteq> c \<Longrightarrow> split_at c (x # s) = (x # hd (split_at c s)) # tl (split_at c s)"
  by (simp split: list.splits)

lemma split_join:
  assumes "\<forall>w \<in> set ws. 59 \<notin> set w" and "ws \<noteq> []"
  shows "map ltrim (split_at 59 (join_text [59, 32] ws)) = map ltrim ws"
  using assms
proof (induction "[59::nat, 32]" ws rule: join_text.induct)
  case (3 w v ws)
  let ?j = "join_text [59, 32] (v # ws)"
  have ih: "map ltrim (split_at 59 ?j) = map ltrim (v # ws)" using 3 by simp
  have "split_at 59 (32 # ?j) = (32 # hd (split_at 59 ?j)) # tl (split_at 59 ?j)"
    by (rule split_at_Cons_other) simp
  then have "map ltrim (split_at 59 (32 # ?j)) = map ltrim (split_at 59 ?j)"
    by (cases "split_at 59 ?j") (simp_all add: ltrim_def)
  with ih 3 show ?case by (simp add: split_at_append)
qed auto

text \<open>The cookies that any page can have set: names without separators or leading blanks, values without separators.\<close>

definition plain_name :: "utext \<Rightarrow> bool" where
  "plain_name n = (59 \<notin> set n \<and> 61 \<notin> set n \<and> 32 \<notin> set n)"

definition jar_ok :: "jar \<Rightarrow> bool" where
  "jar_ok jar = (\<forall>c \<in> set jar. plain_name (ck_name c) \<and> 59 \<notin> set (ck_value c))"

lemma ltrim_plain: "n = [] \<or> hd n \<noteq> 32 \<Longrightarrow> ltrim n = n"
  by (cases n) (auto simp: ltrim_def)

lemma trim_plain: "32 \<notin> set s \<Longrightarrow> trim s = s"
proof -
  assume "32 \<notin> set s"
  then have "ltrim s = s" "ltrim (rev s) = rev s"
    by (auto simp: ltrim_def intro!: dropWhile_eq_self_iff [THEN iffD2]) (metis hd_in_set hd_rev last_in_set rev_is_Nil_conv set_rev)+
  then show ?thesis by (simp add: trim_def)
qed

lemma before_eq_pair: "61 \<notin> set n \<Longrightarrow> before_eq (n @ 61 # v) = n"
  unfolding before_eq_def by (subst takeWhile_append2) auto

lemma after_eq_pair: "61 \<notin> set n \<Longrightarrow> after_eq (n @ 61 # v) = v"
  unfolding after_eq_def by (subst dropWhile_append2) auto

lemma name_match:
  fixes n m v :: utext
  assumes "61 \<notin> set n" and "61 \<notin> set m"
  shows "take (length (n @ [61])) (m @ [61] @ v) = n @ [61] \<longleftrightarrow> n = m"
proof
  assume a: "take (length (n @ [61])) (m @ [61] @ v) = n @ [61]"
  then have "n @ 61 # drop (length (n @ [61])) (m @ [61] @ v) = m @ 61 # v"
    by (metis append.assoc append_take_drop_id append_Cons append_Nil)
  then show "n = m" using assms before_eq_pair by metis
qed simp

lemma read_pairs:
  assumes "plain_name name" and "jar_ok cs" and "map ltrim ws = map (\<lambda>c. ck_name c @ [61] @ ck_value c) cs"
  shows "read_cookies (name @ [61]) ws =
    (case find (\<lambda>c. ck_name c = name) cs of
       None \<Rightarrow> Inr None
     | Some c \<Rightarrow> js_bind (decodeURIComponent (ck_value c)) (\<lambda>v. Inr (Some v)))"
  using assms(2,3)
proof (induction cs arbitrary: ws)
  case Nil
  then show ?case by simp
next
  case (Cons c cs)
  then obtain w ws' where ws: "ws = w # ws'" "ltrim w = ck_name c @ [61] @ ck_value c"
    "map ltrim ws' = map (\<lambda>c. ck_name c @ [61] @ ck_value c) cs" by (cases ws) auto
  have ok: "jar_ok cs" "61 \<notin> set (ck_name c)" using Cons.prems by (auto simp: jar_ok_def plain_name_def)
  have m: "take (length (name @ [61])) (ltrim w) = name @ [61] \<longleftrightarrow> name = ck_name c"
    unfolding ws(2) using assms(1) ok by (intro name_match) (auto simp: plain_name_def)
  show ?case
  proof (cases "name = ck_name c")
    case True
    with ws show ?thesis by (simp add: Let_def)
  next
    case False
    with m ws Cons.IH [OF ok(1) ws(3)] show ?thesis by (auto simp: Let_def)
  qed
qed

lemma read_jar:
  assumes "plain_name name" and "jar_ok jar"
  shows "ReadCookie now name jar =
    (case find (\<lambda>c. ck_name c = name) (filter (live now) jar) of
       None \<Rightarrow> Inr None
     | Some c \<Rightarrow> js_bind (decodeURIComponent (ck_value c)) (\<lambda>v. Inr (Some v)))"
proof -
  let ?cs = "filter (live now) jar" and ?f = "\<lambda>c. ck_name c @ [61] @ ck_value c"
  have ok: "jar_ok ?cs" using assms(2) by (auto simp: jar_ok_def)
  show ?thesis
  proof (cases "?cs = []")
    case True
    then show ?thesis by (simp add: ReadCookie_def document_cookie_def ltrim_def)
  next
    case False
    have "\<forall>w \<in> set (map ?f ?cs). 59 \<notin> set w" using ok by (auto simp: jar_ok_def plain_name_def)
    then have "map ltrim (split_at 59 (document_cookie now jar)) = map ltrim (map ?f ?cs)"
      unfolding document_cookie_def using False by (intro split_join) auto
    moreover have "ltrim (?f c) = ?f c" if "c \<in> set ?cs" for c
    proof (rule ltrim_plain)
      have "32 \<notin> set (ck_name c)" using ok that by (auto simp: jar_ok_def plain_name_def)
      then show "?f c = [] \<or> hd (?f c) \<noteq> 32" by (cases "ck_name c") auto
    qed
    ultimately have "map ltrim (split_at 59 (document_cookie now jar)) = map ?f ?cs" by simp
    then show ?thesis unfolding ReadCookie_def by (rule read_pairs [OF assms(1) ok])
  qed
qed

section \<open>Writing a cookie\<close>

text \<open>
  What the page relies on of dates: the text of a time has no semicolon and no blank at its ends, and
  reading it back gives the time to the second.
\<close>

definition date_format :: "(int \<Rightarrow> utext) \<Rightarrow> (utext \<Rightarrow> int option) \<Rightarrow> bool" where
  "date_format gmt parse_date = (\<forall>t. gmt t \<noteq> [] \<and> 59 \<notin> set (gmt t) \<and> hd (gmt t) \<noteq> 32 \<and> last (gmt t) \<noteq> 32
     \<and> parse_date (gmt t) = Some (t div 1000 * 1000))"

lemma trim_attribute:
  assumes "s \<noteq> []" and "hd s \<noteq> 32" and "last s \<noteq> 32"
  shows "trim (32 # s) = s"
proof -
  have "ltrim (32 # s) = s" using assms(1,2) by (cases s) (auto simp: ltrim_def)
  moreover have "ltrim (rev s) = rev s"
    using assms by (intro ltrim_plain) (simp add: hd_rev)
  ultimately show ?thesis by (simp add: trim_def)
qed

lemma u_simps: "u [] = []" "u (c # s) = of_char c # u s" "u (s @ t) = u s @ u t"
  by (simp_all add: u_def)

lemma path_attribute: "trim (u '' path=/'') = u ''path=/''" "before_eq (u ''path=/'') = u ''path''" "59 \<notin> set (u '' path=/'')"
  by (simp_all add: u_def trim_def ltrim_def before_eq_def)

lemma set_cookie_effect:
  assumes n: "plain_name name" and v: "59 \<notin> set v" "32 \<notin> set v" and d: "date_format gmt parse_date"
  shows "set_document_cookie parse_date now (name @ [61] @ v @ u ''; path=/'') jar =
      filter (\<lambda>c. ck_name c \<noteq> name) jar @ [\<lparr>ck_name = name, ck_value = v, ck_expires = None\<rparr>]" (is ?session)
    and "set_document_cookie parse_date now (name @ [61] @ v @ (u ''; expires='' @ gmt t) @ u ''; path=/'') jar =
      filter (\<lambda>c. ck_name c \<noteq> name) jar @
      (if now < t div 1000 * 1000 then [\<lparr>ck_name = name, ck_value = v, ck_expires = Some (t div 1000 * 1000)\<rparr>] else [])"
      (is ?dated)
proof -
  let ?pair = "name @ 61 # v" and ?e = "u '' expires='' @ gmt t"
  have pair: "59 \<notin> set ?pair" "trim (before_eq ?pair) = name" "trim (after_eq ?pair) = v"
    using n v by (auto simp: plain_name_def before_eq_pair after_eq_pair trim_plain)
  have path: "split_at 59 (u '' path=/'') = [u '' path=/'']" using path_attribute(3) by simp
  have semi: "u (CHR '';'' # s) = 59 # u s" for s by (simp add: u_def)
  have g: "gmt t \<noteq> []" "59 \<notin> set (gmt t)" "last (gmt t) \<noteq> 32" "parse_date (gmt t) = Some (t div 1000 * 1000)"
    using d by (auto simp: date_format_def)
  have s1: "split_at 59 (?pair @ u ''; path=/'') = [?pair, u '' path=/'']"
    by (simp only: semi split_at_append [OF pair(1)] path)
  have e59: "59 \<notin> set ?e" using g(2) by (simp add: u_def)
  have s2: "split_at 59 (?pair @ 59 # ?e @ 59 # u '' path=/'') = [?pair, ?e, u '' path=/'']"
    by (simp only: split_at_append [OF pair(1)] split_at_append [OF e59] path)
  have te: "trim ?e = u ''expires'' @ 61 # gmt t"
    using trim_attribute [of "u ''expires='' @ gmt t"] g(1,3) by (simp add: u_def)
  have x61: "61 \<notin> set (u ''expires'')" by (simp add: u_def)
  have "expires_of parse_date [?e, u '' path=/''] = Some (t div 1000 * 1000)"
    using te x61 path_attribute g(4) by (simp add: expires_of_def before_eq_pair after_eq_pair) (simp add: u_def)
  with s2 pair have "set_document_cookie parse_date now (?pair @ 59 # ?e @ 59 # u '' path=/'') jar =
      filter (\<lambda>c. ck_name c \<noteq> name) jar @
      (if now < t div 1000 * 1000 then [\<lparr>ck_name = name, ck_value = v, ck_expires = Some (t div 1000 * 1000)\<rparr>] else [])"
    by (simp add: set_document_cookie_def live_def Let_def)
  then show ?dated by (simp add: semi)
  have "expires_of parse_date [u '' path=/''] = None"
    using path_attribute by (simp add: expires_of_def) (simp add: u_def)
  with s1 pair have "set_document_cookie parse_date now (?pair @ u ''; path=/'') jar =
      filter (\<lambda>c. ck_name c \<noteq> name) jar @ [\<lparr>ck_name = name, ck_value = v, ck_expires = None\<rparr>]"
    by (simp add: set_document_cookie_def live_def Let_def)
  then show ?session by simp
qed

lemma find_replaced:
  "find (\<lambda>c. ck_name c = m) (filter (live now) (filter (\<lambda>c. ck_name c \<noteq> n) jar @ cs)) =
     (if m = n then find (\<lambda>c. ck_name c = n) (filter (live now) cs)
      else case find (\<lambda>c. ck_name c = m) (filter (live now) jar) of
             Some c \<Rightarrow> Some c | None \<Rightarrow> find (\<lambda>c. ck_name c = m) (filter (live now) cs))"
  by (induction jar) (auto split: option.splits)

lemma jar_ok_replaced:
  "jar_ok jar \<Longrightarrow> plain_name name \<Longrightarrow> \<forall>c \<in> set cs. ck_name c = name \<and> 59 \<notin> set (ck_value c) \<Longrightarrow>
     jar_ok (filter (\<lambda>c. ck_name c \<noteq> n) jar @ cs)"
  by (auto simp: jar_ok_def)

text \<open>Writing a cookie under another name does not change what is read.\<close>

lemma read_other:
  assumes "jar_ok jar" and "plain_name name" and "plain_name m" and "m \<noteq> name"
    and "\<forall>c \<in> set cs. ck_name c = name \<and> 59 \<notin> set (ck_value c)"
  shows "ReadCookie now m (filter (\<lambda>c. ck_name c \<noteq> name) jar @ cs) = ReadCookie now m jar"
proof -
  have "find (\<lambda>c. ck_name c = m) (filter (live now) cs) = None"
    using assms(4,5) by (auto simp: find_None_iff)
  then have "find (\<lambda>c. ck_name c = m) (filter (live now) (filter (\<lambda>c. ck_name c \<noteq> name) jar @ cs)) =
      find (\<lambda>c. ck_name c = m) (filter (live now) jar)"
    unfolding find_replaced using assms(4) by (simp split: option.splits)
  then show ?thesis
    using assms by (simp only: read_jar jar_ok_replaced)
qed

section \<open>Properties\<close>

text \<open>
  C24. A value written with \<open>CreateCookie\<close>, for the session or for at least one day, is what \<open>ReadCookie\<close> of
  the same name returns, for every text that has an encoding; cookies of other names read as before; and
  the store stays well formed.
\<close>

theorem cookie_roundtrip:
  assumes "jar_ok jar" and "plain_name name" and "date_format gmt parse_date"
    and "\<forall>c \<in> set value. scalar c" and "days = None \<or> (\<exists>d \<ge> 0. days = Some d)"
  shows "\<exists>jar'. CreateCookie gmt parse_date now name value days jar = Inr jar' \<and> jar_ok jar'
    \<and> ReadCookie now name jar' = Inr (Some value)
    \<and> (\<forall>m. plain_name m \<and> m \<noteq> name \<longrightarrow> ReadCookie now m jar' = ReadCookie now m jar)"
proof -
  obtain v where v: "encodeURIComponent value = Inr v"
    using encode_returns [of "value"] assms(4) by (cases "encodeURIComponent value") auto
  note nb = encode_no_blank [OF v]
  have "\<exists>ex. CreateCookie gmt parse_date now name value days jar =
      Inr (filter (\<lambda>c. ck_name c \<noteq> name) jar @ [\<lparr>ck_name = name, ck_value = v, ck_expires = ex\<rparr>])
    \<and> live now \<lparr>ck_name = name, ck_value = v, ck_expires = ex\<rparr>"
  proof (cases "\<exists>d > 0. days = Some d")
    case True
    then obtain d where d: "days = Some d" "0 < d" by blast
    let ?t = "now + d * 24 * 60 * 60 * 1000"
    have "now < ?t div 1000 * 1000" using d(2) by linarith
    with d set_cookie_effect(2) [OF assms(2) nb assms(3), of now ?t jar] v show ?thesis
      by (simp add: CreateCookie_def live_def)
  next
    case False
    with assms(5) have "days = None \<or> days = Some 0" by force
    with set_cookie_effect(1) [OF assms(2) nb assms(3), of now jar] v show ?thesis
      by (auto simp: CreateCookie_def live_def)
  qed
  then obtain c where c: "CreateCookie gmt parse_date now name value days jar =
      Inr (filter (\<lambda>c. ck_name c \<noteq> name) jar @ [c])" "live now c" "ck_name c = name" "ck_value c = v" by auto
  let ?j = "filter (\<lambda>c. ck_name c \<noteq> name) jar @ [c]"
  have ok: "jar_ok ?j" using assms(1,2) c nb by (intro jar_ok_replaced [of jar name]) auto
  have "ReadCookie now name ?j = Inr (Some value)"
    unfolding read_jar [OF assms(2) ok] find_replaced using c decode_encoded [OF v] by simp
  moreover have "ReadCookie now m ?j = ReadCookie now m jar" if "plain_name m" "m \<noteq> name" for m
    using read_other [OF assms(1,2) that] c nb by simp
  ultimately show ?thesis using c(1) ok by auto
qed

text \<open>A date format for the witnesses: the decimal text of the seconds.\<close>

definition seconds_text :: "int \<Rightarrow> utext" where
  "seconds_text t = u (int_str (t div 1000))"

definition parse_seconds :: "utext \<Rightarrow> int option" where
  "parse_seconds s =
     (case s of
        [] \<Rightarrow> None
      | c # r \<Rightarrow> Some (1000 * (if c = 45 then - int (radix_val 10 (map char_of r))
                               else int (radix_val 10 (map char_of s)))))"

lemma seconds_format: "date_format seconds_text parse_seconds"
proof -
  have digits: "c \<in> set (nat_str n) \<Longrightarrow> is_digit c" for c n
    using radix_str_digits [of 10 n] by (auto simp: nat_str_def list_all_iff)
  have dig: "c \<in> set (nat_str n) \<Longrightarrow> (of_char c :: nat) \<noteq> 59 \<and> (of_char c :: nat) \<noteq> 32" for c n
    using digits [of c n] by (auto simp: is_digit_def Let_def)
  have big: "x \<in> set (u (int_str i)) \<Longrightarrow> x \<noteq> 59 \<and> x \<noteq> 32" for x i
    using dig by (auto simp: u_def int_str_def split: if_splits)
  have ne: "u (int_str i) \<noteq> []" for i by (simp add: u_def int_str_def nat_str_def)
  have chars: "map char_of (map of_char s :: nat list) = (s :: string)" for s by (simp add: comp_def)
  have val: "radix_val 10 (nat_str n) = n" for n by (simp add: nat_str_def)
  have "parse_seconds (u (int_str i)) = Some (i * 1000)" for i
  proof (cases "i < 0")
    case True
    then show ?thesis using chars [of "nat_str (nat (- i))"] val [of "nat (- i)"]
      by (simp add: parse_seconds_def int_str_def u_def)
  next
    case False
    obtain c s where cs: "nat_str (nat i) = c # s" by (cases "nat_str (nat i)") (auto simp: nat_str_def)
    have "(of_char c :: nat) \<noteq> 45" using digits [of c "nat i"] cs by (auto simp: is_digit_def Let_def)
    with False cs show ?thesis using chars [of "nat_str (nat i)"] val [of "nat i"]
      by (simp add: parse_seconds_def int_str_def u_def)
  qed
  moreover have "hd (u (int_str i)) \<noteq> 32" "last (u (int_str i)) \<noteq> 32" for i
    using big [of "hd (u (int_str i))" i] big [of "last (u (int_str i))" i] ne [of i] by auto
  moreover have "59 \<notin> set (u (int_str i))" for i using big [of 59 i] by auto
  ultimately show ?thesis using ne by (auto simp: date_format_def seconds_text_def)
qed

theorem cookie_roundtrip_witness:
  "\<exists>jar'. CreateCookie seconds_text parse_seconds 0 (u ''zone'') [59, 61, 0x20AC] (Some 30) [] = Inr jar'
     \<and> ReadCookie 0 (u ''zone'') jar' = Inr (Some [59, 61, 0x20AC])"
  using cookie_roundtrip [OF _ _ seconds_format, of "[]" "u ''zone''" "[59, 61, 0x20AC]" "Some 30" 0]
  by (auto simp: jar_ok_def plain_name_def u_def scalar_def)

text \<open>
  After \<open>EraseCookie\<close> the name reads as absent, and no other cookie is lost.
\<close>

theorem cookie_erased:
  assumes "jar_ok jar" and "plain_name name" and "date_format gmt parse_date"
  shows "\<exists>jar'. EraseCookie gmt parse_date now name jar = Inr jar' \<and> jar_ok jar'
    \<and> ReadCookie now name jar' = Inr None
    \<and> (\<forall>m. plain_name m \<and> m \<noteq> name \<longrightarrow> ReadCookie now m jar' = ReadCookie now m jar)"
proof -
  let ?t = "now + (-1) * 24 * 60 * 60 * 1000" and ?j = "filter (\<lambda>c. ck_name c \<noteq> name) jar @ []"
  have "\<not> now < ?t div 1000 * 1000" by linarith
  then have e: "EraseCookie gmt parse_date now name jar = Inr ?j"
    using set_cookie_effect(2) [OF assms(2) _ _ assms(3), of "[]" now ?t jar]
    by (simp add: EraseCookie_def CreateCookie_def)
  have ok: "jar_ok ?j" using assms(1,2) by (intro jar_ok_replaced [of jar name]) auto
  have "ReadCookie now name ?j = Inr None"
    unfolding read_jar [OF assms(2) ok] find_replaced by simp
  moreover have "ReadCookie now m ?j = ReadCookie now m jar" if "plain_name m" "m \<noteq> name" for m
    by (rule read_other [OF assms(1,2) that]) simp
  ultimately show ?thesis using e ok by auto
qed

theorem cookie_erased_witness:
  "\<exists>jar'. EraseCookie seconds_text parse_seconds 0 (u ''zone'')
        [\<lparr>ck_name = u ''zone'', ck_value = u ''3'', ck_expires = None\<rparr>] = Inr jar'
     \<and> ReadCookie 0 (u ''zone'') jar' = Inr None"
  using cookie_erased [OF _ _ seconds_format, of "[\<lparr>ck_name = u ''zone'', ck_value = u ''3'', ck_expires = None\<rparr>]" "u ''zone''" 0]
  by (auto simp: jar_ok_def plain_name_def u_def)

end
