(* ===== verification/Requests.thy ===== *)
theory Requests
  imports JsText
begin

text \<open>
  The four functions of \<open>Common.js\<close> that talk to the server. What they need of the page is a record: which
  request classes the browser has, the client identifier as printed, the text the application appends to
  defeat caches (\<open>AJAXCacheBreaker()\<close>, a global of the application), and which URLs \<open>open\<close> accepts. The log is
  the list of requests sent.
\<close>

record browser =
  has_XMLHttpRequest :: bool
  has_ActiveXObject :: bool
  g_nClientID :: string
  cache_breaker :: string
  opens :: "string \<Rightarrow> bool"

datatype handler = NoHandler | OnLoad nat | OnReadyStateChange nat

record request =
  rq_method :: string
  rq_url :: string
  rq_async :: bool
  rq_body :: "string option"
  rq_handler :: handler

type_synonym sent = "request list"

definition action_url :: "browser \<Rightarrow> string \<Rightarrow> string" where
  "action_url b szAction = szAction @ ''&ClientID='' @ g_nClientID b @ cache_breaker b"

text \<open>
  Creating the request object: \<open>XMLHttpRequest\<close> if the window has it, else \<open>ActiveXObject\<close>, whose name is
  unknown in a browser without it. The object is never null, so the test for that never succeeds.
\<close>

definition create_request :: "browser \<Rightarrow> unit js" where
  "create_request b = (if has_XMLHttpRequest b \<or> has_ActiveXObject b then Inr () else Inl ReferenceError)"

definition open_send :: "browser \<Rightarrow> request \<Rightarrow> sent \<Rightarrow> sent js" where
  "open_send b r done_reqs = (if opens b (rq_url r) then Inr (done_reqs @ [r]) else Inl (Thrown ''SyntaxError''))"

definition SendAction :: "browser \<Rightarrow> string \<Rightarrow> sent \<Rightarrow> sent js" where
  "SendAction b szAction done_reqs =
     js_bind (create_request b) (\<lambda>_. open_send b
       \<lparr>rq_method = ''GET'', rq_url = action_url b szAction, rq_async = True, rq_body = None, rq_handler = NoHandler\<rparr> done_reqs)"

definition SyncSendAction :: "browser \<Rightarrow> string \<Rightarrow> sent \<Rightarrow> sent js" where
  "SyncSendAction b szAction done_reqs =
     js_bind (create_request b) (\<lambda>_. open_send b
       \<lparr>rq_method = ''GET'', rq_url = action_url b szAction, rq_async = False, rq_body = None, rq_handler = NoHandler\<rparr> done_reqs)"

definition PostActionData :: "browser \<Rightarrow> string \<Rightarrow> string \<Rightarrow> sent \<Rightarrow> sent js" where
  "PostActionData b szAction szData done_reqs =
     js_bind (create_request b) (\<lambda>_. open_send b
       \<lparr>rq_method = ''POST'', rq_url = action_url b szAction, rq_async = True, rq_body = Some szData, rq_handler = NoHandler\<rparr> done_reqs)"

text \<open>
  \<open>SendRequest\<close> prefers \<open>ActiveXObject\<close>, and swallows what \<open>open\<close> throws; sending an unopened request is an
  invalid-state error. The result is the request object.
\<close>

definition SendRequest :: "browser \<Rightarrow> string \<Rightarrow> nat \<Rightarrow> sent \<Rightarrow> (request \<times> sent) js" where
  "SendRequest b szRequest fnRequestHandler done_reqs =
     js_bind
       (if has_ActiveXObject b then Inr (OnReadyStateChange fnRequestHandler)
        else if has_XMLHttpRequest b then Inr (OnLoad fnRequestHandler) else Inl ReferenceError)
       (\<lambda>h. let r = \<lparr>rq_method = ''GET'', rq_url = action_url b szRequest, rq_async = True, rq_body = Some [], rq_handler = h\<rparr>
            in if opens b (rq_url r) then Inr (r, done_reqs @ [r]) else Inl InvalidStateError)"

section \<open>Properties\<close>

text \<open>
  Each of the four functions, when it returns, has sent exactly one request, to the given action with the
  client identifier and the cache breaker appended, with its own method, mode, body and handler; and they
  throw exactly when the browser has no request class or refuses the URL. A URL that \<open>SendRequest\<close> fails to
  open surfaces as the invalid-state error of \<open>send\<close>.
\<close>

theorem requests_sent:
  fixes b :: browser and a d :: string and l :: sent
  defines "url \<equiv> a @ ''&ClientID='' @ g_nClientID b @ cache_breaker b"
    and "can \<equiv> has_XMLHttpRequest b \<or> has_ActiveXObject b"
  shows "(case SendAction b a l of
        Inr l' \<Rightarrow> can \<and> opens b url \<and> l' = l @ [\<lparr>rq_method = ''GET'', rq_url = url, rq_async = True, rq_body = None, rq_handler = NoHandler\<rparr>]
      | Inl e \<Rightarrow> \<not> can \<and> e = ReferenceError \<or> can \<and> \<not> opens b url)
    \<and> (case SyncSendAction b a l of
        Inr l' \<Rightarrow> can \<and> opens b url \<and> l' = l @ [\<lparr>rq_method = ''GET'', rq_url = url, rq_async = False, rq_body = None, rq_handler = NoHandler\<rparr>]
      | Inl e \<Rightarrow> \<not> can \<and> e = ReferenceError \<or> can \<and> \<not> opens b url)
    \<and> (case PostActionData b a d l of
        Inr l' \<Rightarrow> can \<and> opens b url \<and> l' = l @ [\<lparr>rq_method = ''POST'', rq_url = url, rq_async = True, rq_body = Some d, rq_handler = NoHandler\<rparr>]
      | Inl e \<Rightarrow> \<not> can \<and> e = ReferenceError \<or> can \<and> \<not> opens b url)
    \<and> (case SendRequest b a f l of
        Inr (r, l') \<Rightarrow> can \<and> opens b url \<and> l' = l @ [r] \<and> rq_url r = url \<and> rq_async r
           \<and> rq_handler r = (if has_ActiveXObject b then OnReadyStateChange f else OnLoad f)
      | Inl e \<Rightarrow> \<not> can \<and> e = ReferenceError \<or> can \<and> \<not> opens b url \<and> e = InvalidStateError)"
  unfolding url_def can_def
  by (auto simp: SendAction_def SyncSendAction_def PostActionData_def SendRequest_def create_request_def
      open_send_def action_url_def Let_def split: sum.splits)

end
