(* ===== verification/Helpers.thy ===== *)
theory Helpers
  imports JsText "HOL-Library.Word" Complex_Main
begin

unbundle bit_operations_syntax

text \<open>
  The conversion helpers of \<open>Common.js\<close>: level to decibel, colour text to hexadecimal, and browser detection.
\<close>

section \<open>ConvertLinearTodB\<close>

definition ConvertLinearTodB :: "real \<Rightarrow> real" where
  "ConvertLinearTodB usLinear = (if usLinear = 0 then - 144.5 else 20 * log 10 (usLinear / 65535))"

section \<open>Color2Hex\<close>

text \<open>
  The pattern: \<open>rgb\<close>, an optional \<open>a\<close>, a parenthesis, and three groups of digits separated by a comma and a
  blank; it may start anywhere. A group of digits ends where the digits end, so the match is unique.
\<close>

definition is_decimal :: "char \<Rightarrow> bool" where
  "is_decimal c = (let n = of_char c :: nat in 48 \<le> n \<and> n \<le> 57)"

definition digits_at :: "string \<Rightarrow> (string \<times> string) option" where
  "digits_at s = (case takeWhile is_decimal s of [] \<Rightarrow> None | d \<Rightarrow> Some (d, dropWhile is_decimal s))"

fun strip :: "string \<Rightarrow> string \<Rightarrow> string option" where
  "strip [] s = Some s"
| "strip (p # ps) [] = None"
| "strip (p # ps) (c # s) = (if p = c then strip ps s else None)"

definition groups_at :: "string \<Rightarrow> (nat \<times> nat \<times> nat) option" where
  "groups_at s =
     Option.bind (digits_at s) (\<lambda>(a, s1). Option.bind (strip '', '' s1) (\<lambda>s2.
     Option.bind (digits_at s2) (\<lambda>(b, s3). Option.bind (strip '', '' s3) (\<lambda>s4.
     Option.bind (digits_at s4) (\<lambda>(c, _). Some (radix_val 10 a, radix_val 10 b, radix_val 10 c))))))"

definition rgb_at :: "string \<Rightarrow> (nat \<times> nat \<times> nat) option" where
  "rgb_at s =
     (case strip ''rgba('' s of
        Some r \<Rightarrow> groups_at r
      | None \<Rightarrow> (case strip ''rgb('' s of Some r \<Rightarrow> groups_at r | None \<Rightarrow> None))"

fun rgb_search :: "string \<Rightarrow> (nat \<times> nat \<times> nat) option" where
  "rgb_search [] = rgb_at []"
| "rgb_search (c # s) = (case rgb_at (c # s) of Some m \<Rightarrow> Some m | None \<Rightarrow> rgb_search s)"

text \<open>Shifts and the bitwise or are on 32-bit signed integers; a negative one prints with a minus sign.\<close>

definition pack_rgb :: "nat \<times> nat \<times> nat \<Rightarrow> 32 word" where
  "pack_rgb m = (case m of (r, g, b) \<Rightarrow> push_bit 16 (of_nat r) OR push_bit 8 (of_nat g) OR of_nat b)"

definition hex_of_int32 :: "32 word \<Rightarrow> string" where
  "hex_of_int32 w = (if sint w < 0 then ''-'' @ hex_str (nat (- sint w)) else hex_str (nat (sint w)))"

definition Color2Hex :: "string \<Rightarrow> string" where
  "Color2Hex c = (case rgb_search c of Some m \<Rightarrow> ''#'' @ hex_of_int32 (pack_rgb m) | None \<Rightarrow> c)"

section \<open>BrowserDetect\<close>

text \<open>
  An entry of the tables tests a text for a part, or a property for being there; \<open>None\<close> is \<open>undefined\<close>. The
  navigator's fields are texts.
\<close>

record navigator =
  userAgent :: string
  appVersion :: string
  vendor :: "string option"
  platform :: "string option"
  window_opera :: bool

datatype probe = StringProbe "string option" string | PropProbe bool

record entry =
  en_probe :: probe
  en_identity :: string
  en_versionSearch :: "string option"

definition entry_for :: "probe \<Rightarrow> string \<Rightarrow> string option \<Rightarrow> entry" where
  "entry_for p i v = \<lparr>en_probe = p, en_identity = i, en_versionSearch = v\<rparr>"

definition dataBrowser :: "navigator \<Rightarrow> entry list" where
  "dataBrowser n =
     (let ua = Some (userAgent n) in
      [entry_for (StringProbe ua ''Chrome'') ''Chrome'' None,
       entry_for (StringProbe ua ''OmniWeb'') ''OmniWeb'' (Some ''OmniWeb/''),
       entry_for (StringProbe (vendor n) ''Apple'') ''Safari'' (Some ''Version''),
       entry_for (PropProbe (window_opera n)) ''Opera'' (Some ''Version''),
       entry_for (StringProbe (vendor n) ''iCab'') ''iCab'' None,
       entry_for (StringProbe (vendor n) ''KDE'') ''Konqueror'' None,
       entry_for (StringProbe ua ''Firefox'') ''Firefox'' None,
       entry_for (StringProbe (vendor n) ''Camino'') ''Camino'' None,
       entry_for (StringProbe ua ''Netscape'') ''Netscape'' None,
       entry_for (StringProbe ua ''MSIE'') ''Explorer'' (Some ''MSIE''),
       entry_for (StringProbe ua ''Gecko'') ''Mozilla'' (Some ''rv''),
       entry_for (StringProbe ua ''Mozilla'') ''Netscape'' (Some ''Mozilla'')])"

definition dataOS :: "navigator \<Rightarrow> entry list" where
  "dataOS n =
     [entry_for (StringProbe (platform n) ''Win'') ''Windows'' None,
      entry_for (StringProbe (platform n) ''Mac'') ''Mac'' None,
      entry_for (StringProbe (Some (userAgent n)) ''iPhone'') ''iPhone/iPod'' None,
      entry_for (StringProbe (platform n) ''Linux'') ''Linux'' None]"

text \<open>An empty or missing text counts as false, and the entry is then taken by its property, if it has one.\<close>

definition entry_hit :: "entry \<Rightarrow> bool" where
  "entry_hit e =
     (case en_probe e of
        StringProbe (Some s) sub \<Rightarrow> s \<noteq> [] \<and> index_of sub s \<noteq> None
      | StringProbe None sub \<Rightarrow> False
      | PropProbe b \<Rightarrow> b)"

text \<open>
  \<open>searchString\<close> leaves behind the version text of the entry it looked at last: the one it found, or the last
  of the table.
\<close>

fun searchString :: "entry list \<Rightarrow> string option \<Rightarrow> string option \<times> string option" where
  "searchString [] v = (None, v)"
| "searchString (e # es) v =
     (let v' = Some (or_str (en_versionSearch e) (en_identity e)) in
      if entry_hit e then (Some (en_identity e), v') else searchString es v')"

text \<open>
  \<open>parseFloat\<close>: after blanks, an optional sign, digits with an optional fraction, an optional exponent, or the
  word \<open>Infinity\<close>; as much of the text as fits is read, and NaN if nothing does.
\<close>

definition read_sign :: "string \<Rightarrow> rat \<times> string" where
  "read_sign s =
     (case s of
        c # r \<Rightarrow> if c = CHR ''-'' then (- 1, r) else if c = CHR ''+'' then (1, r) else (1, s)
      | [] \<Rightarrow> (1, s))"

definition read_exponent :: "string \<Rightarrow> rat" where
  "read_exponent s =
     (case s of
        c # r \<Rightarrow>
          if c = CHR ''e'' \<or> c = CHR ''E''
          then (let (sg, d) = read_sign r; e = radix_val 10 (takeWhile is_decimal d)
                in if takeWhile is_decimal d = [] then 1 else if sg = 1 then 10 ^ e else 1 / 10 ^ e)
          else 1
      | [] \<Rightarrow> 1)"

definition parseFloat :: "string \<Rightarrow> jsnum" where
  "parseFloat s =
     (let (sg, s1) = read_sign (dropWhile (\<lambda>c. c = CHR '' '') s);
          ip = takeWhile is_decimal s1; r = dropWhile is_decimal s1;
          (fp, r2) = (case r of c # r' \<Rightarrow> if c = CHR ''.'' then (takeWhile is_decimal r', dropWhile is_decimal r') else ([], r)
                      | [] \<Rightarrow> ([], r))
      in if prefix ''Infinity'' s1 then (if sg = 1 then PInf else NInf)
         else if ip = [] \<and> fp = [] then NaN
         else Fin (sg * of_nat (radix_val 10 (ip @ fp)) / 10 ^ length fp * read_exponent r2))"

definition searchVersion :: "string option \<Rightarrow> string \<Rightarrow> jsnum option" where
  "searchVersion versionSearchString dataString =
     (let v = (case versionSearchString of None \<Rightarrow> ''undefined'' | Some v \<Rightarrow> v) in
      case index_of v dataString of
        None \<Rightarrow> None
      | Some index \<Rightarrow> Some (parseFloat (drop (index + length v + 1) dataString)))"

datatype version = Version jsnum | UnknownVersion

record browser_info =
  bi_browser :: string
  bi_version :: version
  bi_OS :: string
  bi_Mobile :: bool

definition lower :: "char \<Rightarrow> char" where
  "lower c = (let n = of_char c :: nat in if 65 \<le> n \<and> n \<le> 90 then char_of (n + 32) else c)"

definition mobile_names :: "string list" where
  "mobile_names = [''Android'', ''webOS'', ''iPhone'', ''iPad'', ''iPod'', ''BlackBerry'', ''BB'', ''PlayBook'',
     ''IEMobile'', ''Windows Phone'', ''Kindle'', ''Silk'', ''Opera Mini'']"

definition detect :: "navigator \<Rightarrow> browser_info" where
  "detect n =
     (let (b, v) = searchString (dataBrowser n) None;
          ver = (if truthy_opt (searchVersion v (userAgent n)) then Version (the (searchVersion v (userAgent n)))
                 else if truthy_opt (searchVersion v (appVersion n)) then Version (the (searchVersion v (appVersion n)))
                 else UnknownVersion);
          (os, _) = searchString (dataOS n) v
      in \<lparr>bi_browser = or_str b ''An unknown browser'', bi_version = ver, bi_OS = or_str os ''an unknown OS'',
          bi_Mobile = list_ex (\<lambda>m. index_of (map lower m) (map lower (userAgent n)) \<noteq> None) mobile_names\<rparr>)"

section \<open>Packing colours\<close>

lemma push_or_add:
  fixes a b :: nat
  assumes "b < 2 ^ n"
  shows "push_bit n a OR b = a * 2 ^ n + b"
proof -
  have "push_bit n a AND b = 0"
  proof (rule bit_eqI)
    fix m
    have "\<not> bit b m" if "n \<le> m"
    proof -
      have "b < 2 ^ m" using assms that by (meson less_le_trans one_le_numeral power_increasing)
      then show ?thesis by (simp add: bit_iff_odd)
    qed
    then show "bit (push_bit n a AND b) m = bit 0 m" by (auto simp: bit_and_iff bit_push_bit_iff)
  qed
  then have "push_bit n a + b = push_bit n a OR b" by (rule disjunctive_add_eq_or)
  then show ?thesis by (simp add: push_bit_eq_mult)
qed

lemma pack_rgb_value:
  assumes "r < 256" and "g < 256" and "b < 256"
  shows "pack_rgb (r, g, b) = of_nat (r * 65536 + g * 256 + b)"
proof -
  have "push_bit 8 g OR b = g * 256 + b" using push_or_add [of b 8 g] assms by simp
  moreover have "push_bit 16 r OR (g * 256 + b) = r * 65536 + (g * 256 + b)"
    using push_or_add [of "g * 256 + b" 16 r] assms by simp
  ultimately have "push_bit 16 r OR push_bit 8 g OR b = r * 65536 + g * 256 + b"
    by (simp add: or.assoc)
  then have "of_nat (push_bit 16 r OR push_bit 8 g OR b) = (of_nat (r * 65536 + g * 256 + b) :: 32 word)" by simp
  then show ?thesis by (simp only: pack_rgb_def of_nat_or_eq of_nat_push_bit prod.case)
qed

lemma hex_small:
  assumes "n < 2 ^ 31"
  shows "hex_of_int32 (of_nat n) = hex_str n"
proof -
  have "uint (of_nat n :: 32 word) = int n" using assms by (simp add: uint_nat take_bit_nat_eq_self unat_of_nat)
  then have "sint (of_nat n :: 32 word) = int n"
    using assms by (simp add: sint_uint signed_take_bit_int_eq_self)
  then show ?thesis by (simp add: hex_of_int32_def)
qed

lemma nat_str_decimal: "list_all is_decimal (nat_str n)"
proof -
  have "list_all is_decimal (radix_str 10 n)"
  proof (induction n rule: less_induct)
    case (less n)
    have d: "is_decimal (digit k)" if "k < 10" for k
      using that by (simp add: is_decimal_def of_char_digit)
    show ?case
    proof (cases "n < 10")
      case True
      then show ?thesis using d by (simp add: radix_str.simps [of 10 n])
    next
      case False
      then show ?thesis using less [of "n div 10"] d [of "n mod 10"] by (simp add: radix_str.simps [of 10 n])
    qed
  qed
  then show ?thesis by (simp add: nat_str_def)
qed

lemma digits_at_nat:
  assumes "s = [] \<or> \<not> is_decimal (hd s)"
  shows "digits_at (nat_str n @ s) = Some (nat_str n, s)"
proof -
  have all: "\<forall>c \<in> set (nat_str n). is_decimal c" using nat_str_decimal [of n] by (simp add: list_all_iff)
  have "takeWhile is_decimal s = []" "dropWhile is_decimal s = s" using assms by (cases s; simp)+
  then have "takeWhile is_decimal (nat_str n @ s) = nat_str n" "dropWhile is_decimal (nat_str n @ s) = s"
    using all by (simp_all add: takeWhile_append dropWhile_append)
  then show ?thesis by (cases "nat_str n") (auto simp: digits_at_def nat_str_def)
qed

lemma not_decimal [simp]: "\<not> is_decimal CHR '',''" "\<not> is_decimal CHR '')''"
  by (simp_all add: is_decimal_def)

lemma radix_val_nat_str [simp]: "radix_val 10 (nat_str n) = n"
  by (simp add: nat_str_def)

definition rgb_text :: "nat \<Rightarrow> nat \<Rightarrow> nat \<Rightarrow> string" where
  "rgb_text r g b = ''rgb('' @ nat_str r @ '', '' @ nat_str g @ '', '' @ nat_str b @ '')''"

lemma rgb_search_text: "rgb_search (rgb_text r g b) = Some (r, g, b)"
  by (simp add: rgb_text_def rgb_at_def groups_at_def digits_at_nat)

lemma searchString_find:
  "searchString es v =
     (map_option en_identity (find entry_hit es),
      case find entry_hit es of
        Some e \<Rightarrow> Some (or_str (en_versionSearch e) (en_identity e))
      | None \<Rightarrow> (if es = [] then v else Some (or_str (en_versionSearch (last es)) (en_identity (last es)))))"
  by (induction es arbitrary: v) (auto simp: Let_def split: option.splits)

section \<open>Properties\<close>

text \<open>
  \<open>ConvertLinearTodB\<close> on 16-bit levels: strictly increasing from the floor value of silence up to 0 dB at
  full scale, so the floor is below every audible level.
\<close>

theorem dB_monotone:
  assumes "m < n"
  shows "ConvertLinearTodB (real m) < ConvertLinearTodB (real n)
    \<and> ConvertLinearTodB 65535 = 0 \<and> (n \<le> 65535 \<longrightarrow> ConvertLinearTodB (real n) \<le> 0)
    \<and> - 100 < ConvertLinearTodB (real n)"
proof -
  have pos: "0 < real n" using assms by simp
  have l: "log 10 65535 < (5::real)" by (subst log_less_iff) (simp_all add: powr_numeral)
  have split: "ConvertLinearTodB (real k) = 20 * (log 10 (real k) - log 10 65535)" if "0 < k" for k
    using that by (simp add: ConvertLinearTodB_def log_divide)
  have nn: "0 \<le> log 10 (real n)" using assms by (simp add: zero_le_log_cancel_iff)
  have low: "- 100 < ConvertLinearTodB (real n)" 
  proof -
    have e: "ConvertLinearTodB (real n) = 20 * (log 10 (real n) - log 10 65535)" using split [of n] assms by simp
    from l nn have "- 5 < log 10 (real n) - log 10 65535" by (simp only: less_diff_eq)
    moreover have "- 100 < 20 * x" if "- 5 < x" for x :: real using that by linarith
    ultimately show ?thesis unfolding e by blast
  qed
  have "ConvertLinearTodB (real m) < ConvertLinearTodB (real n)"
  proof (cases "m = 0")
    case True
    with low show ?thesis by (simp add: ConvertLinearTodB_def)
  next
    case False
    then have "log 10 (real m) < log 10 (real n)" using assms by simp
    with False assms show ?thesis by (simp add: split)
  qed
  moreover have "ConvertLinearTodB (real n) \<le> 0" if "n \<le> 65535"
  proof -
    have "log 10 (real n) \<le> log 10 65535" using that pos by simp
    with split [of n] assms show ?thesis by simp
  qed
  moreover have "ConvertLinearTodB 65535 = 0" by (simp add: ConvertLinearTodB_def)
  ultimately show ?thesis using low by blast
qed

theorem dB_monotone_witness:
  "ConvertLinearTodB 0 < ConvertLinearTodB 1 \<and> - 100 < ConvertLinearTodB 1"
  using dB_monotone [of 0 1] by simp

text \<open>
  \<open>Color2Hex\<close> of \<open>rgb(r, g, b)\<close> is a hash sign and the hexadecimal digits of the packed colour without
  leading zeros: six digits exactly when red is at least 16, fewer otherwise, so that a dark colour is not
  printed as a colour; distinct colours still give distinct texts.
\<close>

theorem Color2Hex_digits:
  assumes "r < 256" and "g < 256" and "b < 256"
  shows "Color2Hex (rgb_text r g b) = ''#'' @ hex_str (r * 65536 + g * 256 + b)
    \<and> radix_val 16 (tl (Color2Hex (rgb_text r g b))) = r * 65536 + g * 256 + b
    \<and> (length (Color2Hex (rgb_text r g b)) = 7 \<longleftrightarrow> 16 \<le> r)"
proof -
  let ?n = "r * 65536 + g * 256 + b"
  have n: "?n < 2 ^ 24" using assms by simp
  have c: "Color2Hex (rgb_text r g b) = ''#'' @ hex_str ?n"
  proof -
    have "hex_of_int32 (of_nat ?n) = hex_str ?n" using n by (intro hex_small) simp
    then show ?thesis by (simp only: Color2Hex_def rgb_search_text pack_rgb_value [OF assms] option.case)
  qed
  have "length (hex_str ?n) = 6" if "16 \<le> r"
    unfolding hex_str_def using radix_str_length [of 16 5 ?n] that n by simp
  moreover have "length (hex_str ?n) \<noteq> 6" if "r < 16"
  proof -
    have small: "?n < 16 ^ 5" using that assms by simp
    show ?thesis
    proof (cases "?n = 0")
      case True
      then show ?thesis by (simp add: hex_str_def radix_str.simps [of 16 0])
    next
      case False
      obtain k where k: "16 ^ k \<le> ?n" "?n < 16 ^ Suc k"
        using ex_power_ivl1 [of 16 ?n] False by auto
      have "k < 5"
      proof (rule ccontr)
        assume "\<not> k < 5"
        then have "(16::nat) ^ 5 \<le> 16 ^ k" by (intro power_increasing) auto
        with k(1) small show False by linarith
      qed
      then show ?thesis unfolding hex_str_def using radix_str_length [OF _ k] by simp
    qed
  qed
  ultimately have "length (hex_str ?n) = 6 \<longleftrightarrow> 16 \<le> r" using not_le by blast
  then show ?thesis using c by (simp add: hex_str_def)
qed

theorem Color2Hex_digits_witness:
  "Color2Hex (rgb_text 255 136 17) = ''#ff8811'' \<and> length (Color2Hex (rgb_text 0 136 17)) \<noteq> 7"
proof -
  have d: "digit 15 = CHR ''f''" "digit 8 = CHR ''8''" "digit (Suc 0) = CHR ''1''" by code_simp+
  have "hex_str 16746513 = ''ff8811''" by (simp add: hex_str_def radix_str.simps [of 16] d)
  with Color2Hex_digits [of 255 136 17] have "Color2Hex (rgb_text 255 136 17) = ''#ff8811''" by simp
  moreover have "length (Color2Hex (rgb_text 0 136 17)) = 7 \<longleftrightarrow> 16 \<le> (0::nat)"
    by (rule conjunct2 [OF conjunct2 [OF Color2Hex_digits]]) simp_all
  ultimately show ?thesis by (simp only: not_numeral_le_zero) simp
qed

text \<open>
  C40. Browser detection: the browser is the identity of the first entry of the table whose probe succeeds, and
  the version is the number that starts one character after the first occurrence of that entry's version
  text. The entry for OmniWeb already contains the separator, so its version loses its first digit.
\<close>

theorem browser_version:
  assumes "find entry_hit (dataBrowser n) = Some e"
    and "v = or_str (en_versionSearch e) (en_identity e)"
    and "index_of v (userAgent n) = Some (length pre)" and "userAgent n = pre @ v @ c # rest"
    and "truthy_num (parseFloat rest)"
  shows "bi_browser (detect n) = en_identity e \<and> bi_version (detect n) = Version (parseFloat rest)"
proof -
  have s: "searchString (dataBrowser n) None = (Some (en_identity e), Some v)"
    using assms(1,2) by (simp add: searchString_find)
  have "e \<in> set (dataBrowser n)" using assms(1) by (auto simp: find_Some_iff)
  then have "en_identity e \<noteq> []" by (auto simp: dataBrowser_def Let_def entry_for_def)
  moreover have "searchVersion (Some v) (userAgent n) = Some (parseFloat rest)"
    using assms(3) by (simp add: searchVersion_def) (simp add: assms(4))
  ultimately show ?thesis using s assms(5) by (simp add: detect_def split: prod.splits)
qed

definition omniweb :: navigator where
  "omniweb = \<lparr>userAgent = ''OmniWeb/622.8'', appVersion = ''5.0'', vendor = None, platform = Some ''MacPPC'', window_opera = False\<rparr>"

theorem browser_version_witness:
  "bi_browser (detect omniweb) = ''OmniWeb'' \<and> bi_version (detect omniweb) = Version (Fin (228 / 10))"
proof -
  let ?e = "entry_for (StringProbe (Some ''OmniWeb/622.8'') ''OmniWeb'') ''OmniWeb'' (Some ''OmniWeb/'')"
  have e: "find entry_hit (dataBrowser omniweb) = Some ?e"
    by (simp add: dataBrowser_def omniweb_def Let_def entry_hit_def entry_for_def)
  have p: "parseFloat ''22.8'' = Fin (228 / 10)" by code_simp
  from browser_version [OF e refl, of "[]" "CHR ''6''" "''22.8''"] p show ?thesis
    by (simp add: entry_for_def omniweb_def)
qed

end
