(* ===== verification/Spec2Isabelle.thy ===== *)
theory Spec2Isabelle
  imports SeriesWindow SeriesFill GraphValid GraphConfig HoverDetail Axis GraphPage AxisTime TimeLocal DragZoom RangeSlider
    ClassHelpers ClassSystem Legend Smoother Drawing Fixtures DataLoad Annotate HoverRender LivePlot Page Cookies Html Requests Helpers
begin

text \<open>
  Verification of the web application that ships with the RAVENNA ALSA driver.

  The repository holds a Linux kernel driver in C, the Butler daemon as a binary, and the daemon's web
  application in JavaScript. The JavaScript written as source is \<open>ravenna/widget/Common.js\<close> (the helpers of the
  widgets: page, cookies, requests, HTML, the PTP graph) and \<open>rickshaw/rickshaw.js\<close> (the graph library the
  statistics are plotted with); the widgets themselves exist only in a minified bundle. This development
  models these two files.

  Structure. \<open>Prelude\<close> has JavaScript numbers (finite values, infinities, NaN), truth of values, arrays and
  errors; \<open>JsText\<close> has the text operations. One theory stands for each part of the program. Of \<open>rickshaw.js\<close>:

  \<^item> \<open>RickshawCore\<close>, \<open>ClassHelpers\<close>, \<open>ClassSystem\<close>, \<open>ClassList\<close>: \<open>namespace\<close>, \<open>keys\<close>, \<open>extend\<close>, \<open>clone\<close> over JavaScript
    values; argument lists, \<open>bind\<close> and \<open>wrap\<close>; \<open>Class.create\<close> and \<open>addMethods\<close> over prototype objects, which are shown to be
    method resolution over tables; and the substitute for \<open>classList\<close>, which refines a set of tokens (locale \<open>token_set\<close>).
  \<^item> \<open>Palette\<close>, \<open>Fixtures\<close>: the colour schemes and \<open>Rickshaw.Color.Palette\<close>, the number formats, the random test data.
  \<^item> \<open>SeriesData\<close>, \<open>SeriesWindow\<close>: \<open>Rickshaw.Series\<close> and \<open>Rickshaw.Series.FixedDuration\<close>; all rows share one
    grid of times, the window slides, and the exact grid from construction on. The locale \<open>series_index\<close> is
    what \<open>addItem\<close> and \<open>addData\<close> need of the overridden \<open>getIndex\<close>, interpreted for both classes.
  \<^item> \<open>SeriesFill\<close>: \<open>Rickshaw.Series.fill\<close>, a loop that inserts while it walks, as a partial function: it ends and
    meets its specification on numeric times, and does not end on NaN.
  \<^item> \<open>GraphData\<close>, \<open>GraphValid\<close>, \<open>Smoother\<close>: the data path of \<open>Rickshaw.Graph\<close>. Points live in an explicit store, because
    \<open>stackData\<close> mutates shared objects; the locale \<open>row_pass\<close> says what hooks and layouts may touch, and the smoother
    (again a loop that may not end) is a hook. The series that the application plots passes the checks at every moment.
  \<^item> \<open>Renderer\<close>, \<open>Drawing\<close>, \<open>GraphConfig\<close>: settings and domains of the renderers, the nodes they draw, and configuration,
    renderer registry, size and construction of a graph.
  \<^item> \<open>DataLoad\<close>: \<open>Ajax\<close>, \<open>JSONP\<close> and \<open>Socketio\<close>: how answers are merged into the series, and when the graph is made and drawn.
  \<^item> \<open>HoverDetail\<close>, \<open>HoverRender\<close>: the index search under the pointer (a loop in two directions, again a partial function),
    the selection of the nearest point, and what the detail shows.
  \<^item> \<open>Axis\<close>, \<open>TimeFixture\<close>, \<open>TimeLocal\<close>, \<open>AxisTime\<close>: the axes, and the time axis with the calendar of its fixtures; the locale
    \<open>tick_scale\<close> is what the tick loop needs of \<open>ceil\<close>, interpreted for units of fixed length, months and years.
  \<^item> \<open>Legend\<close>: the legend with the behaviours \<open>Toggle\<close>, \<open>Highlight\<close> and \<open>Order\<close>; its clicks refine transitions on the set of
    shown series.
  \<^item> \<open>DragZoom\<close>, \<open>RangeSlider\<close>, \<open>Annotate\<close>: the handlers that set the window of graphs, as steps over a state with listeners, and
    the annotations.

  \<^item> \<open>LivePlot\<close>: the three together, from the samples of a fixed-duration series over \<open>stackData\<close> to the lines on the page.

  Of \<open>Common.js\<close>:

  \<^item> \<open>Page\<close>: listeners, buttons, multi-select checks and visibility over a document in which every
    closure has an identity. The locale \<open>numbered_ids\<close> carries the loops over numbered elements.
  \<^item> \<open>Cookies\<close>, \<open>Html\<close>, \<open>Requests\<close>, \<open>Helpers\<close>: the cookie functions with percent encoding of UTF-8, the HTML
    builders with a scanner that reads tags back, the request functions, and the conversions (decibel, colour
    text, browser detection).
  \<^item> \<open>GraphPage\<close>: \<open>Rickshaw_CreateGraph\<close>, which composes series, graph, axes and hover detail to the graph of a page.

  Modelling. Stateful code passes its state as a record; a call that may throw returns a sum with the error on
  the left, or the state beside the error where what happened before the throw can be seen later; \<open>undefined\<close> and \<open>null\<close> are
  \<open>None\<close> where only their absence matters and values of \<open>jsval\<close> where a caller's object is inspected. Objects that are
  shared or mutated through several references have numbers in a store. Finite numbers are rationals: rounding of doubles is
  not modelled. Loops that may run forever are partial functions into \<open>option\<close>, so no fuel is chosen anywhere; each has a
  theorem that says when it returns. The libraries d3 and jQuery, the clock, the browser's layout and the transport are arguments.

  Properties. The numbered theorems of the theories are the claims about the code: what each component computes, its invariants over any
  sequence of operations, refinements of a simpler specification, and that its loops end. A number of further theorems record
  where the code does something it does not mean to do; their text says what.

  Not modelled: the driver and the shared C code, the daemon, the minified bundles, and in the two files the statements that only
  register a namespace, choose between old browsers, or hand a finished value to d3 or jQuery.
\<close>

end
